(* ===== verification/Prelude.thy ===== *)
theory Prelude
  imports Main "HOL-Library.Word"
begin

text \<open>
  Shared vocabulary of the development: the machine integer types of
  \<^verbatim>\<open>kernel/stdint.h\<close>, the constants used by several parts of the kernel, a
  combinator-free reading of counting loops (\<open>fold\<close> over \<open>[0..<n]\<close>), lemmas on single
  bits and on word arithmetic, and the bitmap interface that both the physical memory
  manager and the file system's on-disk bitmaps implement.
\<close>

unbundle bit_operations_syntax

named_theorems bit_facts
  \<open>how the single-bit operations of the kernel's bitmaps act on a bit\<close>
named_theorems frame_facts
  \<open>what an operation leaves unchanged\<close>

section \<open>Machine integers\<close>

type_synonym u8 = "8 word"
type_synonym u16 = "16 word"
type_synonym u32 = "32 word"
type_synonym u64 = "64 word"

text \<open>\<^verbatim>\<open>PAGE_SIZE\<close> and \<^verbatim>\<open>BLOCK_SIZE\<close> are both 4096.\<close>

definition PAGE_SIZE :: u32 where
  "PAGE_SIZE = 4096"

definition BLOCK_SIZE :: u32 where
  "BLOCK_SIZE = 4096"

text \<open>The value \<^verbatim>\<open>-1\<close> of the C functions that return a signed word.\<close>

abbreviation minus_one :: u32 where
  "minus_one \<equiv> 0xFFFFFFFF"

text \<open>The bytes of a string literal.\<close>

definition bytes :: "string \<Rightarrow> u8 list" where
  "bytes s = map of_char s"

section \<open>Single bits\<close>

text \<open>
  The C code writes the mask of bit \<open>k\<close> as \<open>1 << k\<close>, here \<open>push_bit k 1\<close>, which the
  simplifier turns into \<open>2 ^ k\<close>; the rules are stated for that form.
\<close>

lemma bit_or_exp [bit_facts]:
  fixes w :: "'a::len word"
  shows "k < LENGTH('a) \<Longrightarrow> bit (w OR 2 ^ k) n \<longleftrightarrow> n = k \<or> bit w n"
  by (auto simp: bit_simps)

lemma bit_and_not_exp [bit_facts]:
  fixes w :: "'a::len word"
  shows "bit (w AND NOT (2 ^ k)) n \<longleftrightarrow> n \<noteq> k \<and> bit w n"
  by (auto simp: bit_simps bit_imp_le_length)

lemma and_exp_eq_0 [bit_facts]:
  fixes w :: "'a::len word"
  shows "w AND 2 ^ k = 0 \<longleftrightarrow> \<not> bit w k"
  by (simp add: and_exp_eq_0_iff_not_bit)

lemma bit_full_word [bit_facts]: "bit minus_one n \<longleftrightarrow> n < 32"
proof -
  have "(minus_one :: u32) = - 1" by simp
  then show ?thesis by (simp only: bit_minus_1_iff possible_bit_word) simp
qed

section \<open>Word arithmetic\<close>

lemma unat_add_no_wrap:
  fixes a b :: "'a::len word"
  shows "unat a + unat b < 2 ^ LENGTH('a) \<Longrightarrow> unat (a + b) = unat a + unat b"
  by (simp add: unat_word_ariths)

lemma unat_of_nat_small:
  "n < 2 ^ LENGTH('a::len) \<Longrightarrow> unat (of_nat n :: 'a word) = n"
  by (simp add: unat_of_nat take_bit_eq_mod)

lemma unat_of_nat32 [simp]: "n < 4294967296 \<Longrightarrow> unat (of_nat n :: u32) = n"
  using unat_of_nat_small [where 'a = 32, of n] by simp

lemma unat_less_32 [simp]: "unat (w :: u32) < 4294967296"
  using unsigned_less [of w, where ?'a = nat] by simp

lemma unat_ucast_mod: "unat (ucast w :: 'b::len word) = unat w mod 2 ^ LENGTH('b)"
  by (simp add: unsigned_ucast_eq take_bit_eq_mod)

lemma fold_invariant:
  "P s \<Longrightarrow> (\<And>x s. x \<in> set xs \<Longrightarrow> P s \<Longrightarrow> P (f x s)) \<Longrightarrow> P (fold f xs s)"
  by (induction xs arbitrary: s) auto

section \<open>The bitmap interface\<close>

text \<open>
  Both bitmaps of the system, the one of the physical memory manager and the ones on disk,
  offer the same three operations: test a bit, set it, clear it. A client only ever needs
  to know that setting or clearing one bit leaves the others alone, for the bits the
  implementation really handles (\<open>ok\<close>).
\<close>

locale bitmap =
  fixes test :: "'s \<Rightarrow> nat \<Rightarrow> bool"
    and set1 :: "nat \<Rightarrow> 's \<Rightarrow> 's"
    and clear1 :: "nat \<Rightarrow> 's \<Rightarrow> 's"
    and ok :: "nat \<Rightarrow> bool"
  assumes test_set1: "ok i \<Longrightarrow> test (set1 i s) j \<longleftrightarrow> j = i \<or> test s j"
    and test_clear1: "ok i \<Longrightarrow> test (clear1 i s) j \<longleftrightarrow> j \<noteq> i \<and> test s j"
begin

lemma test_set_list:
  "(\<And>i. i \<in> set is \<Longrightarrow> ok i) \<Longrightarrow> test (fold set1 is s) j \<longleftrightarrow> j \<in> set is \<or> test s j"
  by (induction "is" arbitrary: s) (auto simp: test_set1)

lemma test_clear_list:
  "(\<And>i. i \<in> set is \<Longrightarrow> ok i) \<Longrightarrow> test (fold clear1 is s) j \<longleftrightarrow> j \<notin> set is \<and> test s j"
  by (induction "is" arbitrary: s) (auto simp: test_clear1)

lemma set_then_clear:
  "ok i \<Longrightarrow> \<not> test s i \<Longrightarrow> test (clear1 i (set1 i s)) j \<longleftrightarrow> test s j"
  by (auto simp: test_set1 test_clear1)

lemma clear_range_of_set_range:
  assumes "\<And>i. i \<in> set is \<Longrightarrow> ok i" and "\<And>i. i \<in> set is \<Longrightarrow> \<not> test s i"
  shows "test (fold clear1 is (fold set1 is s)) j \<longleftrightarrow> test s j"
  using assms by (auto simp: test_set_list test_clear_list)

end

end
