(* ===== verification/Pmm.thy ===== *)
theory Pmm
  imports Prelude "HOL-Library.Monad_Syntax"
begin

text \<open>
  The physical memory manager, \<^verbatim>\<open>kernel/memory/physical_memory_manager.c\<close>: a
  bitmap with one bit per 4 KB block (1 = in use), searched from the bottom for the first
  run of free blocks.
\<close>

section \<open>State\<close>

text \<open>
  The three globals. \<open>memory_map\<close> is the array of 32-bit words at 0x30000, as a function
  of the word index. It is kept apart from the memory of the other parts: the words below \<open>2 ^ 15\<close>,
  for the \<open>2 ^ 20\<close> blocks of the address space, are the 128 KB from 0x30000 on. The C code never
  checks an index. The one caller that passes numbers beyond these is \<open>free_page\<close>, which makes
  the change of the memory there as well.
\<close>

record pmm =
  memory_map :: "nat \<Rightarrow> u32"
  max_blocks :: u32
  used_blocks :: u32

section \<open>Operations\<close>

definition set_block :: "u32 \<Rightarrow> 'a pmm_scheme \<Rightarrow> 'a pmm_scheme" where
  "set_block b s =
     (let i = unat (b div 32)
      in s\<lparr>memory_map := (memory_map s)(i := memory_map s i OR push_bit (unat (b mod 32)) 1)\<rparr>)"

definition unset_block :: "u32 \<Rightarrow> 'a pmm_scheme \<Rightarrow> 'a pmm_scheme" where
  "unset_block b s =
     (let i = unat (b div 32)
      in s\<lparr>memory_map := (memory_map s)(i := memory_map s i AND NOT (push_bit (unat (b mod 32)) 1))\<rparr>)"

text \<open>
  The search loop of \<open>find_free_blocks\<close>: \<open>i\<close> is the block looked at, \<open>count\<close> the length of
  the run of free blocks that ends just before \<open>i\<close>. A word with all bits set is skipped as a
  whole. The loop counter is a 32-bit word that wraps, so the loop is a partial function:
  \<open>None\<close> is "never leaves the loop". The result \<open>minus_one\<close> is the C function's -1.
\<close>

partial_function (option) find_free_loop ::
    "(nat \<Rightarrow> u32) \<Rightarrow> u32 \<Rightarrow> u32 \<Rightarrow> u32 \<Rightarrow> u32 \<Rightarrow> u32 option" where
  "find_free_loop mm mx num i count =
     (if i < mx then
        let holder = mm (unat (i div 32)) in
        if holder = 0xFFFFFFFF then
          find_free_loop mm mx num (((i div 32 + 1) * 32 - 1) + 1) 0
        else if holder AND push_bit (unat (i mod 32)) 1 = 0 then
          (if count + 1 = num then Some (i - num + 1)
           else find_free_loop mm mx num (i + 1) (count + 1))
        else find_free_loop mm mx num (i + 1) 0
      else Some minus_one)"

definition find_free_blocks :: "u32 \<Rightarrow> 'a pmm_scheme \<Rightarrow> u32 option" where
  "find_free_blocks num s =
     (if num = 0 then Some minus_one
      else find_free_loop (memory_map s) (max_blocks s) num 0 0)"

definition allocate_blocks :: "u32 \<Rightarrow> 'a pmm_scheme \<Rightarrow> (u32 \<times> 'a pmm_scheme) option" where
  "allocate_blocks num s =
     (case find_free_blocks num s of
        None \<Rightarrow> None
      | Some first \<Rightarrow>
          if first = minus_one then Some (0, s)
          else
            let s1 = fold (\<lambda>i. set_block (first + of_nat i)) [0..<unat num] s;
                s2 = s1\<lparr>used_blocks := used_blocks s1 + num\<rparr>
            in Some (first * BLOCK_SIZE, s2))"

definition free_blocks :: "u32 \<Rightarrow> u32 \<Rightarrow> 'a pmm_scheme \<Rightarrow> 'a pmm_scheme" where
  "free_blocks b num s =
     (let s1 = fold (\<lambda>i. unset_block (b + of_nat i)) [0..<unat num] s
      in s1\<lparr>used_blocks := used_blocks s1 - num\<rparr>)"

text \<open>
  The region loops count \<^verbatim>\<open>num_blocks\<close> down to zero while \<^verbatim>\<open>align\<close> counts up.
  Both quotients by 4096 are below \<open>2 ^ 20\<close>, so the signed loop variables never overflow.
\<close>

definition initialize_memory_region :: "u32 \<Rightarrow> u32 \<Rightarrow> 'a pmm_scheme \<Rightarrow> 'a pmm_scheme" where
  "initialize_memory_region base sz s =
     (let align = base div BLOCK_SIZE; num = sz div BLOCK_SIZE
      in if num = 0 then s
         else set_block 0
           (fold (\<lambda>i t. let t1 = unset_block (align + of_nat i) t
                        in t1\<lparr>used_blocks := used_blocks t1 - 1\<rparr>) [0..<unat num] s))"

definition deinit_memory_region :: "u32 \<Rightarrow> u32 \<Rightarrow> 'a pmm_scheme \<Rightarrow> 'a pmm_scheme" where
  "deinit_memory_region base sz s =
     (let align = base div BLOCK_SIZE; num = sz div BLOCK_SIZE
      in fold (\<lambda>i t. let t1 = set_block (align + of_nat i) t
                     in t1\<lparr>used_blocks := used_blocks t1 + 1\<rparr>) [0..<unat num] s)"

definition initialize_pmm :: "'a pmm_scheme \<Rightarrow> 'a pmm_scheme" where
  "initialize_pmm s =
     deinit_memory_region 0 0xFFFFFFFF (s\<lparr>max_blocks := 0xFFFFFFFF div BLOCK_SIZE\<rparr>)"

section \<open>The bitmap as a set of blocks\<close>

text \<open>Block \<open>n\<close> is in use when its bit is set.\<close>

definition block_used :: "'a pmm_scheme \<Rightarrow> nat \<Rightarrow> bool" where
  "block_used s n = bit (memory_map s (n div 32)) (n mod 32)"

lemma block_used_set_block [bit_facts]:
  "block_used (set_block b s) n \<longleftrightarrow> n = unat b \<or> block_used s n"
proof -
  have "n = unat b \<longleftrightarrow> n div 32 = unat b div 32 \<and> n mod 32 = unat b mod 32"
    by (metis div_mult_mod_eq)
  then show ?thesis
    by (auto simp: block_used_def set_block_def Let_def unat_div unat_mod bit_or_exp)
qed

lemma block_used_unset_block [bit_facts]:
  "block_used (unset_block b s) n \<longleftrightarrow> n \<noteq> unat b \<and> block_used s n"
proof -
  have "n = unat b \<longleftrightarrow> n div 32 = unat b div 32 \<and> n mod 32 = unat b mod 32"
    by (metis div_mult_mod_eq)
  then show ?thesis
    by (auto simp: block_used_def unset_block_def Let_def unat_div unat_mod bit_and_not_exp)
qed

interpretation pmm_bits: bitmap block_used "\<lambda>i. set_block (of_nat i)" "\<lambda>i. unset_block (of_nat i)"
    "\<lambda>i. i < 2 ^ 32"
  by unfold_locales (simp_all add: bit_facts unat_of_nat_small)

section \<open>The search finds the first run of free blocks\<close>

definition used_in :: "(nat \<Rightarrow> u32) \<Rightarrow> nat \<Rightarrow> bool" where
  "used_in mm n = bit (mm (n div 32)) (n mod 32)"

text \<open>A run of \<open>n\<close> free blocks starts at \<open>a\<close>.\<close>

definition free_run :: "(nat \<Rightarrow> u32) \<Rightarrow> nat \<Rightarrow> nat \<Rightarrow> bool" where
  "free_run mm a n \<longleftrightarrow> (\<forall>k \<in> {a..<a + n}. \<not> used_in mm k)"

lemma block_used_used_in: "block_used s = used_in (memory_map s)"
  by (simp add: fun_eq_iff block_used_def used_in_def)

text \<open>
  The loop invariant, over natural numbers: \<open>c\<close> is the length of the maximal run of free
  blocks that ends before \<open>n\<close>, and no run of \<open>m\<close> free blocks ends at or before \<open>n\<close>.
\<close>

definition search_inv :: "(nat \<Rightarrow> u32) \<Rightarrow> nat \<Rightarrow> nat \<Rightarrow> nat \<Rightarrow> bool" where
  "search_inv mm m n c \<longleftrightarrow>
     c \<le> n \<and> c < m \<and> free_run mm (n - c) c \<and>
     (c < n \<longrightarrow> used_in mm (n - c - 1)) \<and>
     (\<forall>a. a + m \<le> n \<longrightarrow> \<not> free_run mm a m)"

lemma search_inv_start: "0 < m \<Longrightarrow> search_inv mm m 0 0"
  by (simp add: search_inv_def free_run_def)

lemma search_inv_free:
  assumes "search_inv mm m n c" and "\<not> used_in mm n" and "Suc c < m"
  shows "search_inv mm m (Suc n) (Suc c)"
proof -
  have "\<not> free_run mm a m" if "a + m = Suc n" for a
  proof -
    have "a \<le> n - c - 1" "c < n" "n - c - 1 < a + m" using that assms(1,3) by (auto simp: search_inv_def)
    then show ?thesis using assms(1) by (force simp: search_inv_def free_run_def)
  qed
  then show ?thesis using assms
    by (auto simp: search_inv_def free_run_def le_Suc_eq less_Suc_eq)
qed

lemma search_inv_used:
  assumes "search_inv mm m n c" and "used_in mm n"
  shows "search_inv mm m (Suc n) 0"
  using assms by (auto simp: search_inv_def free_run_def le_Suc_eq)

text \<open>Skipping a full word: every block from \<open>n\<close> to the next multiple of 32 is in use.\<close>

lemma search_inv_skip:
  assumes inv: "search_inv mm m n c" and full: "mm (n div 32) = 0xFFFFFFFF"
  shows "search_inv mm m ((n div 32 + 1) * 32) 0"
proof -
  have used: "used_in mm k" if "n \<le> k" "k < (n div 32 + 1) * 32" for k
  proof -
    have "n div 32 \<le> k div 32" using that(1) by (rule div_le_mono)
    moreover have "k div 32 < n div 32 + 1" using that(2) by (simp add: less_mult_imp_div_less)
    ultimately have eq: "k div 32 = n div 32" by simp
    have "used_in mm k = bit minus_one (k mod 32)" by (simp only: used_in_def eq full)
    also have "\<dots>" by (simp only: bit_full_word mod_less_divisor zero_less_numeral)
    finally show ?thesis .
  qed
  have step: "search_inv mm m (n + j) 0" if "0 < j" "n + j \<le> (n div 32 + 1) * 32" for j
    using that
  proof (induction j)
    case (Suc j)
    have "used_in mm (n + j)" using Suc.prems by (intro used) auto
    then show ?case
      using Suc search_inv_used [of mm m "n + j"] inv by (cases j) auto
  qed simp
  have "n < (n div 32 + 1) * 32" using dividend_less_div_times [of 32 n] by simp
  then obtain j where "0 < j" "n + j = (n div 32 + 1) * 32"
    using less_imp_add_positive by blast
  with step [of j] show ?thesis by simp
qed

text \<open>What a finished search has found.\<close>

definition search_result :: "(nat \<Rightarrow> u32) \<Rightarrow> nat \<Rightarrow> nat \<Rightarrow> u32 \<Rightarrow> bool" where
  "search_result mm mx m r \<longleftrightarrow>
     (if r = minus_one then \<forall>a. a + m \<le> mx \<longrightarrow> \<not> free_run mm a m
      else unat r + m \<le> mx \<and> free_run mm (unat r) m \<and> (\<forall>a < unat r. \<not> free_run mm a m))"

lemma search_inv_found:
  assumes "search_inv mm m n c" and "\<not> used_in mm n" and "Suc c = m"
  shows "free_run mm (n - c) m \<and> (\<forall>a < n - c. \<not> free_run mm a m)"
  using assms by (auto simp: search_inv_def free_run_def less_Suc_eq)

text \<open>The index arithmetic of the two cases that do not advance by one block.\<close>

lemma skip_full_word:
  assumes "unat mx \<le> 2 ^ 32 - 32" and "unat (i :: u32) < unat (mx :: u32)"
  defines "skip \<equiv> (i div 32 + 1) * 32"
  shows "unat skip = (unat i div 32 + 1) * 32" "unat i < unat skip" "unat skip \<le> 2 ^ 32 - 32"
proof -
  show skip: "unat skip = (unat i div 32 + 1) * 32"
    using assms by (simp add: skip_def unat_word_ariths unat_div)
  have "unat i div 32 < 134217727" using assms by (intro less_mult_imp_div_less) simp
  then show "unat i < unat skip" "unat skip \<le> 2 ^ 32 - 32"
    using dividend_less_div_times [of 32 "unat i"] unfolding skip by simp_all
qed

lemma search_found:
  assumes bound: "unat mx \<le> 2 ^ 32 - 32" and i: "unat i < unat mx"
    and inv: "search_inv mm (unat num) (unat i) (unat count)" and free: "\<not> used_in mm (unat i)" and found: "count + 1 = num"
  shows "search_result mm (unat mx) (unat num) (i - num + 1)"
proof -
  have "unat count + 1 < 2 ^ 32" using inv i bound by (simp add: search_inv_def)
  then have m: "unat num = Suc (unat count)" using found by (auto simp: unat_add_no_wrap)
  have r: "unat (i - num + 1) = unat i - unat count"
    using inv by (simp add: found [symmetric] search_inv_def unat_sub word_le_nat_alt)
  then have "unat (i - num + 1) \<noteq> unat minus_one" using i bound by simp
  then have "i - num + 1 \<noteq> minus_one" by metis
  then show ?thesis
    using search_inv_found [OF inv free m [symmetric]] inv i m by (simp add: search_result_def search_inv_def r)
qed

lemma find_free_loop_correct:
  assumes bound: "unat mx \<le> 2 ^ 32 - 32"
    and inv: "search_inv mm (unat num) (unat i) (unat count)"
    and le: "unat i \<le> 2 ^ 32 - 32"
  shows "\<exists>r. find_free_loop mm mx num i count = Some r \<and> search_result mm (unat mx) (unat num) r"
  using inv le
proof (induction "2 ^ 32 - unat i" arbitrary: i count rule: less_induct)
  case less
  note IH = less.hyps and inv = less.prems(1) and le = less.prems(2)
  show ?case
  proof (cases "i < mx")
    case False
    have "search_result mm (unat mx) (unat num) minus_one"
      using inv False by (auto simp: search_result_def search_inv_def word_less_nat_alt)
    then show ?thesis using False by (subst find_free_loop.simps) simp
  next
    case True
    then have n: "unat i < unat mx" by (simp add: word_less_nat_alt)
    then have i1: "unat (i + 1) = unat i + 1" using bound by (simp add: unat_add_no_wrap)
    let ?skip = "(i div 32 + 1) * 32 :: u32"
    note skip = skip_full_word [OF bound n]
    have index: "unat (i div 32) = unat i div 32" "unat (i mod 32) = unat i mod 32"
      by (simp_all add: unat_div unat_mod)
    consider (full) "mm (unat (i div 32)) = minus_one"
      | (free) "mm (unat (i div 32)) \<noteq> minus_one" "\<not> used_in mm (unat i)"
      | (used) "mm (unat (i div 32)) \<noteq> minus_one" "used_in mm (unat i)"
      by blast
    then show ?thesis
    proof cases
      case full
      have inv': "search_inv mm (unat num) (unat ?skip) (unat 0)"
        using search_inv_skip [OF inv] full by (simp only: skip(1) index unat_0)
      from IH [of ?skip 0] inv' skip(2,3) have "\<exists>r. find_free_loop mm mx num ?skip 0 = Some r \<and> search_result mm (unat mx) (unat num) r"
        by simp
      then show ?thesis using full True by (subst find_free_loop.simps) (simp add: algebra_simps)
    next
      case free
      have mask: "mm (unat (i div 32)) AND push_bit (unat (i mod 32)) 1 = 0"
        using free(2) by (simp add: used_in_def index and_exp_eq_0)
      have c1: "unat (count + 1) = unat count + 1"
        using inv n bound by (simp add: search_inv_def unat_add_no_wrap)
      show ?thesis
      proof (cases "count + 1 = num")
        case found: True
        then show ?thesis
          using search_found [OF bound n inv free(2) found] free mask True by (subst find_free_loop.simps) simp
      next
        case False
        with inv c1 have "Suc (unat count) < unat num"
          by (metis Suc_eq_plus1 Suc_lessI search_inv_def word_unat_eq_iff)
        with inv free(2) have "search_inv mm (unat num) (unat (i + 1)) (unat (count + 1))"
          by (simp add: search_inv_free i1 c1)
        with IH [of "i + 1" "count + 1"] i1 n bound
        have "\<exists>r. find_free_loop mm mx num (i + 1) (count + 1) = Some r \<and> search_result mm (unat mx) (unat num) r"
          by simp
        then show ?thesis using free mask True False by (subst find_free_loop.simps) simp
      qed
    next
      case used
      have mask: "mm (unat (i div 32)) AND push_bit (unat (i mod 32)) 1 \<noteq> 0"
        using used(2) by (simp add: used_in_def index and_exp_eq_0)
      have "search_inv mm (unat num) (unat (i + 1)) (unat 0)"
        using search_inv_used [OF inv used(2)] by (simp add: i1)
      with IH [of "i + 1" 0] i1 n bound
      have "\<exists>r. find_free_loop mm mx num (i + 1) 0 = Some r \<and> search_result mm (unat mx) (unat num) r"
        by simp
      then show ?thesis using used mask True by (subst find_free_loop.simps) simp
    qed
  qed
qed

section \<open>Ranges of blocks\<close>

text \<open>
  The loops of the allocator touch the blocks \<open>b, b + 1, \<dots>\<close> with 32-bit arithmetic. As long
  as the range does not wrap around, they are the blocks of an interval of natural numbers.
\<close>

lemma fold_set_as_list:
  "fold (\<lambda>i. set_block (b + of_nat i)) [0..<n] s =
     fold (\<lambda>i. set_block (of_nat i)) (map (\<lambda>i. unat (b + of_nat i)) [0..<n]) s"
  by (simp add: fold_map comp_def)

lemma fold_unset_as_list:
  "fold (\<lambda>i. unset_block (b + of_nat i)) [0..<n] s =
     fold (\<lambda>i. unset_block (of_nat i)) (map (\<lambda>i. unat (b + of_nat i)) [0..<n]) s"
  by (simp add: fold_map comp_def)

lemma range_no_wrap:
  assumes "unat b + n \<le> 2 ^ 32"
  shows "(\<lambda>i. unat (b + of_nat i :: u32)) ` {0..<n} = {unat b..<unat b + n}"
proof -
  have "unat (b + of_nat i) = unat b + i" if "i < n" for i
    using that assms by (simp add: unat_word_ariths unat_of_nat_small)
  then have "(\<lambda>i. unat (b + of_nat i :: u32)) ` {0..<n} = (\<lambda>i. unat b + i) ` {0..<n}"
    by (intro image_cong) auto
  also have "\<dots> = {unat b..<unat b + n}" by (simp add: add.commute)
  finally show ?thesis .
qed

lemma block_used_set_range:
  assumes "unat b + n \<le> 2 ^ 32"
  shows "block_used (fold (\<lambda>i. set_block (b + of_nat i)) [0..<n] s) j \<longleftrightarrow>
           j \<in> {unat b..<unat b + n} \<or> block_used s j"
  unfolding fold_set_as_list using unsigned_less [where ?'a = nat and ?'b = 32]
  by (subst pmm_bits.test_set_list) (auto simp: range_no_wrap [OF assms, symmetric])

lemma block_used_unset_range:
  assumes "unat b + n \<le> 2 ^ 32"
  shows "block_used (fold (\<lambda>i. unset_block (b + of_nat i)) [0..<n] s) j \<longleftrightarrow>
           j \<notin> {unat b..<unat b + n} \<and> block_used s j"
  unfolding fold_unset_as_list using unsigned_less [where ?'a = nat and ?'b = 32]
  by (subst pmm_bits.test_clear_list) (auto simp: range_no_wrap [OF assms, symmetric])

text \<open>Setting and clearing blocks touches nothing but the bitmap.\<close>

lemma set_block_frame [simp]:
  "max_blocks (set_block b s) = max_blocks s" "used_blocks (set_block b s) = used_blocks s"
  "pmm.more (set_block b s) = pmm.more s"
  by (simp_all add: set_block_def Let_def)

lemma unset_block_frame [simp]:
  "max_blocks (unset_block b s) = max_blocks s" "used_blocks (unset_block b s) = used_blocks s"
  "pmm.more (unset_block b s) = pmm.more s"
  by (simp_all add: unset_block_def Let_def)

lemma fold_set_frame [simp]:
  "max_blocks (fold (\<lambda>i. set_block (f i)) xs s) = max_blocks s"
  "used_blocks (fold (\<lambda>i. set_block (f i)) xs s) = used_blocks s"
  "pmm.more (fold (\<lambda>i. set_block (f i)) xs s) = pmm.more s"
  by (induction xs arbitrary: s) simp_all

lemma fold_unset_frame [simp]:
  "max_blocks (fold (\<lambda>i. unset_block (f i)) xs s) = max_blocks s"
  "used_blocks (fold (\<lambda>i. unset_block (f i)) xs s) = used_blocks s"
  "pmm.more (fold (\<lambda>i. unset_block (f i)) xs s) = pmm.more s"
  by (induction xs arbitrary: s) simp_all

lemma block_used_update [simp]:
  "block_used (s\<lparr>used_blocks := u\<rparr>) = block_used s"
  "block_used (s\<lparr>max_blocks := m\<rparr>) = block_used s"
  by (simp_all add: fun_eq_iff block_used_def)

lemma allocate_blocks_frame:
  "allocate_blocks num s = Some (p, s') \<Longrightarrow> max_blocks s' = max_blocks s \<and> pmm.more s' = pmm.more s"
  by (auto simp: allocate_blocks_def Let_def split: option.splits if_splits)

lemma free_blocks_frame [simp]:
  "max_blocks (free_blocks b n s) = max_blocks s" "pmm.more (free_blocks b n s) = pmm.more s"
  by (simp_all add: free_blocks_def Let_def)

section \<open>The allocator's contract\<close>

text \<open>
  The abstract search: the least block at which a run of \<open>m\<close> free blocks below \<open>mx\<close> starts.
\<close>

definition first_fit :: "(nat \<Rightarrow> u32) \<Rightarrow> nat \<Rightarrow> nat \<Rightarrow> nat option" where
  "first_fit mm mx m = List.find (\<lambda>a. free_run mm a m) [0..<mx + 1 - m]"

lemma first_fit_None: "first_fit mm mx m = None \<longleftrightarrow> (\<forall>a. a + m \<le> mx \<longrightarrow> \<not> free_run mm a m)"
  by (auto simp: first_fit_def find_None_iff)

lemma first_fit_SomeI:
  assumes "a + m \<le> mx" and "free_run mm a m" and "\<And>b. b < a \<Longrightarrow> \<not> free_run mm b m"
  shows "first_fit mm mx m = Some a"
  using assms by (auto simp: first_fit_def find_Some_iff intro!: exI [of _ a])

lemma first_fit_SomeD:
  "first_fit mm mx m = Some a \<Longrightarrow>
     a + m \<le> mx \<and> free_run mm a m \<and> (\<forall>b < a. \<not> free_run mm b m)"
  by (auto simp: first_fit_def find_Some_iff)

lemma find_free_blocks_fit:
  assumes "unat (max_blocks s) \<le> 2 ^ 32 - 32" and "num \<noteq> 0"
  shows "find_free_blocks num s =
    Some (case first_fit (memory_map s) (unat (max_blocks s)) (unat num) of
            None \<Rightarrow> minus_one | Some a \<Rightarrow> of_nat a)"
proof -
  have "0 < unat num" using assms(2) by (simp add: unat_gt_0)
  then obtain r where r: "find_free_blocks num s = Some r"
      and res: "search_result (memory_map s) (unat (max_blocks s)) (unat num) r"
    using find_free_loop_correct [OF assms(1), where i = 0 and count = 0 and num = num]
    by (auto simp: find_free_blocks_def assms(2) search_inv_start)
  have "r = (case first_fit (memory_map s) (unat (max_blocks s)) (unat num) of
            None \<Rightarrow> minus_one | Some a \<Rightarrow> of_nat a)"
  proof (cases "r = minus_one")
    case True
    then show ?thesis using res by (simp add: search_result_def first_fit_None [symmetric])
  next
    case False
    then have "first_fit (memory_map s) (unat (max_blocks s)) (unat num) = Some (unat r)"
      using res by (intro first_fit_SomeI) (auto simp: search_result_def)
    then show ?thesis by simp
  qed
  with r show ?thesis by simp
qed

text \<open>
  The search of the code, with its word skipping and its 32-bit counters, computes the
  abstract first fit, and returns -1 exactly when no run of \<open>num\<close> free blocks exists. It
  always returns when \<open>max_blocks\<close> is at most \<open>2 ^ 32 - 32\<close>; the kernel sets it to 0xFFFFF.
\<close>

lemma find_free_blocks_first_fit:
  assumes "unat (max_blocks s) \<le> 2 ^ 32 - 32" and "num \<noteq> 0"
  shows "find_free_blocks num s =
    Some (case first_fit (memory_map s) (unat (max_blocks s)) (unat num) of
            None \<Rightarrow> minus_one | Some a \<Rightarrow> of_nat a)"
  using assms by (rule find_free_blocks_fit)

text \<open>A map whose first word is full and whose block 32 and 34 are in use.\<close>

definition example_pmm :: pmm where
  "example_pmm = \<lparr>memory_map = (\<lambda>i. if i = 0 then minus_one else 5), max_blocks = 64, used_blocks = 34\<rparr>"

lemma example_first_fit: "first_fit (memory_map example_pmm) 64 3 = Some 35"
  by code_simp

lemma find_free_blocks_first_fit_witness: "find_free_blocks 3 example_pmm = Some 35"
  using find_free_blocks_first_fit [of example_pmm 3] example_first_fit
  by (simp add: example_pmm_def)

text \<open>Whatever the bitmap, an allocation returns.\<close>

lemma allocate_blocks_returns:
  assumes "unat (max_blocks s) \<le> 2 ^ 32 - 32"
  shows "\<exists>p s'. allocate_blocks n s = Some (p, s') \<and> max_blocks s' = max_blocks s \<and> pmm.more s' = pmm.more s"
proof (cases "n = 0")
  case False
  then have "\<exists>p s'. allocate_blocks n s = Some (p, s')"
    using find_free_blocks_fit [OF assms False] by (simp add: allocate_blocks_def Let_def)
  then show ?thesis using allocate_blocks_frame by blast
qed (simp add: allocate_blocks_def find_free_blocks_def)

text \<open>The states in which the allocator's addresses are meaningful.\<close>

definition alloc_ok :: "'a pmm_scheme \<Rightarrow> bool" where
  "alloc_ok s \<longleftrightarrow> unat (max_blocks s) < 2 ^ 20 \<and> block_used s 0"

lemma alloc_ok_set_block [intro]: "alloc_ok s \<Longrightarrow> alloc_ok (set_block b s)"
  by (simp add: alloc_ok_def bit_facts)

lemma allocate_blocks_none:
  assumes "alloc_ok s" and "num \<noteq> 0"
    and "first_fit (memory_map s) (unat (max_blocks s)) (unat num) = None"
  shows "allocate_blocks num s = Some (0, s)"
  using assms find_free_blocks_fit [of s num] by (simp add: alloc_ok_def allocate_blocks_def)

lemma allocate_blocks_some:
  assumes ok: "alloc_ok s" and "num \<noteq> 0"
    and ff: "first_fit (memory_map s) (unat (max_blocks s)) (unat num) = Some a"
  shows "\<exists>s'. allocate_blocks num s = Some (of_nat a * BLOCK_SIZE, s') \<and>
           (\<forall>j. block_used s' j \<longleftrightarrow> j \<in> {a..<a + unat num} \<or> block_used s j) \<and>
           used_blocks s' = used_blocks s + num \<and> max_blocks s' = max_blocks s \<and>
           pmm.more s' = pmm.more s"
proof -
  have a: "a + unat num \<le> unat (max_blocks s)" using first_fit_SomeD [OF ff] by simp
  then have small: "a + unat num < 2 ^ 20" using ok by (simp add: alloc_ok_def)
  then have ua: "unat (of_nat a :: u32) = a" by (simp add: unat_of_nat_small)
  have "(of_nat a :: u32) \<noteq> minus_one"
  proof
    assume "(of_nat a :: u32) = minus_one"
    then have "unat (of_nat a :: u32) = unat minus_one" by simp
    then show False using ua small by simp
  qed
  then show ?thesis
    using assms find_free_blocks_fit [of s num] block_used_set_range [of "of_nat a" "unat num" s] ua small
    by (auto simp: alloc_ok_def allocate_blocks_def Let_def)
qed

text \<open>
  What the rest of the kernel relies on when it asks for blocks: the request always comes
  back; a non-zero answer is a page-aligned address of blocks that were free and are in use
  afterwards; a zero answer has changed nothing; no other block's state changes.
\<close>

locale block_allocator =
  fixes alloc :: "u32 \<Rightarrow> 's \<Rightarrow> (u32 \<times> 's) option"
    and in_use :: "'s \<Rightarrow> nat \<Rightarrow> bool"
    and inv :: "'s \<Rightarrow> bool"
  assumes alloc_total: "inv s \<Longrightarrow> \<exists>p s'. alloc n s = Some (p, s')"
    and alloc_inv: "inv s \<Longrightarrow> alloc n s = Some (p, s') \<Longrightarrow> inv s'"
    and alloc_failed: "inv s \<Longrightarrow> alloc n s = Some (0, s') \<Longrightarrow> n \<noteq> 0 \<Longrightarrow> s' = s"
    and alloc_aligned: "inv s \<Longrightarrow> alloc n s = Some (p, s') \<Longrightarrow> unat p mod 4096 = 0"
    and alloc_fresh: "inv s \<Longrightarrow> alloc n s = Some (p, s') \<Longrightarrow> p \<noteq> 0 \<Longrightarrow> n \<noteq> 0 \<Longrightarrow>
          k \<in> {unat p div 4096..<unat p div 4096 + unat n} \<Longrightarrow> \<not> in_use s k"
    and alloc_marks: "inv s \<Longrightarrow> alloc n s = Some (p, s') \<Longrightarrow> p \<noteq> 0 \<Longrightarrow> n \<noteq> 0 \<Longrightarrow>
          in_use s' k \<longleftrightarrow> in_use s k \<or> k \<in> {unat p div 4096..<unat p div 4096 + unat n}"
begin

lemma alloc_mono:
  "inv s \<Longrightarrow> alloc n s = Some (p, s') \<Longrightarrow> n \<noteq> 0 \<Longrightarrow> in_use s k \<Longrightarrow> in_use s' k"
  by (cases "p = 0") (auto simp: alloc_marks dest: alloc_failed)

text \<open>Two requests in a row never hand out the same block.\<close>

lemma alloc_twice_disjoint:
  assumes "inv s" and "alloc n s = Some (p, s1)" and "alloc m s1 = Some (q, s2)"
    and "p \<noteq> 0" "q \<noteq> 0" "n \<noteq> 0" "m \<noteq> 0"
  shows "{unat p div 4096..<unat p div 4096 + unat n} \<inter> {unat q div 4096..<unat q div 4096 + unat m} = {}"
proof -
  have inv1: "inv s1" by (rule alloc_inv [OF assms(1,2)])
  have "\<not> in_use s1 k" if "k \<in> {unat q div 4096..<unat q div 4096 + unat m}" for k
    by (rule alloc_fresh [OF inv1 assms(3) assms(5) assms(7) that])
  moreover have "in_use s1 k" if "k \<in> {unat p div 4096..<unat p div 4096 + unat n}" for k
    using that alloc_marks [OF assms(1,2,4,6)] by simp
  ultimately show ?thesis by blast
qed

text \<open>A block in use stays out of everything allocated later.\<close>

lemma alloc_avoids:
  assumes "inv s" and "alloc n s = Some (p, s')" and "p \<noteq> 0" "n \<noteq> 0" and "in_use s k"
  shows "k < unat p div 4096 \<or> unat p div 4096 + unat n \<le> k"
  using alloc_fresh [OF assms(1-4), of k] assms(5) by fastforce

end

text \<open>
  The two outcomes of a request in a state with \<open>alloc_ok\<close>: nothing fits, or the first fit
  \<open>a\<close> is handed out as the address \<open>4096 * a\<close>.
\<close>

definition allocated :: "'a pmm_scheme \<Rightarrow> u32 \<Rightarrow> nat \<Rightarrow> u32 \<Rightarrow> 'a pmm_scheme \<Rightarrow> bool" where
  "allocated s num a p s' \<longleftrightarrow>
     first_fit (memory_map s) (unat (max_blocks s)) (unat num) = Some a \<and>
     0 < a \<and> a + unat num \<le> unat (max_blocks s) \<and> unat p = 4096 * a \<and>
     (\<forall>k \<in> {a..<a + unat num}. \<not> block_used s k) \<and>
     (\<forall>j. block_used s' j \<longleftrightarrow> j \<in> {a..<a + unat num} \<or> block_used s j) \<and>
     used_blocks s' = used_blocks s + num \<and> max_blocks s' = max_blocks s \<and>
     pmm.more s' = pmm.more s"

lemma allocate_blocks_0: "allocate_blocks 0 s = Some (0, s)"
  by (simp add: allocate_blocks_def find_free_blocks_def)

lemma allocate_blocks_cases:
  assumes ok: "alloc_ok s"
  shows "allocate_blocks num s = Some (0, s) \<and>
           (num = 0 \<or> first_fit (memory_map s) (unat (max_blocks s)) (unat num) = None) \<or>
         num \<noteq> 0 \<and> (\<exists>a p s'. allocate_blocks num s = Some (p, s') \<and> allocated s num a p s')"
proof (cases "num = 0")
  case False
  then have pos: "0 < unat num" by (simp add: unat_gt_0)
  show ?thesis
  proof (cases "first_fit (memory_map s) (unat (max_blocks s)) (unat num)")
    case None
    then show ?thesis using allocate_blocks_none [OF ok False] by simp
  next
    case (Some a)
    have ff: "a + unat num \<le> unat (max_blocks s)" "free_run (memory_map s) a (unat num)"
      using first_fit_SomeD [OF Some] by simp_all
    have "0 < a"
      using ff(2) ok pos by (cases a) (auto simp: free_run_def alloc_ok_def block_used_used_in)
    moreover have "unat (of_nat a * BLOCK_SIZE :: u32) = 4096 * a"
      using ff(1) ok by (simp add: alloc_ok_def BLOCK_SIZE_def unat_word_ariths unat_of_nat_small)
    ultimately show ?thesis
      using allocate_blocks_some [OF ok False Some] Some ff False
      by (auto simp: allocated_def free_run_def block_used_used_in)
  qed
qed (simp add: allocate_blocks_0)

lemma allocate_blocksD:
  assumes "alloc_ok s" and "allocate_blocks num s = Some (p, s')"
  shows "p = 0 \<and> s' = s \<or> num \<noteq> 0 \<and> p \<noteq> 0 \<and> allocated s num (unat p div 4096) p s'"
  using allocate_blocks_cases [OF assms(1), of num] assms(2)
  by (auto simp: allocated_def)

lemma allocated_alloc_ok: "alloc_ok s \<Longrightarrow> allocated s n a p s' \<Longrightarrow> alloc_ok s'"
  by (simp add: alloc_ok_def allocated_def)

interpretation pmm_alloc: block_allocator allocate_blocks block_used alloc_ok
proof unfold_locales
  fix s s' :: "'a pmm_scheme" and n p :: u32 and k :: nat
  assume ok: "alloc_ok s"
  show "\<exists>p s'. allocate_blocks n s = Some (p, s')"
    using allocate_blocks_cases [OF ok] by blast
  assume a: "allocate_blocks n s = Some (p, s')"
  note cases = allocate_blocksD [OF ok a]
  show "alloc_ok s'" using cases ok by (auto dest: allocated_alloc_ok)
  show "unat p mod 4096 = 0" using cases by (auto simp: allocated_def) (metis mod_mult_self1_is_0)
  assume "p \<noteq> 0"
  then have al: "allocated s n (unat p div 4096) p s'" using cases by simp
  show "block_used s' k \<longleftrightarrow> block_used s k \<or> k \<in> {unat p div 4096..<unat p div 4096 + unat n}"
    using al by (auto simp: allocated_def)
  assume "k \<in> {unat p div 4096..<unat p div 4096 + unat n}"
  then show "\<not> block_used s k" using al by (auto simp: allocated_def)
next
  fix s s' :: "'a pmm_scheme" and n :: u32
  assume "alloc_ok s" "allocate_blocks n s = Some (0, s')"
  then show "s' = s" using allocate_blocksD by blast
qed

section \<open>The count of used blocks\<close>

definition used_set :: "'a pmm_scheme \<Rightarrow> nat set" where
  "used_set s = {n. n < unat (max_blocks s) \<and> block_used s n}"

text \<open>\<open>used_blocks\<close> is the number of blocks below \<open>max_blocks\<close> whose bit is set.\<close>

definition pmm_counted :: "'a pmm_scheme \<Rightarrow> bool" where
  "pmm_counted s \<longleftrightarrow> unat (used_blocks s) = card (used_set s)"

lemma finite_used_set [simp]: "finite (used_set s)"
  by (simp add: used_set_def)

lemma card_used_set_le: "card (used_set s) \<le> unat (max_blocks s)"
  using card_mono [of "{..<unat (max_blocks s)}" "used_set s"] by (auto simp: used_set_def)

lemma allocated_counted:
  assumes "alloc_ok s" and "pmm_counted s" and "allocated s n a p s'"
  shows "pmm_counted s'"
proof -
  have un: "used_set s' = used_set s \<union> {a..<a + unat n}"
    and disj: "used_set s \<inter> {a..<a + unat n} = {}"
    using assms(3) by (auto simp: used_set_def allocated_def)
  have card': "card (used_set s') = card (used_set s) + unat n"
    using disj by (simp add: un card_Un_disjoint)
  also have "\<dots> < 2 ^ 32"
    using card_used_set_le [of s'] card' assms(1,3) by (simp add: alloc_ok_def allocated_def)
  finally have "unat (used_blocks s + n) = unat (used_blocks s) + unat n"
    using card' assms(2) by (intro unat_add_no_wrap) (simp add: pmm_counted_def)
  then show ?thesis using assms(2,3) card' by (simp add: pmm_counted_def allocated_def)
qed

text \<open>
  C2. Allocation keeps the count of used blocks equal to the number of set bits, whether it
  succeeds or not.
\<close>

theorem allocate_blocks_counted:
  assumes "alloc_ok s" and "pmm_counted s" and "allocate_blocks num s = Some (p, s')"
  shows "pmm_counted s'"
  using allocate_blocksD [OF assms(1,3)] assms(1,2) by (auto intro: allocated_counted)

lemma example_alloc_ok: "alloc_ok example_pmm"
  by (simp add: alloc_ok_def example_pmm_def block_used_def)

lemma example_counted: "pmm_counted example_pmm"
proof -
  have "used_set example_pmm = set (filter (block_used example_pmm) [0..<64])"
    by (auto simp: used_set_def example_pmm_def)
  also have "filter (block_used example_pmm) [0..<64] = [0..<33] @ [34]"
    by code_simp
  finally show ?thesis by (simp add: pmm_counted_def example_pmm_def)
qed

lemma example_allocate:
  obtains s' where "allocate_blocks 3 example_pmm = Some (0x23000, s')"
proof -
  obtain a p s' where r: "allocate_blocks 3 example_pmm = Some (p, s')" and al: "allocated example_pmm 3 a p s'"
    using allocate_blocks_cases [OF example_alloc_ok, of 3] example_first_fit
    by (auto simp: example_pmm_def)
  then have "a = 35" using example_first_fit by (simp add: allocated_def example_pmm_def)
  then have "unat p = unat (0x23000 :: u32)" using al by (simp add: allocated_def)
  then have "p = 0x23000" by (rule unsigned_word_eqI)
  with r that show ?thesis by simp
qed

theorem allocate_blocks_counted_witness:
  "\<exists>s'. allocate_blocks 3 example_pmm = Some (0x23000, s') \<and> pmm_counted s'"
  using example_allocate allocate_blocks_counted [OF example_alloc_ok example_counted] by metis

text \<open>What \<open>free_blocks\<close> does to a range that does not wrap around.\<close>

lemma free_blocks_effect:
  assumes "unat b + unat n \<le> 2 ^ 32"
  shows "block_used (free_blocks b n s) j \<longleftrightarrow> j \<notin> {unat b..<unat b + unat n} \<and> block_used s j"
    and "used_blocks (free_blocks b n s) = used_blocks s - n"
    and "max_blocks (free_blocks b n s) = max_blocks s"
    and "pmm.more (free_blocks b n s) = pmm.more s"
  using block_used_unset_range [OF assms, of s] by (simp_all add: free_blocks_def Let_def)

text \<open>
  C3. Freeing what was allocated, by its block number, restores every bit and the count.
\<close>

theorem allocate_free_roundtrip:
  assumes "alloc_ok s" and "allocate_blocks num s = Some (p, s')" and "p \<noteq> 0"
  shows "block_used (free_blocks (p div BLOCK_SIZE) num s') = block_used s \<and>
         used_blocks (free_blocks (p div BLOCK_SIZE) num s') = used_blocks s"
proof -
  let ?a = "unat p div 4096"
  have al: "allocated s num ?a p s'" using allocate_blocksD [OF assms(1,2)] assms(3) by simp
  have b: "unat (p div BLOCK_SIZE) = ?a" by (simp add: unat_div BLOCK_SIZE_def)
  have "unat (p div BLOCK_SIZE) + unat num \<le> 2 ^ 32"
    using al assms(1) by (simp add: b allocated_def alloc_ok_def)
  note eff = free_blocks_effect [OF this, of s', unfolded b]
  show ?thesis
    using al by (auto simp: fun_eq_iff eff allocated_def)
qed

theorem allocate_free_roundtrip_witness:
  "\<exists>s'. allocate_blocks 3 example_pmm = Some (0x23000, s') \<and>
     block_used (free_blocks 0x23 3 s') = block_used example_pmm \<and>
     used_blocks (free_blocks 0x23 3 s') = 34"
proof -
  obtain s' where s': "allocate_blocks 3 example_pmm = Some (0x23000, s')" by (rule example_allocate)
  have nz: "(0x23000 :: u32) \<noteq> 0" by simp
  show ?thesis
    using s' allocate_free_roundtrip [OF example_alloc_ok s' nz]
    by (simp add: BLOCK_SIZE_def example_pmm_def)
qed

section \<open>Memory regions\<close>

lemma fold_unset_count:
  "fold (\<lambda>i t. (unset_block (f i) t)\<lparr>used_blocks := used_blocks t - 1\<rparr>) [0..<n] s =
     (fold (\<lambda>i. unset_block (f i)) [0..<n] s)\<lparr>used_blocks := used_blocks s - of_nat n\<rparr>"
  by (induction n) (simp_all add: Let_def unset_block_def algebra_simps)

lemma fold_set_count:
  "fold (\<lambda>i t. (set_block (f i) t)\<lparr>used_blocks := used_blocks t + 1\<rparr>) [0..<n] s =
     (fold (\<lambda>i. set_block (f i)) [0..<n] s)\<lparr>used_blocks := used_blocks s + of_nat n\<rparr>"
  by (induction n) (simp_all add: Let_def set_block_def algebra_simps)

text \<open>The blocks of a region: whole blocks only, from the block that holds its base.\<close>

definition region_blocks :: "u32 \<Rightarrow> u32 \<Rightarrow> nat set" where
  "region_blocks base sz = {unat base div 4096..<unat base div 4096 + unat sz div 4096}"

lemma region_no_wrap: "unat (base div BLOCK_SIZE) + unat (sz div BLOCK_SIZE) \<le> 2 ^ 32" for base sz :: u32
proof -
  have "unat w div 4096 < 2 ^ 20" for w :: u32
    using unsigned_less [of w, where ?'a = nat] by (intro less_mult_imp_div_less) simp
  from this [of base] this [of sz] show ?thesis by (simp add: unat_div BLOCK_SIZE_def)
qed

lemma block_used_initialize_region:
  "block_used (initialize_memory_region base sz s) j \<longleftrightarrow>
     (if sz div BLOCK_SIZE = 0 then block_used s j
      else j = 0 \<or> j \<notin> region_blocks base sz \<and> block_used s j)"
  using block_used_unset_range [OF region_no_wrap, of base sz s j]
  by (auto simp: initialize_memory_region_def Let_def fold_unset_count bit_facts
      region_blocks_def BLOCK_SIZE_def unat_div)

lemma initialize_region_counters:
  "used_blocks (initialize_memory_region base sz s) = used_blocks s - sz div BLOCK_SIZE"
  "max_blocks (initialize_memory_region base sz s) = max_blocks s"
  "pmm.more (initialize_memory_region base sz s) = pmm.more s"
  by (simp_all add: initialize_memory_region_def Let_def fold_unset_count)

lemma block_used_deinit_region:
  "block_used (deinit_memory_region base sz s) j \<longleftrightarrow> j \<in> region_blocks base sz \<or> block_used s j"
  using block_used_set_range [OF region_no_wrap, of base sz s j]
  by (simp add: deinit_memory_region_def Let_def fold_set_count
      region_blocks_def BLOCK_SIZE_def unat_div)

lemma deinit_region_counters:
  "used_blocks (deinit_memory_region base sz s) = used_blocks s + sz div BLOCK_SIZE"
  "max_blocks (deinit_memory_region base sz s) = max_blocks s"
  "pmm.more (deinit_memory_region base sz s) = pmm.more s"
  by (simp_all add: deinit_memory_region_def Let_def fold_set_count)

text \<open>
  \<open>initialize_pmm\<close> leaves every block below \<open>max_blocks\<close> in use, with a correct count, so
  that every request for memory fails until a region has been released.
\<close>

lemma initialize_pmm_full:
  fixes s :: "'a pmm_scheme"
  assumes "used_blocks s = 0"
  shows "max_blocks (initialize_pmm s) = 0xFFFFF \<and> pmm_counted (initialize_pmm s) \<and>
    (\<forall>j < 0xFFFFF. block_used (initialize_pmm s) j) \<and>
    (\<forall>num. allocate_blocks num (initialize_pmm s) = Some (0, initialize_pmm s))"
proof -
  let ?t = "initialize_pmm s"
  have mx: "max_blocks ?t = 0xFFFFF"
    by (simp add: initialize_pmm_def deinit_region_counters BLOCK_SIZE_def)
  have used: "\<forall>j < 0xFFFFF. block_used ?t j"
    by (simp add: initialize_pmm_def block_used_deinit_region region_blocks_def)
  have "used_set ?t = {..<0xFFFFF}" using used mx by (auto simp: used_set_def)
  moreover have "used_blocks ?t = 0xFFFFF"
    using assms by (simp add: initialize_pmm_def deinit_region_counters BLOCK_SIZE_def)
  ultimately have counted: "pmm_counted ?t" by (simp add: pmm_counted_def)
  have ok: "alloc_ok ?t" using used mx by (simp add: alloc_ok_def)
  have "allocate_blocks num ?t = Some (0, ?t)" for num
    using allocate_blocks_cases [OF ok, of num]
  proof (elim disjE conjE exE)
    fix a p s'
    assume "num \<noteq> 0" and al: "allocated ?t num a p s'"
    then have "a \<in> {a..<a + unat num}" by (simp add: unat_gt_0)
    then have "\<not> block_used ?t a" "a < 0xFFFFF" using al mx by (auto simp: allocated_def)
    with used show ?thesis by simp
  qed simp_all
  with mx used counted show ?thesis by blast
qed

lemma initialize_pmm_full_witness:
  "allocate_blocks 1 (initialize_pmm (example_pmm\<lparr>used_blocks := 0\<rparr>)) =
     Some (0, initialize_pmm (example_pmm\<lparr>used_blocks := 0\<rparr>))"
  using initialize_pmm_full [of "example_pmm\<lparr>used_blocks := 0\<rparr>"] by simp

text \<open>
  Releasing a region frees exactly its whole blocks, block 0 excepted, but the counter
  only agrees when the region does not hold block 0: that block is counted as released and
  then set again, so \<open>used_blocks\<close> ends one below the number of set bits.
\<close>

lemma initialize_region_count:
  assumes counted: "pmm_counted s" and "4096 \<le> sz" and "block_used s 0"
    and range: "region_blocks base sz \<subseteq> used_set s"
  shows "used_set (initialize_memory_region base sz s) = insert 0 (used_set s - region_blocks base sz) \<and>
    unat (used_blocks (initialize_memory_region base sz s)) + (if base < 4096 then 1 else 0) =
      card (used_set (initialize_memory_region base sz s))"
proof -
  let ?R = "region_blocks base sz" and ?t = "initialize_memory_region base sz s"
  have n: "unat (sz div BLOCK_SIZE) = unat sz div 4096" by (simp add: unat_div BLOCK_SIZE_def)
  have pos: "0 < unat sz div 4096" using assms(2) by (simp add: word_le_nat_alt div_greater_zero_iff)
  then have nz: "sz div BLOCK_SIZE \<noteq> 0" using n by (metis less_irrefl unat_0)
  have "?R \<noteq> {}" using pos by (simp add: region_blocks_def)
  then have "0 < unat (max_blocks s)" using range by (auto simp: used_set_def)
  then have set': "used_set ?t = insert 0 (used_set s - ?R)" and zero: "0 \<in> used_set s"
    using nz assms(3) by (auto simp: used_set_def block_used_initialize_region initialize_region_counters)
  have fin: "finite ?R" and cardR: "card ?R = unat sz div 4096" by (simp_all add: region_blocks_def)
  then have le: "unat sz div 4096 \<le> card (used_set s)" using range card_mono finite_used_set by metis
  have count: "unat (used_blocks ?t) = card (used_set s) - unat sz div 4096"
    using counted le n by (simp add: initialize_region_counters pmm_counted_def unat_sub word_le_nat_alt)
  have diff: "card (used_set s - ?R) = card (used_set s) - unat sz div 4096"
    using range fin cardR by (simp add: card_Diff_subset)
  have "0 \<in> ?R \<longleftrightarrow> base < 4096"
    using pos by (simp add: region_blocks_def word_less_nat_alt div_eq_0_iff)
  then show ?thesis using set' zero count diff by (auto simp: insert_absorb)
qed

lemma initialize_region_count_witness:
  "unat (used_blocks (initialize_memory_region 0 0x2000 example_pmm)) + 1 =
     card (used_set (initialize_memory_region 0 0x2000 example_pmm))"
proof -
  have used: "block_used example_pmm 0" by (simp add: example_pmm_def block_used_def)
  have range: "region_blocks 0 0x2000 \<subseteq> used_set example_pmm"
  proof -
    have "region_blocks 0 0x2000 = {0, 1}" by (auto simp: region_blocks_def)
    then show ?thesis by (simp add: used_set_def example_pmm_def block_used_def)
  qed
  show ?thesis using initialize_region_count [OF example_counted _ used range] by simp
qed

text \<open>
  C1. A request in a state with \<open>alloc_ok\<close> refines the abstract allocator: it returns 0 and
  changes nothing when there is no first fit; otherwise it returns the address of the first
  fit, sets exactly the bits of those blocks, which were clear, and counts them.
\<close>

theorem allocate_blocks_first_fit:
  assumes "alloc_ok s" and "num \<noteq> 0"
  shows "case first_fit (memory_map s) (unat (max_blocks s)) (unat num) of
      None \<Rightarrow> allocate_blocks num s = Some (0, s)
    | Some a \<Rightarrow> \<exists>p s'. allocate_blocks num s = Some (p, s') \<and> allocated s num a p s'"
  using allocate_blocks_cases [OF assms(1), of num] assms(2)
  by (auto simp: allocated_def split: option.splits)

theorem allocate_blocks_first_fit_witness:
  "\<exists>p s'. allocate_blocks 3 example_pmm = Some (p, s') \<and> allocated example_pmm 3 35 p s'"
  using allocate_blocks_first_fit [OF example_alloc_ok, of 3] example_first_fit
  by (simp add: example_pmm_def)

text \<open>
  Two requests in a row, whatever their sizes, never hand out a common block.
\<close>

lemma allocate_blocks_disjoint:
  assumes "alloc_ok s" and "allocate_blocks n s = Some (p, s1)" and "allocate_blocks m s1 = Some (q, s2)"
    and "p \<noteq> 0" and "q \<noteq> 0" and "n \<noteq> 0" and "m \<noteq> 0"
  shows "{unat p div 4096..<unat p div 4096 + unat n} \<inter> {unat q div 4096..<unat q div 4096 + unat m} = {}"
  by (rule pmm_alloc.alloc_twice_disjoint [OF assms])

lemma allocate_blocks_disjoint_witness:
  "\<exists>s1 q s2. allocate_blocks 3 example_pmm = Some (0x23000, s1) \<and> allocate_blocks 2 s1 = Some (q, s2) \<and>
     (q \<noteq> 0 \<longrightarrow> {0x23..<0x26} \<inter> {unat q div 4096..<unat q div 4096 + 2} = {})"
proof -
  obtain s1 where s1: "allocate_blocks 3 example_pmm = Some (0x23000, s1)" by (rule example_allocate)
  obtain q s2 where q: "allocate_blocks 2 s1 = Some (q, s2)"
    using pmm_alloc.alloc_total [OF pmm_alloc.alloc_inv [OF example_alloc_ok s1]] by blast
  show ?thesis using s1 q allocate_blocks_disjoint [OF example_alloc_ok s1 q] by auto
qed

end
