(* ===== verification/Memory.thy ===== *)
theory Memory
  imports Prelude
begin

text \<open>
  The kernel's memory as it sees it through its pointers: one byte per 32-bit linear
  address, with the little-endian 32-bit accesses that the compiler emits for
  \<^verbatim>\<open>uint32_t\<close> lvalues. Two linear addresses are two locations: that the page tables may
  map them to one physical frame is not reflected in this memory.
\<close>

type_synonym memory = "u32 \<Rightarrow> u8"

section \<open>Words in byte memory\<close>

definition load32 :: "memory \<Rightarrow> u32 \<Rightarrow> u32" where
  "load32 m a = ucast (m a) OR push_bit 8 (ucast (m (a + 1))) OR
     push_bit 16 (ucast (m (a + 2))) OR push_bit 24 (ucast (m (a + 3)))"

definition store32 :: "memory \<Rightarrow> u32 \<Rightarrow> u32 \<Rightarrow> memory" where
  "store32 m a v = m(a := ucast v, a + 1 := ucast (drop_bit 8 v),
     a + 2 := ucast (drop_bit 16 v), a + 3 := ucast (drop_bit 24 v))"

text \<open>
  Two objects of \<open>k\<close> bytes at \<open>a\<close> and \<open>b\<close> do not overlap: each starts at least \<open>k\<close> bytes
  after the other, modulo \<open>2 ^ 32\<close>.
\<close>

definition apart :: "u32 \<Rightarrow> u32 \<Rightarrow> u32 \<Rightarrow> bool" where
  "apart k a b \<longleftrightarrow> k \<le> b - a \<and> k \<le> a - b"

lemma apart_sym: "apart k a b \<longleftrightarrow> apart k b a"
  by (auto simp: apart_def)

lemma load32_store32_same: "load32 (store32 m a v) a = v"
proof (rule bit_word_eqI)
  fix n assume "n < LENGTH(32)"
  then have "n < 8 \<or> (\<exists>k < 8. n = 8 + k) \<or> (\<exists>k < 8. n = 16 + k) \<or> (\<exists>k < 8. n = 24 + k)"
    by simp presburger
  then show "bit (load32 (store32 m a v) a) n = bit v n"
    by (elim disjE exE conjE) (simp_all add: load32_def store32_def bit_simps)
qed

lemma store32_store32 [simp]: "store32 (store32 m a v) a w = store32 m a w"
  by (auto simp: store32_def fun_eq_iff)

lemma store32_other:
  assumes "4 \<le> b - a"
  shows "store32 m a v b = m b"
proof -
  have "b \<noteq> a + k" if "k < 4" for k using assms that by auto
  from this [of 0] this [of 1] this [of 2] this [of 3] show ?thesis by (simp add: store32_def)
qed

lemma load32_cong: "(\<And>k. k < 4 \<Longrightarrow> m (a + k) = m' (a + k)) \<Longrightarrow> load32 m a = load32 m' a"
proof -
  assume *: "\<And>k. k < 4 \<Longrightarrow> m (a + k) = m' (a + k)"
  from * [of 0] * [of 1] * [of 2] * [of 3] show ?thesis by (simp add: load32_def)
qed

lemma apart_offset:
  fixes a b k :: u32
  assumes "4 \<le> b - a" "4 \<le> a - b" "k < 4"
  shows "4 \<le> (b + k) - a"
proof -
  obtain d where b: "b = a + d" by (metis add_diff_cancel_left' diff_add_cancel)
  then have d: "4 \<le> d" "4 \<le> - d" "(b + k) - a = d + k" using assms by simp_all
  then have "d \<noteq> 0" by auto
  then have "unat (- d) = 2 ^ 32 - unat d"
    using unat_sub_if_size [of 0 d] by (simp add: word_size unat_eq_zero)
  then have "4 \<le> unat d" "unat d \<le> 2 ^ 32 - 4"
    using d unsigned_less [of d, where ?'a = nat] by (simp_all add: word_le_nat_alt)
  then have "unat (d + k) = unat d + unat k" using assms(3) by (simp add: unat_add_no_wrap word_less_nat_alt)
  then have "4 \<le> d + k" using \<open>4 \<le> unat d\<close> by (simp add: word_le_nat_alt)
  then show ?thesis by (simp only: d(3))
qed

lemma load32_store32_apart: "apart 4 a b \<Longrightarrow> load32 (store32 m a v) b = load32 m b"
  by (rule load32_cong) (simp add: apart_def apart_offset store32_other)

text \<open>
  The interface of a memory of words: reading back what was written, and not disturbing the
  words that lie apart. The page-table and heap code only reasons with these two laws.
\<close>

locale word_store =
  fixes load :: "'m \<Rightarrow> u32 \<Rightarrow> u32"
    and store :: "'m \<Rightarrow> u32 \<Rightarrow> u32 \<Rightarrow> 'm"
  assumes load_store_same: "load (store m a v) a = v"
    and load_store_apart: "apart 4 a b \<Longrightarrow> load (store m a v) b = load m b"
begin

lemma load_store_list_apart:
  "(\<And>i. i \<in> set is \<Longrightarrow> apart 4 (f i) b) \<Longrightarrow> load (fold (\<lambda>i m. store m (f i) (v i)) is m) b = load m b"
  by (induction "is" arbitrary: m) (simp_all add: load_store_apart)

text \<open>Filling a table entry by entry: every entry ends up with its own value.\<close>

lemma load_store_table:
  assumes "\<And>i j. i < n \<Longrightarrow> j < n \<Longrightarrow> i \<noteq> j \<Longrightarrow> apart 4 (f i) (f j)" and "k < n"
  shows "load (fold (\<lambda>i m. store m (f i) (v i)) [0..<n] m) (f k) = v k"
proof -
  have split: "[0..<n] = [0..<k] @ k # [Suc k..<n]"
    using assms(2) upt_add_eq_append [of 0 k "n - k"] by (simp add: upt_conv_Cons)
  have "load (fold (\<lambda>i m. store m (f i) (v i)) [Suc k..<n] m') (f k) = load m' (f k)" for m'
    using assms by (intro load_store_list_apart) auto
  then show ?thesis by (simp add: split load_store_same)
qed

end

interpretation mem32: word_store load32 store32
  by unfold_locales (simp_all add: load32_store32_same load32_store32_apart)

text \<open>Distinct aligned words are apart.\<close>

lemma apart4_aligned:
  assumes "4 dvd unat a" and "4 dvd unat b" and "a \<noteq> b"
  shows "apart 4 a b"
proof -
  have "4 \<le> x - y" if xy: "4 dvd unat x" "4 dvd unat y" "x \<noteq> y" for x y :: u32
  proof -
    have "4 dvd unat (x - y)"
      using xy by (auto simp: unat_sub_if_size word_size intro: dvd_diff_nat dvd_add)
    moreover have "0 < unat (x - y)" using xy(3) by (simp add: unat_gt_0)
    ultimately have "4 \<le> unat (x - y)" by (simp add: dvd_imp_le)
    then show ?thesis by (simp add: word_le_nat_alt)
  qed
  from this [of b a] this [of a b] assms show ?thesis by (simp add: apart_def)
qed

section \<open>memset and memcpy\<close>

text \<open>
  \<^verbatim>\<open>kernel/util/string.c\<close>: byte loops with a 32-bit counter. Addresses wrap around, as
  pointer arithmetic does on the machine.
\<close>

definition memset :: "memory \<Rightarrow> u32 \<Rightarrow> u8 \<Rightarrow> u32 \<Rightarrow> memory" where
  "memset m ptr v len = fold (\<lambda>i m. m(ptr + of_nat i := v)) [0..<unat len] m"

definition memcpy :: "memory \<Rightarrow> u32 \<Rightarrow> u32 \<Rightarrow> u32 \<Rightarrow> memory" where
  "memcpy m dst src n = fold (\<lambda>i m. m(dst + of_nat i := m (src + of_nat i))) [0..<unat n] m"

definition strncpy :: "memory \<Rightarrow> u32 \<Rightarrow> u32 \<Rightarrow> u32 \<Rightarrow> memory" where
  "strncpy m dst src n = fold (\<lambda>i m. m(dst + of_nat i := m (src + of_nat i))) [0..<unat n] m"

lemma memset_prefix:
  "n < 2 ^ 32 \<Longrightarrow> fold (\<lambda>i m. m(ptr + of_nat i := v)) [0..<n] (m :: memory) a =
     (if unat (a - ptr) < n then v else m a)"
proof (induction n)
  case (Suc n)
  have "a = ptr + of_nat n \<longleftrightarrow> unat (a - ptr) = n"
  proof
    assume "a = ptr + of_nat n"
    then show "unat (a - ptr) = n" using Suc.prems by simp
  next
    assume "unat (a - ptr) = n"
    then have "of_nat n = a - ptr" by auto
    then show "a = ptr + of_nat n" by simp
  qed
  then show ?case using Suc by (auto simp: less_Suc_eq)
qed simp

lemma memset_effect: "memset m ptr v len a = (if a - ptr < len then v else m a)"
  using memset_prefix [of "unat len" ptr v m a] unsigned_less [of len, where ?'a = nat]
  by (simp add: memset_def word_less_nat_alt)

lemma load32_memset_outside:
  assumes "4 dvd unat a" "4 dvd unat ptr" "4 dvd unat len" and "len \<le> a - ptr"
  shows "load32 (memset m ptr v len) a = load32 m a"
proof (rule load32_cong)
  fix k :: u32 assume k: "k < 4"
  define d where "d = a - ptr"
  have "4 dvd unat d"
    using assms(1,2) by (auto simp: d_def unat_sub_if_size word_size intro: dvd_diff_nat dvd_add)
  then have "unat d \<le> 2 ^ 32 - 4" using unat_less_32 [of d] by (auto elim!: dvdE simp del: unat_less_32)
  then have "unat (d + k) = unat d + unat k" using k by (simp add: unat_add_no_wrap word_less_nat_alt)
  then have "len \<le> d + k" using assms(4) by (simp add: word_le_nat_alt d_def)
  moreover have "a + k - ptr = d + k" by (simp add: d_def)
  ultimately have "\<not> a + k - ptr < len" by (simp only: not_less)
  then show "memset m ptr v len (a + k) = m (a + k)" by (simp only: memset_effect if_False)
qed

lemma load32_memset_zero:
  assumes "\<And>k. k < 4 \<Longrightarrow> a + k - ptr < len"
  shows "load32 (memset m ptr 0 len) a = 0"
proof -
  have "load32 (memset m ptr 0 len) a = load32 (\<lambda>_. 0) a"
    using assms by (intro load32_cong) (simp add: memset_effect)
  then show ?thesis by (simp add: load32_def)
qed

text \<open>
  The copy loop goes upwards, so it is right unless the destination starts inside the
  source: \<open>0 < dst - src < n\<close>.
\<close>

lemma copy_prefix:
  "n < 2 ^ 32 \<Longrightarrow> dst = src \<or> n \<le> unat (dst - src) \<Longrightarrow>
     fold (\<lambda>i m. m(dst + of_nat i := m (src + of_nat i))) [0..<n] (m :: memory) a =
       (if unat (a - dst) < n then m (src + (a - dst)) else m a)"
proof (induction n arbitrary: a)
  case (Suc n)
  define M where "M = fold (\<lambda>i m. m(dst + of_nat i := m (src + of_nat i))) [0..<n] m"
  have IH: "M b = (if unat (b - dst) < n then m (src + (b - dst)) else m b)" for b
    using Suc.prems by (simp only: M_def, intro Suc.IH) auto
  have off: "\<not> unat ((src + of_nat n) - dst) < n"
  proof (cases "dst = src")
    case False
    then have e: "Suc n \<le> unat (dst - src)" using Suc.prems(2) by simp
    have "(src + of_nat n) - dst = of_nat n - (dst - src)" by simp
    then have "unat ((src + of_nat n) - dst) = 4294967296 + n - unat (dst - src)"
      using e Suc.prems(1) by (simp only: unat_sub_if_size word_size) simp
    then show ?thesis using unat_less_32 [of "dst - src"] by linarith
  qed (use Suc.prems in simp)
  have "a = dst + of_nat n \<longleftrightarrow> unat (a - dst) = n"
  proof
    assume "a = dst + of_nat n"
    then show "unat (a - dst) = n" using Suc.prems by simp
  next
    assume "unat (a - dst) = n"
    then have "of_nat n = a - dst" by auto
    then show "a = dst + of_nat n" by simp
  qed
  moreover have step: "fold (\<lambda>i m. m(dst + of_nat i := m (src + of_nat i))) [0..<Suc n] m =
      M(dst + of_nat n := M (src + of_nat n))"
    by (simp add: M_def)
  ultimately show ?case unfolding step using off by (auto simp: IH less_Suc_eq)
qed simp

definition copy_ok :: "u32 \<Rightarrow> u32 \<Rightarrow> u32 \<Rightarrow> bool" where
  "copy_ok dst src n \<longleftrightarrow> dst = src \<or> n \<le> dst - src"

lemma memcpy_effect:
  "copy_ok dst src n \<Longrightarrow>
     memcpy m dst src n a = (if a - dst < n then m (src + (a - dst)) else m a)"
  using copy_prefix [of "unat n" dst src m a] unsigned_less [of n, where ?'a = nat]
  by (simp add: memcpy_def copy_ok_def word_less_nat_alt word_le_nat_alt)

lemma strncpy_is_memcpy: "strncpy = memcpy"
  by (simp add: fun_eq_iff strncpy_def memcpy_def)

end
