(* ===== verification/CString.thy ===== *)
theory CString
  imports Memory "HOL-Library.List_Lexorder"
begin

text \<open>
  The string functions of \<^verbatim>\<open>kernel/util/string.c\<close> on NUL-terminated strings in
  memory. A pointer walk that never meets a NUL byte does not return, so the functions that
  look for one are partial. \<open>cstr_at m p s\<close> relates the bytes at \<open>p\<close> to the list \<open>s\<close>, and the
  lemmas show that each function computes the expected list function.

  The body of \<^verbatim>\<open>strcmp\<close> compares \<^verbatim>\<open>*s1\<close> and \<^verbatim>\<open>*s2\<close>, names that
  are not declared; the model reads them as its parameters \<^verbatim>\<open>str1\<close> and \<^verbatim>\<open>str2\<close>,
  which the loop body advances and the return statement reads.
\<close>

section \<open>The functions\<close>

partial_function (option) strcmp :: "memory \<Rightarrow> u32 \<Rightarrow> u32 \<Rightarrow> int option" where
  "strcmp m str1 str2 =
     (if m str1 \<noteq> 0 \<and> m str1 = m str2 then strcmp m (str1 + 1) (str2 + 1)
      else Some (uint (m str1) - uint (m str2)))"

partial_function (option) strlen_loop :: "memory \<Rightarrow> u32 \<Rightarrow> u32 \<Rightarrow> u32 option" where
  "strlen_loop m str1 len =
     (if m str1 \<noteq> 0 then strlen_loop m (str1 + 1) (len + 1) else Some len)"

definition strlen :: "memory \<Rightarrow> u32 \<Rightarrow> u32 option" where
  "strlen m str1 = strlen_loop m str1 0"

partial_function (option) strrchr_loop :: "memory \<Rightarrow> u8 \<Rightarrow> u32 \<Rightarrow> u32 \<Rightarrow> u32 option" where
  "strrchr_loop m c temp p =
     (if m temp \<noteq> 0 then strrchr_loop m c (temp + 1) (if m temp = c then temp else p)
      else Some p)"

text \<open>\<open>strrchr\<close> returns a pointer, 0 when there is none.\<close>

definition strrchr :: "memory \<Rightarrow> u32 \<Rightarrow> u8 \<Rightarrow> u32 option" where
  "strrchr m str c =
     (case strrchr_loop m c str 0 of
        None \<Rightarrow> None
      | Some p \<Rightarrow> if c = 0 then Some str else Some p)"

partial_function (option) strcpy :: "memory \<Rightarrow> u32 \<Rightarrow> u32 \<Rightarrow> memory option" where
  "strcpy m dst src =
     (let m1 = m(dst := m src)
      in if m1 src = 0 then Some m1 else strcpy m1 (dst + 1) (src + 1))"

section \<open>Strings in memory\<close>

fun cstr_at :: "memory \<Rightarrow> u32 \<Rightarrow> u8 list \<Rightarrow> bool" where
  "cstr_at m p [] = (m p = 0)"
| "cstr_at m p (c # cs) = (m p = c \<and> c \<noteq> 0 \<and> cstr_at m (p + 1) cs)"

lemma cstr_at_unique: "cstr_at m p s \<Longrightarrow> cstr_at m p t \<Longrightarrow> s = t"
proof (induction s arbitrary: p t)
  case Nil
  then show ?case by (cases t) auto
next
  case (Cons c cs)
  then show ?case by (cases t) auto
qed

lemma cstr_at_cong:
  "(\<And>i. i \<le> length s \<Longrightarrow> m (p + of_nat i) = m' (p + of_nat i)) \<Longrightarrow> cstr_at m p s \<longleftrightarrow> cstr_at m' p s"
proof (induction s arbitrary: p)
  case Nil
  from Nil.prems [of 0] show ?case by simp
next
  case (Cons c cs)
  have "m (p + 1 + of_nat i) = m' (p + 1 + of_nat i)" if "i \<le> length cs" for i
    using Cons.prems [of "Suc i"] that by (simp add: add.assoc)
  then have "cstr_at m (p + 1) cs \<longleftrightarrow> cstr_at m' (p + 1) cs" by (rule Cons.IH)
  with Cons.prems [of 0] show ?case by simp
qed

lemma strlen_loop_cstr: "cstr_at m p s \<Longrightarrow> strlen_loop m p n = Some (n + of_nat (length s))"
proof (induction s arbitrary: p n)
  case Nil
  then show ?case by (simp add: strlen_loop.simps [of m p])
next
  case (Cons c cs)
  then have "strlen_loop m (p + 1) (n + 1) = Some (n + 1 + of_nat (length cs))" by auto
  with Cons.prems show ?case by (simp add: strlen_loop.simps [of m p] algebra_simps)
qed

lemma strlen_cstr: "cstr_at m p s \<Longrightarrow> strlen m p = Some (of_nat (length s))"
  by (simp add: strlen_def strlen_loop_cstr)

text \<open>
  The order of \<open>strcmp\<close>: the sign of its result is the lexicographic order of the strings as
  lists of unsigned bytes.
\<close>

lemma strcmp_cstr:
  assumes "cstr_at m p s" and "cstr_at m q t"
  shows "\<exists>r. strcmp m p q = Some r \<and> (r = 0 \<longleftrightarrow> s = t) \<and> (r < 0 \<longleftrightarrow> s < t)"
  using assms
proof (induction s arbitrary: p q t)
  case Nil
  then show ?case
    by (cases t) (auto simp: strcmp.simps [of m p q] uint_0_iff less_le)
next
  case (Cons c cs)
  show ?case
  proof (cases t)
    case Nil
    with Cons.prems show ?thesis
      by (auto simp: strcmp.simps [of m p q] uint_0_iff)
  next
    case (Cons d ds)
    show ?thesis
    proof (cases "c = d")
      case True
      with Cons.prems Cons have "cstr_at m (p + 1) cs" "cstr_at m (q + 1) ds" by auto
      from Cons.IH [OF this] show ?thesis using Cons.prems Cons True
        by (auto simp: strcmp.simps [of m p q])
    next
      case False
      with Cons.prems Cons show ?thesis
        by (auto simp: strcmp.simps [of m p q] word_less_def word_uint_eq_iff)
    qed
  qed
qed

text \<open>
  C4. \<open>strcmp\<close> on two strings always returns; its result is 0 exactly for equal strings and
  negative exactly when the first is lexicographically smaller.
\<close>

theorem strcmp_lexicographic:
  assumes "cstr_at m p s" and "cstr_at m q t"
  shows "\<exists>r. strcmp m p q = Some r \<and> (r = 0 \<longleftrightarrow> s = t) \<and> (r < 0 \<longleftrightarrow> s < t)"
  using assms by (rule strcmp_cstr)

text \<open>A memory that holds the bytes of a list from address \<open>p\<close> on, and zero elsewhere.\<close>

definition bytes_at :: "u32 \<Rightarrow> u8 list \<Rightarrow> memory" where
  "bytes_at p bs a = (if unat (a - p) < length bs then bs ! unat (a - p) else 0)"

theorem strcmp_lexicographic_witness:
  "\<exists>r. strcmp (bytes_at 0x100 [108, 115, 0, 108, 116, 0]) 0x100 0x103 = Some r \<and> r < 0"
proof -
  let ?m = "bytes_at 0x100 [108, 115, 0, 108, 116, 0]"
  have "cstr_at ?m 0x100 [108, 115]" "cstr_at ?m 0x103 [108, 116]" "[108, 115] < [108, 116 :: u8]"
    by (simp_all add: bytes_at_def)
  then show ?thesis using strcmp_lexicographic by blast
qed

section \<open>Searching backwards\<close>

text \<open>The position of the last occurrence of an element.\<close>

fun rindex :: "'a \<Rightarrow> 'a list \<Rightarrow> nat option" where
  "rindex c [] = None"
| "rindex c (x # xs) =
     (case rindex c xs of Some i \<Rightarrow> Some (Suc i) | None \<Rightarrow> if x = c then Some 0 else None)"

lemma rindex_None: "rindex c xs = None \<longleftrightarrow> c \<notin> set xs"
  by (induction xs) (auto split: option.splits)

lemma rindex_Some:
  "rindex c xs = Some i \<Longrightarrow> i < length xs \<and> xs ! i = c \<and> c \<notin> set (drop (Suc i) xs)"
  by (induction xs arbitrary: i) (auto simp: rindex_None split: option.splits if_splits)

lemma strrchr_loop_cstr:
  "cstr_at m p s \<Longrightarrow>
     strrchr_loop m c p q = Some (case rindex c s of None \<Rightarrow> q | Some i \<Rightarrow> p + of_nat i)"
proof (induction s arbitrary: p q)
  case Nil
  then show ?case by (simp add: strrchr_loop.simps [of m c p])
next
  case (Cons d ds)
  then have "strrchr_loop m c (p + 1) q' =
      Some (case rindex c ds of None \<Rightarrow> q' | Some i \<Rightarrow> p + 1 + of_nat i)" for q' by auto
  with Cons.prems show ?case
    by (auto simp: strrchr_loop.simps [of m c p] split: option.splits)
qed

text \<open>
  \<open>strrchr\<close> returns the address of the last occurrence of a non-NUL character, and 0 when
  there is none; for the NUL character it returns the start of the string.
\<close>

lemma strrchr_last_occurrence:
  assumes "cstr_at m p s"
  shows "strrchr m p c =
    Some (if c = 0 then p else case rindex c s of None \<Rightarrow> 0 | Some i \<Rightarrow> p + of_nat i)"
  by (simp add: strrchr_def strrchr_loop_cstr [OF assms])

lemma strrchr_last_occurrence_witness:
  "strrchr (bytes_at 0x100 [47, 97, 47, 98, 0]) 0x100 47 = Some 0x102"
proof -
  have "cstr_at (bytes_at 0x100 [47, 97, 47, 98, 0]) 0x100 [47, 97, 47, 98]"
    by (simp add: bytes_at_def)
  from strrchr_last_occurrence [OF this, of 47] show ?thesis by simp
qed

section \<open>Copying a string\<close>

lemma memcpy_step:
  assumes "unat n + 1 < 2 ^ 32"
  shows "memcpy m dst src (n + 1) = memcpy (m(dst := m src)) (dst + 1) (src + 1) n"
proof -
  have "unat (n + 1) = Suc (unat n)" using assms by (simp add: unat_add_no_wrap)
  moreover have "[0..<Suc (unat n)] = 0 # map Suc [0..<unat n]" by (simp add: upt_conv_Cons map_Suc_upt)
  ultimately show ?thesis by (simp add: memcpy_def fold_map comp_def add.assoc)
qed

lemma copy_ok_step:
  assumes "copy_ok dst src (n + 1)" and "unat n + 1 < 2 ^ 32"
  shows "copy_ok (dst + 1) (src + 1) n"
proof -
  have "unat (n + 1) = unat n + 1" using assms(2) by (simp add: unat_add_no_wrap)
  then have "n \<le> n + 1" by (simp add: word_le_nat_alt)
  then show ?thesis using assms(1) by (auto simp: copy_ok_def)
qed

lemma strcpy_is_memcpy:
  "cstr_at m src s \<Longrightarrow> length s + 1 < 2 ^ 32 \<Longrightarrow> copy_ok dst src (of_nat (length s) + 1) \<Longrightarrow>
     strcpy m dst src = Some (memcpy m dst src (of_nat (length s) + 1))"
proof (induction s arbitrary: m dst src)
  case Nil
  then show ?case by (auto simp: strcpy.simps [of m dst src] memcpy_def)
next
  case (Cons c cs)
  let ?n = "of_nat (length (c # cs)) :: u32" and ?m1 = "m(dst := m src)"
  have n: "?n = of_nat (length cs) + 1" by simp
  have un: "unat ?n + 1 < 2 ^ 32" using Cons.prems(2) by (simp del: of_nat_Suc)
  have ok: "copy_ok (dst + 1) (src + 1) (of_nat (length cs) + 1)"
    using copy_ok_step [OF Cons.prems(3) un] by (simp add: n add.commute)
  have "?m1 (src + 1 + of_nat i) = m (src + 1 + of_nat i)" if "i \<le> length cs" for i
  proof (cases "dst = src")
    case False
    then have "?n + 1 \<le> dst - src" using Cons.prems(3) by (simp add: copy_ok_def)
    then have "Suc (length cs) + 1 \<le> unat (dst - src)"
      using Cons.prems(2) by (simp add: word_le_nat_alt unat_word_ariths)
    moreover have "unat (1 + of_nat i :: u32) = Suc i"
      using that Cons.prems(2) by (simp add: unat_word_ariths)
    ultimately have "dst - src \<noteq> 1 + of_nat i" using that by auto
    then show ?thesis by (auto simp: algebra_simps)
  next
    case True
    then have "?m1 = m" by (simp add: fun_upd_idem)
    then show ?thesis by (simp only:)
  qed
  then have tail: "cstr_at ?m1 (src + 1) cs"
    using Cons.prems(1) cstr_at_cong [of cs ?m1 "src + 1" m] by (simp only: cstr_at.simps)
  have "?m1 src \<noteq> 0" using Cons.prems(1) by auto
  then have "strcpy m dst src = strcpy ?m1 (dst + 1) (src + 1)"
    by (subst strcpy.simps) (simp only: Let_def if_False)
  also have "strcpy ?m1 (dst + 1) (src + 1) = Some (memcpy ?m1 (dst + 1) (src + 1) (of_nat (length cs) + 1))"
    by (rule Cons.IH [OF tail _ ok]) (use Cons.prems(2) in simp)
  also have "memcpy ?m1 (dst + 1) (src + 1) (of_nat (length cs) + 1) = memcpy m dst src (?n + 1)"
    using memcpy_step [OF un, of m dst src] by (simp add: n add.commute)
  finally show ?case .
qed

text \<open>
  \<open>strcpy\<close> returns and copies the string with its terminator, and nothing else, unless
  the destination starts inside the source.
\<close>

lemma strcpy_copies:
  assumes "cstr_at m src s" and "length s + 1 < 2 ^ 32" and "copy_ok dst src (of_nat (length s) + 1)"
  shows "\<exists>m'. strcpy m dst src = Some m' \<and> cstr_at m' dst s \<and>
    (\<forall>a. of_nat (length s) + 1 \<le> a - dst \<longrightarrow> m' a = m a)"
proof -
  let ?m' = "memcpy m dst src (of_nat (length s) + 1)"
  have un: "unat (of_nat (length s) + 1 :: u32) = length s + 1"
    using assms(2) by (simp add: unat_word_ariths)
  have eff: "?m' a = (if a - dst < of_nat (length s) + 1 then m (src + (a - dst)) else m a)" for a
    by (rule memcpy_effect [OF assms(3)])
  have shift: "cstr_at m' (dst + of_nat k) t"
    if "cstr_at m (src + of_nat k) t" "k + length t \<le> length s"
      "\<And>i. i \<le> length s \<Longrightarrow> m' (dst + of_nat i) = m (src + of_nat i)" for m' k t
    using that
  proof (induction t arbitrary: k)
    case (Cons c cs)
    then show ?case using Cons.IH [of "Suc k"] by (auto simp: algebra_simps)
  qed simp
  have "?m' (dst + of_nat i) = m (src + of_nat i)" if "i \<le> length s" for i
    using that assms(2) by (simp add: eff word_less_nat_alt un)
  then have "cstr_at ?m' dst s" using shift [of 0 s ?m'] assms(1) by simp
  then show ?thesis using strcpy_is_memcpy [OF assms] eff by (auto simp: not_less)
qed

lemma strcpy_copies_witness:
  "\<exists>m'. strcpy (bytes_at 0x100 [104, 105, 0]) 0x200 0x100 = Some m' \<and> cstr_at m' 0x200 [104, 105]"
proof -
  have "cstr_at (bytes_at 0x100 [104, 105, 0]) 0x100 [104, 105]" by (simp add: bytes_at_def)
  moreover have "copy_ok 0x200 0x100 (of_nat (length [104, 105 :: u8]) + 1)" by (simp add: copy_ok_def)
  ultimately show ?thesis using strcpy_copies [of _ _ "[104, 105]"] by fastforce
qed

end
