(* ===== verification/Vmm.thy ===== *)
theory Vmm
  imports Pmm Memory
begin

text \<open>
  The virtual memory manager, \<^verbatim>\<open>kernel/memory/virtual_memory_manager.c\<close> and its
  header: two-level page tables in memory, built from blocks of the physical memory manager.
  The tables are read and written through their physical addresses, as the code does; the
  kernel relies on those addresses being identity mapped.

  \<open>walk\<close> is the specification: the translation that the processor's paging unit performs on
  the tables (4 KB pages, two levels, bit 0 of an entry is "present").
\<close>

section \<open>State\<close>

text \<open>
  On top of the memory manager's globals: the memory itself, the global \<^verbatim>\<open>directory\<close>,
  and the control registers the code writes with inline assembly.
\<close>

record vmm = pmm +
  mem :: memory
  directory :: u32
  cr3 :: u32
  paging :: bool

section \<open>Macros and flags of the header\<close>

definition PTE_PRESENT :: u32 where "PTE_PRESENT = 1"
definition PTE_WRITABLE :: u32 where "PTE_WRITABLE = 2"
definition PTE_USER :: u32 where "PTE_USER = 4"
definition PDE_PRESENT :: u32 where "PDE_PRESENT = 1"
definition PDE_WRITABLE :: u32 where "PDE_WRITABLE = 2"
definition PDE_USER :: u32 where "PDE_USER = 4"

definition PD_INDEX :: "u32 \<Rightarrow> u32" where
  "PD_INDEX addr = drop_bit 22 addr AND 0x3FF"

definition PT_INDEX :: "u32 \<Rightarrow> u32" where
  "PT_INDEX addr = drop_bit 12 addr AND 0x3FF"

text \<open>The frame of an entry's value, and a frame put into it; note the two different masks.\<close>

definition GET_FRAME :: "u32 \<Rightarrow> u32" where
  "GET_FRAME v = v AND NOT 0xFFF"

definition frame_into :: "u32 \<Rightarrow> u32 \<Rightarrow> u32" where
  "frame_into v addr = (v AND NOT 0x7FFFF000) OR addr"

text \<open>The macros that write through a pointer \<open>e\<close> to an entry.\<close>

definition SET_FRAME :: "u32 \<Rightarrow> u32 \<Rightarrow> memory \<Rightarrow> memory" where
  "SET_FRAME e addr m = store32 m e (frame_into (load32 m e) addr)"

definition SET_ATTRIBUTE :: "u32 \<Rightarrow> u32 \<Rightarrow> memory \<Rightarrow> memory" where
  "SET_ATTRIBUTE e attr m = store32 m e (load32 m e OR attr)"

definition CLEAR_ATTRIBUTE :: "u32 \<Rightarrow> u32 \<Rightarrow> memory \<Rightarrow> memory" where
  "CLEAR_ATTRIBUTE e attr m = store32 m e (load32 m e AND NOT attr)"

text \<open>\<^verbatim>\<open>&t->m_entries[i]\<close>: the address of entry \<open>i\<close> of the table at \<open>t\<close>.\<close>

definition slot :: "u32 \<Rightarrow> u32 \<Rightarrow> u32" where
  "slot t i = t + 4 * i"

section \<open>Operations\<close>

definition alloc_page :: "u32 \<Rightarrow> 'a vmm_scheme \<Rightarrow> (bool \<times> 'a vmm_scheme) option" where
  "alloc_page e s = do {
     (p, s1) \<leftarrow> allocate_blocks 1 s;
     if p = 0 then Some (False, s1)
     else Some (True, s1\<lparr>mem := SET_ATTRIBUTE e PTE_PRESENT (SET_FRAME e p (mem s1))\<rparr>)
   }"

text \<open>
  \<open>free_page\<close> passes the address of the frame where \<open>free_blocks\<close> expects a block number. The
  bitmap's 128 KB have bits for the numbers below \<open>2 ^ 20\<close>; from 1 MB on the bit lies in the memory
  behind them, and \<open>stray_unset\<close> clears it there.
\<close>

definition map_word :: "u32 \<Rightarrow> u32" where
  "map_word b = 0x30000 + 4 * (b div 32)"

definition stray_unset :: "u32 \<Rightarrow> memory \<Rightarrow> memory" where
  "stray_unset b m =
     (if unat b < 2 ^ 20 then m
      else store32 m (map_word b) (load32 m (map_word b) AND NOT (push_bit (unat (b mod 32)) 1)))"

definition free_page :: "u32 \<Rightarrow> 'a vmm_scheme \<Rightarrow> 'a vmm_scheme" where
  "free_page e s =
     (let p = GET_FRAME (load32 (mem s) e);
          s1 = (if p \<noteq> 0 then let t = free_blocks p 1 s in t\<lparr>mem := stray_unset p (mem t)\<rparr> else s)
      in s1\<lparr>mem := CLEAR_ATTRIBUTE e PTE_PRESENT (mem s1)\<rparr>)"

definition get_pt_entry :: "u32 \<Rightarrow> u32 \<Rightarrow> u32" where
  "get_pt_entry pt addr = (if pt \<noteq> 0 then slot pt (PT_INDEX addr) else 0)"

definition get_pd_entry :: "u32 \<Rightarrow> u32 \<Rightarrow> u32" where
  "get_pd_entry pd addr = (if pd \<noteq> 0 then slot pd (PD_INDEX addr) else 0)"

definition get_page :: "u32 \<Rightarrow> 'a vmm_scheme \<Rightarrow> u32" where
  "get_page addr s =
     (let entry = slot (directory s) (PD_INDEX addr);
          table = GET_FRAME (load32 (mem s) entry)
      in slot table (PT_INDEX addr))"

definition unmap_page :: "u32 \<Rightarrow> 'a vmm_scheme \<Rightarrow> 'a vmm_scheme" where
  "unmap_page va s =
     (let page = get_page va s
      in s\<lparr>mem := CLEAR_ATTRIBUTE page PTE_PRESENT (SET_FRAME page 0 (mem s))\<rparr>)"

definition set_pd :: "u32 \<Rightarrow> 'a vmm_scheme \<Rightarrow> bool \<times> 'a vmm_scheme" where
  "set_pd dir s = (if dir = 0 then (False, s) else (True, s\<lparr>directory := dir, cr3 := dir\<rparr>))"

text \<open>
  \<open>map_page\<close> first makes sure there is a page table, which it maps at its own address by
  calling itself, and then writes the page's entry. Nothing in its text bounds the
  recursion, so it is a partial function.
\<close>

definition write_page :: "u32 \<Rightarrow> u32 \<Rightarrow> u32 \<Rightarrow> 'a vmm_scheme \<Rightarrow> 'a vmm_scheme" where
  "write_page e pa va s =
     (let table = GET_FRAME (load32 (mem s) e);
          page = slot table (PT_INDEX va);
          m1 = SET_ATTRIBUTE page PTE_PRESENT (mem s);
          m2 = SET_ATTRIBUTE page PTE_WRITABLE m1;
          m3 = SET_ATTRIBUTE page PTE_USER m2
      in s\<lparr>mem := SET_FRAME page pa m3\<rparr>)"

definition install_table :: "u32 \<Rightarrow> u32 \<Rightarrow> 'a vmm_scheme \<Rightarrow> 'a vmm_scheme" where
  "install_table e table s =
     (let m1 = memset (mem s) table 0 4096;
          m2 = SET_ATTRIBUTE e PDE_PRESENT m1;
          m3 = SET_ATTRIBUTE e PDE_WRITABLE m2;
          m4 = SET_ATTRIBUTE e PDE_USER m3
      in s\<lparr>mem := SET_FRAME e table m4\<rparr>)"

partial_function (option) map_page ::
    "u32 \<Rightarrow> u32 \<Rightarrow> 'a vmm_scheme \<Rightarrow> (bool \<times> 'a vmm_scheme) option" where
  "map_page pa va s =
     (let e = slot (directory s) (PD_INDEX va)
      in if load32 (mem s) e AND PTE_PRESENT \<noteq> PTE_PRESENT then
           Option.bind (allocate_blocks 1 s) (\<lambda>(table, s1).
             if table = 0 then Some (False, s1)
             else Option.bind (map_page table table s1) (\<lambda>(r, s2).
               Some (True, write_page e pa va (install_table e table s2))))
         else Some (True, write_page e pa va s))"

text \<open>
  \<open>create_page_table\<close> and \<open>map_address\<close> call each other; \<open>vm_run\<close> is the pair, with the
  call as an argument, and the two functions are its two instances.
\<close>

datatype vm_call = CreateTable | MapAddress u32

partial_function (option) vm_run ::
    "vm_call \<Rightarrow> u32 \<Rightarrow> u32 \<Rightarrow> u32 \<Rightarrow> 'a vmm_scheme \<Rightarrow> (bool \<times> 'a vmm_scheme) option" where
  "vm_run c dir va flags s =
     (let pd = slot dir (drop_bit 22 va)
      in case c of
           CreateTable \<Rightarrow>
             if load32 (mem s) pd = 0 then
               Option.bind (allocate_blocks 1 s) (\<lambda>(block, s1).
                 if block = 0 then Some (False, s1)
                 else
                   let m1 = store32 (mem s1) pd (block OR flags);
                       m2 = memset m1 (load32 m1 pd) 0 4096
                   in Option.bind (vm_run (MapAddress block) dir block flags (s1\<lparr>mem := m2\<rparr>))
                        (\<lambda>(r, s2). Some (True, s2)))
             else Some (True, s)
         | MapAddress pa \<Rightarrow>
             Option.bind
               (if load32 (mem s) pd = 0 then vm_run CreateTable dir va flags s else Some (True, s))
               (\<lambda>(r, s1).
                 if \<not> r then Some (False, s1)
                 else
                   let table = load32 (mem s1) pd AND NOT 0xFFF;
                       index = drop_bit 12 (drop_bit 10 (push_bit 10 va))
                   in Some (True, s1\<lparr>mem := store32 (mem s1) (slot table index) (pa OR flags)\<rparr>)))"

definition create_page_table ::
    "u32 \<Rightarrow> u32 \<Rightarrow> u32 \<Rightarrow> 'a vmm_scheme \<Rightarrow> (bool \<times> 'a vmm_scheme) option" where
  "create_page_table dir va flags s = vm_run CreateTable dir va flags s"

definition map_address ::
    "u32 \<Rightarrow> u32 \<Rightarrow> u32 \<Rightarrow> u32 \<Rightarrow> 'a vmm_scheme \<Rightarrow> (bool \<times> 'a vmm_scheme) option" where
  "map_address dir pa va flags s = vm_run (MapAddress pa) dir va flags s"

text \<open>
  \<open>initialize_vmm\<close>: one table for the identity map of the first 4 MB, one for the kernel at
  0xC0000000, a directory that holds both, then paging is switched on.
\<close>

definition fill_table :: "u32 \<Rightarrow> u32 \<Rightarrow> u32 \<Rightarrow> memory \<Rightarrow> memory" where
  "fill_table table frame0 virt0 m =
     fold (\<lambda>i m.
       let frame = frame0 + of_nat i * 4096;
           virt = virt0 + of_nat i * 4096;
           page = frame_into (0 OR PTE_PRESENT OR PTE_WRITABLE) frame
       in store32 m (slot table (PT_INDEX virt)) page) [0..<1024] m"

definition initialize_vmm :: "'a vmm_scheme \<Rightarrow> 'a vmm_scheme option" where
  "initialize_vmm s = do {
     (table, s1) \<leftarrow> allocate_blocks 1 s;
     if table = 0 then Some s1 else do {
       (table2, s2) \<leftarrow> allocate_blocks 1 s1;
       if table2 = 0 then Some s2 else do {
         let m1 = memset (mem s2) table 0 4096;
         let m2 = memset m1 table2 0 4096;
         let m3 = fill_table table2 0 0 m2;
         let m4 = fill_table table 0x100000 0xC0000000 m3;
         (dir, s3) \<leftarrow> allocate_blocks 3 (s2\<lparr>mem := m4\<rparr>);
         if dir = 0 then Some s3 else do {
           let m5 = memset (mem s3) dir 0 4096;
           let entry = slot dir (PD_INDEX 0xC0000000);
           let m6 = SET_FRAME entry table (SET_ATTRIBUTE entry PDE_WRITABLE
                      (SET_ATTRIBUTE entry PDE_PRESENT m5));
           let entry2 = slot dir (PD_INDEX 0);
           let m7 = SET_FRAME entry2 table2 (SET_ATTRIBUTE entry2 PDE_WRITABLE
                      (SET_ATTRIBUTE entry2 PDE_PRESENT m6));
           let (r, s4) = set_pd dir (s3\<lparr>mem := m7\<rparr>);
           Some (s4\<lparr>paging := True\<rparr>)
         }
       }
     }
   }"

section \<open>The paging unit\<close>

definition walk :: "memory \<Rightarrow> u32 \<Rightarrow> u32 \<Rightarrow> u32 option" where
  "walk m dir va =
     (let pde = load32 m (slot dir (PD_INDEX va))
      in if \<not> bit pde 0 then None
         else let pte = load32 m (slot (GET_FRAME pde) (PT_INDEX va))
              in if \<not> bit pte 0 then None
                 else Some (GET_FRAME pte OR (va AND 0xFFF)))"

section \<open>Entries and addresses\<close>

abbreviation page_aligned :: "u32 \<Rightarrow> bool" where
  "page_aligned p \<equiv> 4096 dvd unat p"

lemma low12: "(0xFFF :: u32) = mask 12" by (simp add: mask_eq_exp_minus_1)
lemma low10: "(0x3FF :: u32) = mask 10" by (simp add: mask_eq_exp_minus_1)

lemma GET_FRAME_bits: "bit (GET_FRAME v) n \<longleftrightarrow> 12 \<le> n \<and> bit v n"
  unfolding GET_FRAME_def low12 using bit_imp_le_length [of v n] by (auto simp: bit_simps)

lemma unat_GET_FRAME: "unat (GET_FRAME v) = 4096 * (unat v div 4096)"
proof -
  have "GET_FRAME v = push_bit 12 (drop_bit 12 v)"
    by (rule bit_word_eqI) (auto simp: GET_FRAME_bits bit_simps)
  moreover have "push_bit 12 (drop_bit 12 v) + take_bit 12 v = v" by (rule bits_ident)
  ultimately have "v - take_bit 12 v = GET_FRAME v" by (metis add_diff_cancel_right')
  moreover have "unat (take_bit 12 v) = unat v mod 4096"
    by (simp add: take_bit_eq_mod unat_mod)
  ultimately show ?thesis
    by (metis unat_sub word_le_nat_alt mod_less_eq_dividend minus_mod_eq_mult_div)
qed

lemma GET_FRAME_aligned [simp]: "page_aligned (GET_FRAME v)"
  by (simp add: unat_GET_FRAME)

lemma GET_FRAME_id: "page_aligned p \<Longrightarrow> GET_FRAME p = p"
  by (simp add: word_unat_eq_iff unat_GET_FRAME)

lemma aligned_low_bits: "page_aligned p \<Longrightarrow> n < 12 \<Longrightarrow> \<not> bit p n"
  using GET_FRAME_id [of p] GET_FRAME_bits [of p n] by simp

lemma GET_FRAME_or_low:
  assumes "page_aligned p" and "w AND NOT 0xFFF = 0"
  shows "GET_FRAME (p OR w) = p"
proof -
  have "GET_FRAME (p OR w) = GET_FRAME p OR GET_FRAME w"
    by (rule bit_word_eqI) (auto simp: GET_FRAME_bits bit_simps)
  then show ?thesis using assms by (simp add: GET_FRAME_id) (simp add: GET_FRAME_def)
qed

lemma index_less [simp]: "PD_INDEX a < 1024" "PT_INDEX a < 1024"
proof -
  have "x AND 0x3FF < 1024" for x :: u32
    using word_and_le1 [of x "0x3FF"] by (auto simp: order_le_less_trans)
  then show "PD_INDEX a < 1024" "PT_INDEX a < 1024" by (simp_all add: PD_INDEX_def PT_INDEX_def)
qed

lemma drop22_PD_INDEX: "drop_bit 22 a = PD_INDEX a"
  unfolding PD_INDEX_def low10
  by (rule bit_word_eqI) (auto simp: bit_simps dest: bit_imp_le_length)

lemma shifts_PT_INDEX: "PD_INDEX (push_bit 10 a) = PT_INDEX a"
  unfolding PT_INDEX_def PD_INDEX_def low10
  by (rule bit_word_eqI) (auto simp: bit_simps dest: bit_imp_le_length)

text \<open>The page of an address; an address is in a page when both indices agree.\<close>

lemma same_page_iff: "GET_FRAME a = GET_FRAME b \<longleftrightarrow> PD_INDEX a = PD_INDEX b \<and> PT_INDEX a = PT_INDEX b"
proof -
  have pd: "bit (PD_INDEX a) n \<longleftrightarrow> n < 10 \<and> bit a (22 + n)" for a n
    unfolding PD_INDEX_def low10 by (auto simp: bit_simps)
  have pt: "bit (PT_INDEX a) n \<longleftrightarrow> n < 10 \<and> bit a (12 + n)" for a n
    unfolding PT_INDEX_def low10 by (auto simp: bit_simps)
  show ?thesis
  proof
    assume "GET_FRAME a = GET_FRAME b"
    then have "12 \<le> n \<Longrightarrow> bit a n = bit b n" for n by (metis GET_FRAME_bits)
    then show "PD_INDEX a = PD_INDEX b \<and> PT_INDEX a = PT_INDEX b"
      by (auto intro!: bit_word_eqI simp: pd pt)
  next
    assume eq: "PD_INDEX a = PD_INDEX b \<and> PT_INDEX a = PT_INDEX b"
    have "bit a n = bit b n" if "12 \<le> n" "n < 32" for n
    proof (cases "n < 22")
      case True
      then have "n - 12 < 10" using that by simp
      then show ?thesis using eq that pt [of a "n - 12"] pt [of b "n - 12"] by simp
    next
      case False
      then have "n - 22 < 10" using that by simp
      then show ?thesis using False eq that pd [of a "n - 22"] pd [of b "n - 22"] by simp
    qed
    then show "GET_FRAME a = GET_FRAME b" by (auto intro!: bit_word_eqI simp: GET_FRAME_bits)
  qed
qed

lemma unat_slot: "page_aligned t \<Longrightarrow> i < 1024 \<Longrightarrow> unat (slot t i) = unat t + 4 * unat i"
proof -
  assume t: "page_aligned t" and i: "i < 1024"
  have "unat t \<le> 2 ^ 32 - 4096" using t unat_less_32 [of t] by (auto elim!: dvdE simp del: unat_less_32)
  moreover have "unat i < 1024" using i by (simp add: word_less_nat_alt)
  ultimately show ?thesis by (simp add: slot_def unat_word_ariths)
qed

lemma slot_dvd [simp]: "page_aligned t \<Longrightarrow> i < 1024 \<Longrightarrow> 4 dvd unat (slot t i)"
  using dvd_trans [of 4 4096 "unat t"] by (simp add: unat_slot)

lemma slot_eq_iff [simp]:
  assumes "page_aligned t" "page_aligned u" "i < 1024" "j < 1024"
  shows "slot t i = slot u j \<longleftrightarrow> t = u \<and> i = j"
proof
  assume "slot t i = slot u j"
  then have eq: "unat t + 4 * unat i = unat u + 4 * unat j" using assms by (metis unat_slot)
  have "unat i < 1024" "unat j < 1024" using assms by (simp_all add: word_less_nat_alt)
  moreover have "unat t div 4096 = unat u div 4096"
  proof -
    have "(unat t + 4 * unat i) div 4096 = unat t div 4096" "(unat u + 4 * unat j) div 4096 = unat u div 4096"
      using assms \<open>unat i < 1024\<close> \<open>unat j < 1024\<close> by (auto elim!: dvdE)
    with eq show ?thesis by simp
  qed
  then have "unat t = unat u" using assms(1,2) by (auto elim!: dvdE)
  with eq show "t = u \<and> i = j" by (simp add: word_unat_eq_iff)
qed simp

lemma load32_store32_if:
  "4 dvd unat a \<Longrightarrow> 4 dvd unat b \<Longrightarrow> load32 (store32 m a v) b = (if b = a then v else load32 m b)"
  using apart4_aligned [of a b] by (simp add: mem32.load_store_same mem32.load_store_apart)

lemma load32_SET_FRAME:
  "4 dvd unat a \<Longrightarrow> 4 dvd unat b \<Longrightarrow>
     load32 (SET_FRAME a p m) b = (if b = a then frame_into (load32 m a) p else load32 m b)"
  by (simp add: SET_FRAME_def load32_store32_if)

lemma load32_SET_ATTRIBUTE:
  "4 dvd unat a \<Longrightarrow> 4 dvd unat b \<Longrightarrow>
     load32 (SET_ATTRIBUTE a w m) b = (if b = a then load32 m a OR w else load32 m b)"
  by (simp add: SET_ATTRIBUTE_def load32_store32_if)

lemma load32_CLEAR_ATTRIBUTE:
  "4 dvd unat a \<Longrightarrow> 4 dvd unat b \<Longrightarrow>
     load32 (CLEAR_ATTRIBUTE a w m) b = (if b = a then load32 m a AND NOT w else load32 m b)"
  by (simp add: CLEAR_ATTRIBUTE_def load32_store32_if)

lemmas load32_entries = load32_store32_if load32_SET_FRAME load32_SET_ATTRIBUTE load32_CLEAR_ATTRIBUTE

section \<open>Well-formed tables\<close>

definition pde :: "memory \<Rightarrow> u32 \<Rightarrow> u32 \<Rightarrow> u32" where
  "pde m dir i = load32 m (slot dir i)"

text \<open>The frame that the page with directory index \<open>i\<close> and table index \<open>j\<close> is mapped to.\<close>

definition frame_of :: "memory \<Rightarrow> u32 \<Rightarrow> u32 \<Rightarrow> u32 \<Rightarrow> u32 option" where
  "frame_of m dir i j =
     (let e = load32 m (slot (GET_FRAME (pde m dir i)) j)
      in if bit (pde m dir i) 0 \<and> bit e 0 then Some (GET_FRAME e) else None)"

lemma walk_frame_of:
  "walk m dir va = map_option (\<lambda>f. f OR (va AND 0xFFF)) (frame_of m dir (PD_INDEX va) (PT_INDEX va))"
  by (simp add: walk_def frame_of_def pde_def Let_def)

text \<open>
  The directory is page aligned; an entry is 0 or present; no table is the directory itself
  or shared by two entries.
\<close>

definition tables_wf :: "memory \<Rightarrow> u32 \<Rightarrow> bool" where
  "tables_wf m dir \<longleftrightarrow> page_aligned dir \<and>
     (\<forall>i < 1024. pde m dir i \<noteq> 0 \<longrightarrow>
        bit (pde m dir i) 0 \<and> GET_FRAME (pde m dir i) \<noteq> dir \<and>
        (\<forall>j < 1024. j \<noteq> i \<and> pde m dir j \<noteq> 0 \<longrightarrow> GET_FRAME (pde m dir j) \<noteq> GET_FRAME (pde m dir i)))"

lemma tables_wfD:
  assumes "tables_wf m dir" and "i < 1024" and "pde m dir i \<noteq> 0"
  shows "bit (pde m dir i) 0" and "GET_FRAME (pde m dir i) \<noteq> dir"
    and "j < 1024 \<Longrightarrow> j \<noteq> i \<Longrightarrow> pde m dir j \<noteq> 0 \<Longrightarrow> GET_FRAME (pde m dir j) \<noteq> GET_FRAME (pde m dir i)"
  using assms by (auto simp: tables_wf_def)

lemma frame_of_absent: "pde m dir i = 0 \<Longrightarrow> frame_of m dir i j = None"
  by (simp add: frame_of_def)

text \<open>Writing one entry of a table changes the mapping of one page.\<close>

lemma store_pte:
  fixes v :: u32
  assumes wf: "tables_wf m dir" and i0: "i0 < 1024" "pde m dir i0 \<noteq> 0" and j0: "j0 < 1024"
  defines "m' \<equiv> store32 m (slot (GET_FRAME (pde m dir i0)) j0) v"
  shows "i < 1024 \<Longrightarrow> pde m' dir i = pde m dir i"
    and "tables_wf m' dir"
    and "i < 1024 \<Longrightarrow> j < 1024 \<Longrightarrow> frame_of m' dir i j =
      (if i = i0 \<and> j = j0 then if bit v 0 then Some (GET_FRAME v) else None else frame_of m dir i j)"
proof -
  have dir: "page_aligned dir" using wf by (simp add: tables_wf_def)
  have ne: "GET_FRAME (pde m dir i0) \<noteq> dir" using tables_wfD [OF wf i0] by simp
  show pde': "pde m' dir i = pde m dir i" if "i < 1024" for i
    using that dir ne j0 unfolding m'_def pde_def by (simp add: load32_store32_if eq_commute)
  show "tables_wf m' dir" using wf by (simp add: tables_wf_def pde')
  show "frame_of m' dir i j =
      (if i = i0 \<and> j = j0 then if bit v 0 then Some (GET_FRAME v) else None else frame_of m dir i j)"
    if ij: "i < 1024" "j < 1024"
  proof (cases "pde m dir i = 0")
    case True
    then show ?thesis using i0 ij by (auto simp: frame_of_absent pde')
  next
    case False
    have "GET_FRAME (pde m dir i) = GET_FRAME (pde m dir i0) \<longleftrightarrow> i = i0"
      using tables_wfD(3) [OF wf i0, of i] False ij by auto
    then have "load32 m' (slot (GET_FRAME (pde m dir i)) j) =
        (if i = i0 \<and> j = j0 then v else load32 m (slot (GET_FRAME (pde m dir i)) j))"
      using ij j0 by (auto simp: m'_def load32_store32_if)
    then show ?thesis using tables_wfD(1) [OF wf i0] by (auto simp: frame_of_def pde' ij Let_def)
  qed
qed

text \<open>Installing a fresh table under an empty directory entry.\<close>

lemma add_table:
  assumes wf: "tables_wf m dir" and i0: "i0 < 1024" "pde m dir i0 = 0"
    and T: "GET_FRAME (pde m' dir i0) = T" "bit (pde m' dir i0) 0" "T \<noteq> dir"
    and fresh: "\<And>i. i < 1024 \<Longrightarrow> pde m dir i \<noteq> 0 \<Longrightarrow> GET_FRAME (pde m dir i) \<noteq> T"
    and dir_kept: "\<And>i. i < 1024 \<Longrightarrow> i \<noteq> i0 \<Longrightarrow> pde m' dir i = pde m dir i"
    and kept: "\<And>i j. i < 1024 \<Longrightarrow> j < 1024 \<Longrightarrow> pde m dir i \<noteq> 0 \<Longrightarrow>
        load32 m' (slot (GET_FRAME (pde m dir i)) j) = load32 m (slot (GET_FRAME (pde m dir i)) j)"
  shows "tables_wf m' dir"
    and "i < 1024 \<Longrightarrow> j < 1024 \<Longrightarrow> i \<noteq> i0 \<Longrightarrow> frame_of m' dir i j = frame_of m dir i j"
proof -
  have cases: "pde m' dir i = (if i = i0 then pde m' dir i0 else pde m dir i)" if "i < 1024" for i
    using that dir_kept by simp
  have nz: "pde m' dir i0 \<noteq> 0" using T(2) by auto
  show "tables_wf m' dir"
    unfolding tables_wf_def
  proof (intro conjI allI impI)
    show "page_aligned dir" using wf by (simp add: tables_wf_def)
    fix i assume i: "i < 1024" "pde m' dir i \<noteq> 0"
    show "bit (pde m' dir i) 0" "GET_FRAME (pde m' dir i) \<noteq> dir"
      using cases [OF i(1)] i T tables_wfD [OF wf i(1)] by (auto split: if_splits)
    fix j assume j: "j < 1024" "j \<noteq> i \<and> pde m' dir j \<noteq> 0"
    show "GET_FRAME (pde m' dir j) \<noteq> GET_FRAME (pde m' dir i)"
      using cases [OF i(1)] cases [OF j(1)] i j T(1) fresh [of i] fresh [of j] tables_wfD(3) [OF wf i(1), of j]
      by (auto split: if_splits)
  qed
  show "frame_of m' dir i j = frame_of m dir i j" if "i < 1024" "j < 1024" "i \<noteq> i0"
    using that kept [of i j] by (cases "pde m dir i = 0") (simp_all add: frame_of_def dir_kept)
qed

section \<open>The invariant that ties the tables to the allocator\<close>

text \<open>The directory and every table it holds are blocks in use.\<close>

definition vm_inv :: "u32 \<Rightarrow> 'a vmm_scheme \<Rightarrow> bool" where
  "vm_inv dir s \<longleftrightarrow> alloc_ok s \<and> tables_wf (mem s) dir \<and> block_used s (unat dir div 4096) \<and>
     (\<forall>i < 1024. pde (mem s) dir i \<noteq> 0 \<longrightarrow> block_used s (unat (GET_FRAME (pde (mem s) dir i)) div 4096))"

lemma same_more:
  assumes "pmm.more s' = pmm.more s"
  shows "mem s' = mem s \<and> directory s' = directory s \<and> cr3 s' = cr3 s \<and> paging s' = paging s \<and>
    vmm.more s' = vmm.more s"
  using assms by (cases s; cases s') simp

lemma allocate_blocks_vmm_frame:
  "allocate_blocks n s = Some (p, s') \<Longrightarrow> mem s' = mem s \<and> directory s' = directory s \<and>
     cr3 s' = cr3 s \<and> paging s' = paging s \<and> vmm.more s' = vmm.more s"
  using allocate_blocks_frame same_more by blast

text \<open>A block fresh from the allocator is none of the live tables.\<close>

lemma fresh_table:
  assumes inv: "vm_inv dir s" and al: "allocate_blocks n s = Some (p, s')" and nz: "p \<noteq> 0" "n \<noteq> 0"
  shows "page_aligned p" and "p \<noteq> dir"
    and "i < 1024 \<Longrightarrow> pde (mem s) dir i \<noteq> 0 \<Longrightarrow> GET_FRAME (pde (mem s) dir i) \<noteq> p"
    and "vm_inv dir s'" and "block_used s' (unat p div 4096)"
proof -
  have ok: "alloc_ok s" using inv by (simp add: vm_inv_def)
  show "page_aligned p" using pmm_alloc.alloc_aligned [OF ok al] by (simp add: dvd_eq_mod_eq_0)
  have "0 < unat n" using nz(2) by (simp add: unat_gt_0)
  then have unused: "\<not> block_used s (unat p div 4096)"
    using pmm_alloc.alloc_fresh [OF ok al nz] by simp
  show "p \<noteq> dir" using unused inv by (auto simp: vm_inv_def)
  show "GET_FRAME (pde (mem s) dir i) \<noteq> p" if "i < 1024" "pde (mem s) dir i \<noteq> 0"
    using unused inv that by (auto simp: vm_inv_def)
  show "block_used s' (unat p div 4096)"
    using pmm_alloc.alloc_marks [OF ok al nz] \<open>0 < unat n\<close> by simp
  show "vm_inv dir s'"
    using inv pmm_alloc.alloc_inv [OF ok al] pmm_alloc.alloc_mono [OF ok al nz(2)]
      allocate_blocks_vmm_frame [OF al]
    by (simp add: vm_inv_def)
qed

section \<open>map_address\<close>

lemma map_address_present:
  assumes "pde (mem s) dir (PD_INDEX va) \<noteq> 0"
  shows "map_address dir pa va flags s = Some (True, s\<lparr>mem :=
    store32 (mem s) (slot (GET_FRAME (pde (mem s) dir (PD_INDEX va))) (PT_INDEX va)) (pa OR flags)\<rparr>)"
  using assms unfolding map_address_def
  by (subst vm_run.simps) (simp add: drop22_PD_INDEX shifts_PT_INDEX pde_def GET_FRAME_def Let_def)

lemma create_page_table_present:
  "pde (mem s) dir (PD_INDEX va) \<noteq> 0 \<Longrightarrow> create_page_table dir va flags s = Some (True, s)"
  unfolding create_page_table_def
  by (subst vm_run.simps) (simp add: drop22_PD_INDEX pde_def)

lemma create_page_table_full:
  "pde (mem s) dir (PD_INDEX va) = 0 \<Longrightarrow> allocate_blocks 1 s = Some (0, s1) \<Longrightarrow>
     create_page_table dir va flags s = Some (False, s1)"
  unfolding create_page_table_def
  by (subst vm_run.simps) (simp add: drop22_PD_INDEX pde_def)

lemma create_page_table_new:
  fixes flags :: u32
  assumes "pde (mem s) dir (PD_INDEX va) = 0" and "allocate_blocks 1 s = Some (block, s1)" and "block \<noteq> 0"
  defines "m1 \<equiv> store32 (mem s1) (slot dir (PD_INDEX va)) (block OR flags)"
  shows "create_page_table dir va flags s =
    map_option (\<lambda>(r, s2). (True, s2))
      (map_address dir block block flags
        (s1\<lparr>mem := memset m1 (load32 m1 (slot dir (PD_INDEX va))) 0 4096\<rparr>))"
  using assms(1-3) unfolding create_page_table_def map_address_def m1_def
  by (subst vm_run.simps)
    (simp add: drop22_PD_INDEX pde_def Let_def map_option_case split: option.splits)

lemma map_address_absent:
  assumes "pde (mem s) dir (PD_INDEX va) = 0"
  shows "map_address dir pa va flags s =
    (case create_page_table dir va flags s of
       None \<Rightarrow> None
     | Some (r, s1) \<Rightarrow>
         if \<not> r then Some (False, s1)
         else Some (True, s1\<lparr>mem := store32 (mem s1)
           (slot (GET_FRAME (pde (mem s1) dir (PD_INDEX va))) (PT_INDEX va)) (pa OR flags)\<rparr>))"
  using assms unfolding map_address_def create_page_table_def
  by (subst vm_run.simps)
    (simp add: drop22_PD_INDEX shifts_PT_INDEX pde_def GET_FRAME_def Let_def split: option.splits)

lemma or_flags:
  assumes "page_aligned p" and "f < 4096"
  shows "GET_FRAME (p OR f) = p" and "bit (p OR f) 0 \<longleftrightarrow> bit f 0" and "p OR f = p + f"
proof -
  have f: "\<not> bit f n" if "12 \<le> n" for n
  proof -
    have "f = take_bit 12 f" using assms(2)
      by (simp add: take_bit_eq_mod unat_mod word_less_nat_alt word_unat_eq_iff)
    then show ?thesis using that by (metis bit_take_bit_iff not_le)
  qed
  have f2: "n < 12" if "bit f n" for n using f [of n] that by (meson not_less)
  have low: "\<not> bit p n" if "n < 12" for n using aligned_low_bits [OF assms(1) that] .
  have "f AND NOT 0xFFF = 0"
    unfolding low12 by (intro bit_word_eqI) (auto simp: bit_simps dest: f2)
  then show "GET_FRAME (p OR f) = p" by (rule GET_FRAME_or_low [OF assms(1)])
  show "bit (p OR f) 0 \<longleftrightarrow> bit f 0" using low by (simp add: bit_or_iff)
  have "p AND f = 0" using low by (intro bit_word_eqI) (auto simp: bit_simps dest: f2)
  then show "p OR f = p + f" by (simp add: disjunctive_add_eq_or)
qed

text \<open>
  The code clears the new table through the pointer \<open>block OR flags\<close>, which is \<open>flags\<close> bytes
  above the block: the first \<open>flags\<close> bytes of the table keep their old contents, and the
  first \<open>flags\<close> bytes of the next page are cleared instead.
\<close>

lemma load32_memset_shifted_other:
  assumes p: "page_aligned p" and q: "page_aligned q" "q \<noteq> p" "q \<noteq> p + 4096" and f: "f < 4096" and j: "j < 1024"
  shows "load32 (memset m (p + f) v 4096) (slot q j) = load32 m (slot q j)"
proof (rule load32_cong)
  fix k :: u32 assume k: "k < 4"
  define d where "d = q - p"
  have d: "page_aligned d"
    using p q(1) by (auto simp: d_def unat_sub_if_size word_size intro: dvd_diff_nat dvd_add)
  have "q = p + d" by (simp add: d_def)
  then have "d \<noteq> 0" "d \<noteq> 4096" using q(2,3) by auto
  then have "unat d \<noteq> unat (0 :: u32)" "unat d \<noteq> unat (4096 :: u32)" by (metis unsigned_word_eqI)+
  then have "unat d \<noteq> 0" "unat d \<noteq> 4096" by simp_all
  moreover obtain c where "unat d = 4096 * c" using d by (elim dvdE)
  ultimately have d8: "8192 \<le> unat d" by (cases c) auto
  have dmax: "unat d \<le> 2 ^ 32 - 4096" using d unat_less_32 [of d] by (auto elim!: dvdE simp del: unat_less_32)
  have nat: "unat f < 4096" "unat j < 1024" "unat k < 4"
    using f j k by (simp_all add: word_less_nat_alt)
  have "unat (4 * j + k) = 4 * unat j + unat k" using nat by (simp add: unat_word_ariths)
  then have "unat (d + (4 * j + k)) = unat d + (4 * unat j + unat k)"
    using nat dmax by (simp add: unat_add_no_wrap)
  moreover have "f \<le> d + (4 * j + k)" using calculation nat d8 by (simp add: word_le_nat_alt)
  ultimately have "unat (d + (4 * j + k) - f) = unat d + (4 * unat j + unat k) - unat f"
    by (simp add: unat_sub)
  then have "4096 \<le> d + (4 * j + k) - f" using nat d8 by (simp add: word_le_nat_alt)
  moreover have "slot q j + k - (p + f) = d + (4 * j + k) - f" by (simp add: slot_def d_def)
  ultimately have "\<not> slot q j + k - (p + f) < 4096" by (simp only: not_less)
  then show "memset m (p + f) v 4096 (slot q j + k) = m (slot q j + k)"
    by (simp only: memset_effect if_False)
qed

lemma load32_memset_shifted_cleared:
  assumes f: "unat f \<le> 4 * unat j" and j: "j < 1024"
  shows "load32 (memset m (p + f) 0 4096) (slot p j) = 0"
proof (rule load32_memset_zero)
  fix k :: u32 assume k: "k < 4"
  have nat: "unat j < 1024" "unat k < 4" using j k by (simp_all add: word_less_nat_alt)
  have jk: "unat (4 * j + k) = 4 * unat j + unat k" using nat by (simp add: unat_word_ariths)
  have "unat (4 * j + k - f) = 4 * unat j + unat k - unat f"
    using f jk by (simp add: unat_sub word_le_nat_alt)
  then have "4 * j + k - f < 4096" using nat by (simp add: word_less_nat_alt)
  moreover have "slot p j + k - (p + f) = 4 * j + k - f" by (simp add: slot_def)
  ultimately show "slot p j + k - (p + f) < 4096" by (simp only:)
qed

lemma load32_memset_shifted_stale:
  assumes f: "4 * unat j + 4 \<le> unat f" "f < 4096"
  shows "load32 (memset m (p + f) v 4096) (slot p j) = load32 m (slot p j)"
proof (rule load32_cong)
  fix k :: u32 assume k: "k < 4"
  have nat: "unat k < 4" "unat f < 4096" using k f(2) by (simp_all add: word_less_nat_alt)
  have jk: "unat (4 * j + k) = 4 * unat j + unat k" using nat f by (simp add: unat_word_ariths)
  have "unat (4 * j + k - f) = 2 ^ 32 + (4 * unat j + unat k) - unat f"
    using f jk nat by (simp add: unat_sub_if_size word_size)
  then have "4096 \<le> 4 * j + k - f" using nat by (simp add: word_le_nat_alt)
  moreover have "slot p j + k - (p + f) = 4 * j + k - f" by (simp add: slot_def)
  ultimately have "\<not> slot p j + k - (p + f) < 4096" by (simp only: not_less)
  then show "memset m (p + f) v 4096 (slot p j + k) = m (slot p j + k)"
    by (simp only: memset_effect if_False)
qed

text \<open>
  When a new table can be installed: the block \<open>block\<close> that the allocator hands out is covered
  by a present directory entry (or by the one being filled), and the page after it, whose
  first bytes the code clears by mistake, is not a live table.
\<close>

definition table_room :: "u32 \<Rightarrow> u32 \<Rightarrow> u32 \<Rightarrow> 'a vmm_scheme \<Rightarrow> bool" where
  "table_room dir va block s \<longleftrightarrow>
     (PD_INDEX block = PD_INDEX va \<or> pde (mem s) dir (PD_INDEX block) \<noteq> 0) \<and>
     block + 4096 \<noteq> dir \<and>
     (\<forall>i < 1024. pde (mem s) dir i \<noteq> 0 \<longrightarrow> GET_FRAME (pde (mem s) dir i) \<noteq> block + 4096)"

text \<open>The frame that entry \<open>j\<close> of the new table names when it has been "cleared".\<close>

definition stale_frame :: "memory \<Rightarrow> u32 \<Rightarrow> u32 \<Rightarrow> u32 \<Rightarrow> u32 option" where
  "stale_frame m block flags j =
     (let e = load32 (memset m (block OR flags) 0 4096) (slot block j) in if bit e 0 then Some (GET_FRAME e) else None)"

lemma stale_frame_cases:
  assumes "page_aligned block" and "flags < 4096"
  shows "j < 1024 \<Longrightarrow> unat flags \<le> 4 * unat j \<Longrightarrow> stale_frame m block flags j = None"
    and "4 * unat j + 4 \<le> unat flags \<Longrightarrow> stale_frame m block flags j =
      (if bit (load32 m (slot block j)) 0 then Some (GET_FRAME (load32 m (slot block j))) else None)"
  using load32_memset_shifted_cleared [of flags j m block] load32_memset_shifted_stale [of j flags m block 0]
    or_flags(3) [OF assms] assms(2) by (simp_all add: stale_frame_def)

text \<open>The memory after the directory entry is written and the new table "cleared".\<close>

lemma new_table_memory:
  fixes flags :: u32
  assumes inv: "vm_inv dir s" and absent: "pde (mem s) dir i0 = 0" "i0 < 1024"
    and al: "allocate_blocks 1 s = Some (block, s1)" "block \<noteq> 0"
    and next_page: "block + 4096 \<noteq> dir"
      "\<forall>i < 1024. pde (mem s) dir i \<noteq> 0 \<longrightarrow> GET_FRAME (pde (mem s) dir i) \<noteq> block + 4096"
    and flags: "flags < 4096" "bit flags 0"
  defines "m2 \<equiv> memset (store32 (mem s1) (slot dir i0) (block OR flags)) (block OR flags) 0 4096"
  shows "i < 1024 \<Longrightarrow> pde m2 dir i = (if i = i0 then block OR flags else pde (mem s) dir i)"
    and "tables_wf m2 dir"
    and "i < 1024 \<Longrightarrow> j < 1024 \<Longrightarrow> i \<noteq> i0 \<Longrightarrow> frame_of m2 dir i j = frame_of (mem s) dir i j"
    and "j < 1024 \<Longrightarrow> frame_of m2 dir i0 j = stale_frame (mem s) block flags j"
    and "vm_inv dir (s1\<lparr>mem := m2\<rparr>)"
proof -
  note fresh = fresh_table [OF inv al(1) al(2) one_neq_zero]
  have wf: "tables_wf (mem s) dir" and dir: "page_aligned dir"
    using inv by (simp_all add: vm_inv_def tables_wf_def)
  have mem1: "mem s1 = mem s" using allocate_blocks_vmm_frame [OF al(1)] by simp
  note or = or_flags [OF fresh(1) flags(1)]
  have outside: "load32 m2 (slot q j) = load32 (store32 (mem s) (slot dir i0) (block OR flags)) (slot q j)"
    if "page_aligned q" "q \<noteq> block" "q \<noteq> block + 4096" "j < 1024" for q j
    using that flags(1) fresh(1) unfolding m2_def or(3) mem1
    by (intro load32_memset_shifted_other) auto
  show pde2: "pde m2 dir i = (if i = i0 then block OR flags else pde (mem s) dir i)" if "i < 1024" for i
    using that absent(2) dir fresh(2) next_page(1) outside [of dir i]
    by (auto simp: pde_def load32_store32_if)
  have live: "load32 m2 (slot (GET_FRAME (pde (mem s) dir i)) j) = load32 (mem s) (slot (GET_FRAME (pde (mem s) dir i)) j)"
    if "i < 1024" "j < 1024" "pde (mem s) dir i \<noteq> 0" for i j
    using that absent(2) dir fresh(3) next_page(2) outside [of "GET_FRAME (pde (mem s) dir i)" j]
      tables_wfD(2) [OF wf that(1,3)]
    by (simp add: load32_store32_if)
  have T: "GET_FRAME (pde m2 dir i0) = block" "bit (pde m2 dir i0) 0"
    using absent(2) or flags(2) by (simp_all add: pde2)
  note add = add_table [OF wf absent(2,1) T fresh(2) fresh(3)]
  show wf2: "tables_wf m2 dir" by (rule add) (simp_all add: pde2 live)
  show "frame_of m2 dir i j = frame_of (mem s) dir i j" if "i < 1024" "j < 1024" "i \<noteq> i0" for i j
    by (rule add) (simp_all add: pde2 live that)
  show "frame_of m2 dir i0 j = stale_frame (mem s) block flags j" if "j < 1024" for j
  proof -
    have "store32 (mem s) (slot dir i0) (block OR flags) (slot block j + k) = mem s (slot block j + k)" if "k < 4" for k
    proof (rule store32_other)
      have "apart 4 (slot dir i0) (slot block j)"
        using apart4_aligned [of "slot dir i0" "slot block j"] \<open>j < 1024\<close> absent(2) dir fresh(1,2) by simp
      then show "4 \<le> slot block j + k - slot dir i0" using that by (simp add: apart_def apart_offset)
    qed
    then have "load32 m2 (slot block j) = load32 (memset (mem s) (block OR flags) 0 4096) (slot block j)"
      unfolding m2_def mem1 by (intro load32_cong) (simp add: memset_effect)
    then show ?thesis using T by (simp add: frame_of_def stale_frame_def)
  qed
  have "alloc_ok s1" "block_used s1 (unat dir div 4096)"
    and old: "\<And>i. i < 1024 \<Longrightarrow> pde (mem s) dir i \<noteq> 0 \<Longrightarrow> block_used s1 (unat (GET_FRAME (pde (mem s) dir i)) div 4096)"
    using fresh(4) by (simp_all add: vm_inv_def mem1)
  then show "vm_inv dir (s1\<lparr>mem := m2\<rparr>)"
    using wf2 fresh(5) or(1)
    by (auto simp: vm_inv_def alloc_ok_def block_used_def pde2 split: if_splits)
qed

lemma alloc_mem_update [simp]:
  "alloc_ok (s\<lparr>mem := m\<rparr>) = alloc_ok s" "block_used (s\<lparr>mem := m\<rparr>) = block_used s"
  by (simp_all add: alloc_ok_def block_used_def fun_eq_iff)

lemma store_pte_inv:
  fixes v :: u32
  assumes inv: "vm_inv dir s" and i0: "i0 < 1024" "pde (mem s) dir i0 \<noteq> 0" and j0: "j0 < 1024"
  shows "vm_inv dir (s\<lparr>mem := store32 (mem s) (slot (GET_FRAME (pde (mem s) dir i0)) j0) v\<rparr>)"
proof -
  have wf: "tables_wf (mem s) dir" using inv by (simp add: vm_inv_def)
  show ?thesis using inv store_pte(1,2) [OF wf i0 j0] by (simp add: vm_inv_def)
qed

text \<open>
  The common shape of the results below: the page of \<open>va\<close> is mapped to \<open>fr\<close>, and every
  page outside \<open>except\<close> keeps its mapping.
\<close>

definition maps_page :: "u32 \<Rightarrow> memory \<Rightarrow> u32 \<Rightarrow> u32 option \<Rightarrow> memory \<Rightarrow> bool" where
  "maps_page dir m va fr m' \<longleftrightarrow>
     frame_of m' dir (PD_INDEX va) (PT_INDEX va) = fr \<and>
     (\<forall>i < 1024. \<forall>j < 1024. (i, j) \<noteq> (PD_INDEX va, PT_INDEX va) \<longrightarrow> frame_of m' dir i j = frame_of m dir i j)"

lemma maps_page_walk:
  assumes "maps_page dir m va fr m'"
  shows "walk m' dir b =
    (if GET_FRAME b = GET_FRAME va then map_option (\<lambda>f. f OR (b AND 0xFFF)) fr else walk m dir b)"
proof (cases "GET_FRAME b = GET_FRAME va")
  case True
  then show ?thesis using assms by (simp add: walk_frame_of maps_page_def same_page_iff)
next
  case False
  then have "(PD_INDEX b, PT_INDEX b) \<noteq> (PD_INDEX va, PT_INDEX va)" by (simp add: same_page_iff)
  then show ?thesis using assms False by (auto simp: walk_frame_of maps_page_def)
qed

lemma store_pte_maps_page:
  fixes v :: u32
  assumes "tables_wf m dir" and "pde m dir (PD_INDEX va) \<noteq> 0"
  shows "maps_page dir m va (if bit v 0 then Some (GET_FRAME v) else None)
    (store32 m (slot (GET_FRAME (pde m dir (PD_INDEX va))) (PT_INDEX va)) v)"
  using store_pte(3) [OF assms(1) _ assms(2), of "PT_INDEX va"] by (auto simp: maps_page_def)

lemma map_address_existing:
  assumes inv: "vm_inv dir s" and present: "pde (mem s) dir (PD_INDEX va) \<noteq> 0"
    and pa: "page_aligned pa" and flags: "flags < 4096" "bit flags 0"
  shows "\<exists>s'. map_address dir pa va flags s = Some (True, s') \<and> vm_inv dir s' \<and>
    (\<forall>b. walk (mem s') dir b =
      (if GET_FRAME b = GET_FRAME va then Some (pa OR (b AND 0xFFF)) else walk (mem s) dir b))"
proof -
  let ?m = "store32 (mem s) (slot (GET_FRAME (pde (mem s) dir (PD_INDEX va))) (PT_INDEX va)) (pa OR flags)"
  have "maps_page dir (mem s) va (Some pa) ?m"
    using store_pte_maps_page [of "mem s" dir va "pa OR flags"] inv present or_flags [OF pa flags(1)] flags(2)
    by (simp add: vm_inv_def)
  then show ?thesis
    using map_address_present [OF present] store_pte_inv [OF inv _ present]
    by (simp add: maps_page_walk)
qed

text \<open>
  With a page table in place, \<open>map_address\<close> succeeds, maps the page of \<open>va\<close> to the frame
  \<open>pa\<close> for the paging unit, changes the translation of no other address, and keeps the
  invariant of the tables.
\<close>

lemma map_address_existing_table:
  assumes inv: "vm_inv dir s" and present: "pde (mem s) dir (PD_INDEX va) \<noteq> 0"
    and pa: "page_aligned pa" and flags: "flags < 4096" "bit flags 0"
  shows "\<exists>s'. map_address dir pa va flags s = Some (True, s') \<and> vm_inv dir s' \<and>
    (\<forall>b. walk (mem s') dir b =
      (if GET_FRAME b = GET_FRAME va then Some (pa OR (b AND 0xFFF)) else walk (mem s) dir b))"
  by (rule map_address_existing [OF assms])

lemma create_page_table_effect:
  assumes inv: "vm_inv dir s" and absent: "pde (mem s) dir (PD_INDEX va) = 0"
    and al: "allocate_blocks 1 s = Some (block, s1)" "block \<noteq> 0"
    and room: "table_room dir va block s" and flags: "flags < 4096" "bit flags 0"
  shows "\<exists>s2. create_page_table dir va flags s = Some (True, s2) \<and> vm_inv dir s2 \<and>
    pde (mem s2) dir (PD_INDEX va) = block OR flags \<and>
    frame_of (mem s2) dir (PD_INDEX block) (PT_INDEX block) = Some block \<and>
    (\<forall>i < 1024. \<forall>j < 1024. (i, j) \<noteq> (PD_INDEX block, PT_INDEX block) \<longrightarrow>
      (i \<noteq> PD_INDEX va \<longrightarrow> frame_of (mem s2) dir i j = frame_of (mem s) dir i j) \<and>
      (i = PD_INDEX va \<longrightarrow> frame_of (mem s2) dir i j = stale_frame (mem s) block flags j))"
proof -
  have next_page: "block + 4096 \<noteq> dir"
    "\<forall>i < 1024. pde (mem s) dir i \<noteq> 0 \<longrightarrow> GET_FRAME (pde (mem s) dir i) \<noteq> block + 4096"
    using room by (simp_all add: table_room_def)
  note mem2 = new_table_memory [OF inv absent _ al next_page flags, simplified]
  have dir: "page_aligned dir" using inv by (simp add: vm_inv_def tables_wf_def)
  have block: "page_aligned block" by (rule fresh_table [OF inv al(1) al(2) one_neq_zero])
  note or = or_flags [OF block flags(1)]
  define m2 where "m2 = memset (store32 (mem s1) (slot dir (PD_INDEX va)) (block OR flags)) (block OR flags) 0 4096"
  let ?t = "s1\<lparr>mem := m2\<rparr>"
  have "block OR flags \<noteq> 0" using or(2) flags(2) by auto
  then have reach: "pde (mem ?t) dir (PD_INDEX block) \<noteq> 0"
    using room mem2(1) by (auto simp: m2_def table_room_def)
  have inv2: "vm_inv dir ?t" using mem2(5) by (simp add: m2_def)
  let ?m3 = "store32 m2 (slot (GET_FRAME (pde m2 dir (PD_INDEX block))) (PT_INDEX block)) (block OR flags)"
  have call: "create_page_table dir va flags s = Some (True, ?t\<lparr>mem := ?m3\<rparr>)"
    using create_page_table_new [OF absent al, of flags] map_address_present [OF reach, of block flags]
      dir flags by (simp add: m2_def load32_store32_if)
  have "maps_page dir m2 block (Some block) ?m3"
    using store_pte_maps_page [of m2 dir block "block OR flags"] inv2 reach or flags(2)
    by (simp add: vm_inv_def)
  moreover have "vm_inv dir (?t\<lparr>mem := ?m3\<rparr>)" using store_pte_inv [OF inv2 _ reach, of "PT_INDEX block"] by simp
  moreover have "pde ?m3 dir (PD_INDEX va) = block OR flags"
    using store_pte(1) [of m2 dir "PD_INDEX block" "PT_INDEX block" "PD_INDEX va"] inv2 reach mem2(1)
    by (simp add: vm_inv_def m2_def)
  ultimately show ?thesis using call mem2(3,4) by (auto simp: maps_page_def m2_def)
qed

lemma map_address_new:
  assumes inv: "vm_inv dir s" and absent: "pde (mem s) dir (PD_INDEX va) = 0"
    and al: "allocate_blocks 1 s = Some (block, s1)" "block \<noteq> 0"
    and room: "table_room dir va block s" and pa: "page_aligned pa"
    and flags: "flags < 4096" "bit flags 0"
  shows "\<exists>s'. map_address dir pa va flags s = Some (True, s') \<and> vm_inv dir s' \<and>
    (\<forall>b. walk (mem s') dir b =
      (if GET_FRAME b = GET_FRAME va then Some (pa OR (b AND 0xFFF))
       else if GET_FRAME b = block then Some (block OR (b AND 0xFFF))
       else if PD_INDEX b = PD_INDEX va then
         map_option (\<lambda>f. f OR (b AND 0xFFF)) (stale_frame (mem s) block flags (PT_INDEX b))
       else walk (mem s) dir b))"
proof -
  obtain s2 where s2: "create_page_table dir va flags s = Some (True, s2)" "vm_inv dir s2"
      "pde (mem s2) dir (PD_INDEX va) = block OR flags"
      "frame_of (mem s2) dir (PD_INDEX block) (PT_INDEX block) = Some block"
    and frames: "\<forall>i < 1024. \<forall>j < 1024. (i, j) \<noteq> (PD_INDEX block, PT_INDEX block) \<longrightarrow>
      (i \<noteq> PD_INDEX va \<longrightarrow> frame_of (mem s2) dir i j = frame_of (mem s) dir i j) \<and>
      (i = PD_INDEX va \<longrightarrow> frame_of (mem s2) dir i j = stale_frame (mem s) block flags j)"
    using create_page_table_effect [OF inv absent al room flags] by blast
  have block: "page_aligned block" by (rule fresh_table [OF inv al(1) al(2) one_neq_zero])
  have nz: "pde (mem s2) dir (PD_INDEX va) \<noteq> 0" using s2(3) or_flags(2) [OF block flags(1)] flags(2) by auto
  let ?m = "store32 (mem s2) (slot (GET_FRAME (pde (mem s2) dir (PD_INDEX va))) (PT_INDEX va)) (pa OR flags)"
  have call: "map_address dir pa va flags s = Some (True, s2\<lparr>mem := ?m\<rparr>)"
    using map_address_absent [OF absent, of pa flags] s2(1) by simp
  have maps: "maps_page dir (mem s2) va (Some pa) ?m"
    using store_pte_maps_page [of "mem s2" dir va "pa OR flags"] s2(2) nz or_flags [OF pa flags(1)] flags(2)
    by (simp add: vm_inv_def)
  have "walk (mem s2) dir b =
      (if GET_FRAME b = block then Some (block OR (b AND 0xFFF))
       else if PD_INDEX b = PD_INDEX va then
         map_option (\<lambda>f. f OR (b AND 0xFFF)) (stale_frame (mem s) block flags (PT_INDEX b))
       else walk (mem s) dir b)" for b
  proof (cases "GET_FRAME b = block")
    case True
    then have "PD_INDEX b = PD_INDEX block \<and> PT_INDEX b = PT_INDEX block"
      using same_page_iff [of b block] GET_FRAME_id [OF block] by simp
    then show ?thesis using True s2(4) by (simp add: walk_frame_of)
  next
    case False
    then have "(PD_INDEX b, PT_INDEX b) \<noteq> (PD_INDEX block, PT_INDEX block)"
      using same_page_iff [of b block] GET_FRAME_id [OF block] by auto
    then show ?thesis
      using frames [rule_format, of "PD_INDEX b" "PT_INDEX b"] False by (simp add: walk_frame_of)
  qed
  then show ?thesis using call maps store_pte_inv [OF s2(2) _ nz, of "PT_INDEX va"]
    by (simp add: maps_page_walk)
qed

text \<open>
  C5. When \<open>map_address\<close> has to create the page table, it keeps the invariant and the
  translation of every address is known afterwards: the page of \<open>va\<close> is mapped to \<open>pa\<close>, the block
  of the new table to itself, and the other pages outside the table's 4 MB as before. Inside
  them a page is unmapped if its entry lies at least \<open>flags\<close> bytes into the table; the entries in
  the first \<open>flags\<close> bytes were not cleared, and map whatever frame the block's old contents name.
\<close>

theorem map_address_new_table:
  assumes inv: "vm_inv dir s" and absent: "pde (mem s) dir (PD_INDEX va) = 0"
    and al: "allocate_blocks 1 s = Some (block, s1)" "block \<noteq> 0"
    and room: "table_room dir va block s" and pa: "page_aligned pa"
    and flags: "flags < 4096" "bit flags 0"
  shows "(\<exists>s'. map_address dir pa va flags s = Some (True, s') \<and> vm_inv dir s' \<and>
    (\<forall>b. walk (mem s') dir b =
      (if GET_FRAME b = GET_FRAME va then Some (pa OR (b AND 0xFFF))
       else if GET_FRAME b = block then Some (block OR (b AND 0xFFF))
       else if PD_INDEX b = PD_INDEX va then
         map_option (\<lambda>f. f OR (b AND 0xFFF)) (stale_frame (mem s) block flags (PT_INDEX b))
       else walk (mem s) dir b))) \<and>
    (\<forall>j < 1024. unat flags \<le> 4 * unat j \<longrightarrow> stale_frame (mem s) block flags j = None) \<and>
    (\<forall>j. 4 * unat j + 4 \<le> unat flags \<longrightarrow> stale_frame (mem s) block flags j =
      (if bit (load32 (mem s) (slot block j)) 0 then Some (GET_FRAME (load32 (mem s) (slot block j))) else None))"
  using map_address_new [OF assms] stale_frame_cases [OF fresh_table(1) [OF inv al(1) al(2) one_neq_zero] flags(1)]
  by simp

text \<open>
  With flags of at least 4, the first page of the 4 MB may be mapped although nothing mapped it.
\<close>

lemma create_page_table_stale_entry:
  assumes inv: "vm_inv dir s" and absent: "pde (mem s) dir (PD_INDEX va) = 0"
    and al: "allocate_blocks 1 s = Some (block, s1)" "block \<noteq> 0"
    and room: "table_room dir va block s" and flags: "flags < 4096" "bit flags 0" "4 \<le> flags"
    and other: "(PD_INDEX block, PT_INDEX block) \<noteq> (PD_INDEX va, 0)"
    and stale: "bit (load32 (mem s) (slot block 0)) 0"
  shows "\<exists>s2. create_page_table dir va flags s = Some (True, s2) \<and>
    frame_of (mem s2) dir (PD_INDEX va) 0 = Some (GET_FRAME (load32 (mem s) (slot block 0)))"
proof -
  have "page_aligned block" by (rule fresh_table [OF inv al(1) al(2) one_neq_zero])
  from stale_frame_cases(2) [OF this flags(1), of 0 "mem s"]
  have "stale_frame (mem s) block flags 0 = Some (GET_FRAME (load32 (mem s) (slot block 0)))"
    using stale flags(3) by (simp add: word_le_nat_alt)
  moreover have "(PD_INDEX va, 0) \<noteq> (PD_INDEX block, PT_INDEX block)" using other by metis
  ultimately show ?thesis
    using create_page_table_effect [OF inv absent al room flags(1,2)] index_less(1) [of va] by fastforce
qed

section \<open>Pages mapped and unmapped one at a time\<close>

lemma frame_mask: "(0x7FFFF000 :: u32) = push_bit 12 (mask 19)"
  by (simp add: mask_eq_exp_minus_1)

lemma bit_frame_mask: "bit (0x7FFFF000 :: u32) n \<longleftrightarrow> 12 \<le> n \<and> n < 31"
  unfolding frame_mask by (auto simp only: bit_push_bit_iff bit_mask_iff possible_bit_word) auto

lemma bit_top: "bit (0x80000000 :: u32) n \<longleftrightarrow> n = 31"
proof -
  have "(0x80000000 :: u32) = push_bit 31 1" by simp
  then show ?thesis by (auto simp only: bit_push_bit_iff bit_1_iff possible_bit_word) auto
qed

text \<open>\<open>SET_FRAME\<close> keeps bit 31 of the entry: its mask is 0x7FFFF000, not 0xFFFFF000.\<close>

lemma GET_FRAME_frame_into: "GET_FRAME (frame_into w pa) = (w AND 0x80000000) OR GET_FRAME pa"
proof -
  have "GET_FRAME ((w AND NOT k) OR pa) = (w AND t) OR GET_FRAME pa"
    if "\<And>n. bit k n \<longleftrightarrow> 12 \<le> n \<and> n < 31" "\<And>n. bit t n \<longleftrightarrow> n = 31" for k t :: u32
    by (rule bit_word_eqI) (auto simp: GET_FRAME_bits bit_and_iff bit_or_iff bit_not_iff that)
  from this [of "0x7FFFF000" "0x80000000"] show ?thesis
    unfolding frame_into_def using bit_frame_mask bit_top by blast
qed

lemma bit0_frame_into: "page_aligned pa \<Longrightarrow> bit (frame_into w pa) 0 \<longleftrightarrow> bit w 0"
  by (auto simp: frame_into_def bit_and_iff bit_or_iff bit_not_iff bit_frame_mask dest: aligned_low_bits [of _ 0])

text \<open>The value \<open>map_page\<close> leaves in an entry.\<close>

definition page_value :: "u32 \<Rightarrow> u32 \<Rightarrow> u32" where
  "page_value old pa = frame_into (old OR PTE_PRESENT OR PTE_WRITABLE OR PTE_USER) pa"

lemma page_value_bits:
  assumes "page_aligned pa"
  shows "bit (page_value old pa) 0" and "GET_FRAME (page_value old pa) = (old AND 0x80000000) OR pa"
proof -
  let ?w = "old OR PTE_PRESENT OR PTE_WRITABLE OR PTE_USER"
  show "bit (page_value old pa) 0"
    using bit0_frame_into [OF assms, of ?w] by (simp add: page_value_def PTE_PRESENT_def bit_or_iff)
  have "PTE_PRESENT AND 0x80000000 = 0" "PTE_WRITABLE AND 0x80000000 = 0" "PTE_USER AND 0x80000000 = 0"
    by (simp_all add: PTE_PRESENT_def PTE_WRITABLE_def PTE_USER_def)
  then have "?w AND 0x80000000 = old AND 0x80000000"
    by (simp add: and.commute [of _ "0x80000000"] bit.conj_disj_distrib)
  then show "GET_FRAME (page_value old pa) = (old AND 0x80000000) OR pa"
    by (simp add: page_value_def GET_FRAME_frame_into GET_FRAME_id [OF assms])
qed

lemma write_page_store:
  assumes "tables_wf (mem s) dir"
  shows "write_page (slot dir (PD_INDEX va)) pa va s = s\<lparr>mem :=
    (let page = slot (GET_FRAME (pde (mem s) dir (PD_INDEX va))) (PT_INDEX va)
     in store32 (mem s) page (page_value (load32 (mem s) page) pa))\<rparr>"
  by (simp add: write_page_def pde_def Let_def SET_FRAME_def SET_ATTRIBUTE_def mem32.load_store_same
      page_value_def or.assoc)

lemma map_page_present:
  assumes "tables_wf (mem s) (directory s)" and "pde (mem s) (directory s) (PD_INDEX va) \<noteq> 0"
  shows "map_page pa va s = Some (True, write_page (slot (directory s) (PD_INDEX va)) pa va s)"
proof -
  have "bit (pde (mem s) (directory s) (PD_INDEX va)) 0" using assms tables_wfD(1) by simp
  then have "pde (mem s) (directory s) (PD_INDEX va) AND 1 = 1"
    by (simp add: and_one_eq mod_2_eq_odd flip: bit_0)
  then show ?thesis by (subst map_page.simps) (simp add: pde_def PTE_PRESENT_def Let_def)
qed

text \<open>
  With a page table in place, \<open>map_page\<close> succeeds and changes the translation of one
  page only; that page is mapped to \<open>pa\<close>, but for bit 31, which it inherits from the entry's
  old value.
\<close>

lemma map_page_existing_table:
  assumes inv: "vm_inv (directory s) s" and present: "pde (mem s) (directory s) (PD_INDEX va) \<noteq> 0"
    and pa: "page_aligned pa"
    and old: "old = load32 (mem s) (slot (GET_FRAME (pde (mem s) (directory s) (PD_INDEX va))) (PT_INDEX va))"
  shows "\<exists>s'. map_page pa va s = Some (True, s') \<and> vm_inv (directory s) s' \<and>
    (\<forall>b. walk (mem s') (directory s) b =
      (if GET_FRAME b = GET_FRAME va then Some ((old AND 0x80000000) OR pa OR (b AND 0xFFF))
       else walk (mem s) (directory s) b))"
proof -
  have wf: "tables_wf (mem s) (directory s)" using inv by (simp add: vm_inv_def)
  let ?m = "store32 (mem s) (slot (GET_FRAME (pde (mem s) (directory s) (PD_INDEX va))) (PT_INDEX va)) (page_value old pa)"
  have "maps_page (directory s) (mem s) va (Some ((old AND 0x80000000) OR pa)) ?m"
    using store_pte_maps_page [OF wf present, of "page_value old pa"] page_value_bits [OF pa] by simp
  then show ?thesis
    using map_page_present [OF wf present] store_pte_inv [OF inv _ present]
    by (simp add: write_page_store [OF wf] Let_def old maps_page_walk or.assoc)
qed

text \<open>
  \<open>unmap_page\<close> removes the translation of one page, changes no other, and keeps the
  invariant.
\<close>

lemma unmap_page_unmaps:
  assumes inv: "vm_inv (directory s) s" and present: "pde (mem s) (directory s) (PD_INDEX va) \<noteq> 0"
  shows "vm_inv (directory s) (unmap_page va s) \<and>
    (\<forall>b. walk (mem (unmap_page va s)) (directory s) b =
      (if GET_FRAME b = GET_FRAME va then None else walk (mem s) (directory s) b))"
proof -
  have wf: "tables_wf (mem s) (directory s)" using inv by (simp add: vm_inv_def)
  let ?p = "slot (GET_FRAME (pde (mem s) (directory s) (PD_INDEX va))) (PT_INDEX va)"
  let ?v = "frame_into (load32 (mem s) ?p) 0 AND NOT PTE_PRESENT"
  have u: "unmap_page va s = s\<lparr>mem := store32 (mem s) ?p ?v\<rparr>"
    by (simp add: unmap_page_def get_page_def Let_def pde_def SET_FRAME_def CLEAR_ATTRIBUTE_def
        mem32.load_store_same)
  have "\<not> bit ?v 0" by (simp add: bit_simps PTE_PRESENT_def)
  then have "maps_page (directory s) (mem s) va None (store32 (mem s) ?p ?v)"
    using store_pte_maps_page [OF wf present, of ?v] by simp
  then show ?thesis
    using store_pte_inv [OF inv _ present, of "PT_INDEX va" ?v] by (simp add: u maps_page_walk)
qed

lemma unmap_page_fields:
  "memory_map (unmap_page va s) = memory_map s" "max_blocks (unmap_page va s) = max_blocks s"
  "used_blocks (unmap_page va s) = used_blocks s" "directory (unmap_page va s) = directory s"
  "cr3 (unmap_page va s) = cr3 s" "paging (unmap_page va s) = paging s"
  by (simp_all add: unmap_page_def Let_def)

lemma unmap_page_pde:
  assumes "tables_wf (mem s) (directory s)" and "pde (mem s) (directory s) (PD_INDEX va) \<noteq> 0" and "i < 1024"
  shows "pde (mem (unmap_page va s)) (directory s) i = pde (mem s) (directory s) i"
  using store_pte(1) [OF assms(1) _ assms(2) _ assms(3)]
  by (simp add: unmap_page_def get_page_def Let_def pde_def SET_FRAME_def CLEAR_ATTRIBUTE_def mem32.load_store_same)

text \<open>
  \<open>map_page\<close> clears its new tables through the right address. Installing a table that is
  none of the live ones gives its 4 MB an empty mapping and leaves the rest alone.
\<close>

lemma page_distance:
  assumes "page_aligned p" and "page_aligned q" and "q \<noteq> p" and "j < 1024"
  shows "4096 \<le> slot q j - p"
proof -
  define d where "d = q - p"
  have d: "page_aligned d"
    using assms(1,2) by (auto simp: d_def unat_sub_if_size word_size intro: dvd_diff_nat dvd_add)
  have "0 < unat d" using assms(3) by (simp add: d_def unat_gt_0)
  then have "4096 \<le> unat d" using d by (simp add: dvd_imp_le)
  then have "4096 \<le> unat (slot d j)" using unat_slot [OF d assms(4)] by simp
  moreover have "slot q j - p = slot d j" by (simp add: slot_def d_def)
  ultimately show ?thesis by (simp add: word_le_nat_alt)
qed

lemma load32_memset_page:
  assumes "page_aligned p" and "page_aligned q" and "j < 1024"
  shows "load32 (memset m p 0 4096) (slot q j) = (if q = p then 0 else load32 m (slot q j))"
proof (cases "q = p")
  case True
  then show ?thesis using load32_memset_shifted_cleared [of 0 j m p] assms(3) by simp
next
  case False
  have "4 dvd unat p" using assms(1) dvd_trans [of 4 4096 "unat p"] by simp
  then show ?thesis
    using False page_distance [OF assms(1,2) False assms(3)] assms
    by (simp add: load32_memset_outside)
qed

lemma install_table_memory:
  assumes inv: "vm_inv dir s" and absent: "pde (mem s) dir i0 = 0" "i0 < 1024"
    and T: "page_aligned T" "T \<noteq> dir" "block_used s (unat T div 4096)"
    and fresh: "\<And>i. i < 1024 \<Longrightarrow> pde (mem s) dir i \<noteq> 0 \<Longrightarrow> GET_FRAME (pde (mem s) dir i) \<noteq> T"
  defines "s' \<equiv> install_table (slot dir i0) T s"
  shows "\<exists>m'. s' = s\<lparr>mem := m'\<rparr>"
    and "i < 1024 \<Longrightarrow> pde (mem s') dir i = (if i = i0 then page_value 0 T else pde (mem s) dir i)"
    and "i < 1024 \<Longrightarrow> j < 1024 \<Longrightarrow> frame_of (mem s') dir i j = (if i = i0 then None else frame_of (mem s) dir i j)"
    and "vm_inv dir s'"
    and "j < 1024 \<Longrightarrow> load32 (mem s') (slot T j) = 0"
proof -
  have wf: "tables_wf (mem s) dir" and dir: "page_aligned dir"
    using inv by (simp_all add: vm_inv_def tables_wf_def)
  have zero: "load32 (mem s) (slot dir i0) = 0" using absent(1) by (simp add: pde_def)
  have s': "s' = s\<lparr>mem := store32 (memset (mem s) T 0 4096) (slot dir i0) (page_value 0 T)\<rparr>"
    using load32_memset_page [OF T(1) dir absent(2), of "mem s"] T(2) zero
    by (simp add: s'_def install_table_def Let_def SET_FRAME_def SET_ATTRIBUTE_def mem32.load_store_same
        page_value_def or.assoc PTE_PRESENT_def PTE_WRITABLE_def PTE_USER_def
        PDE_PRESENT_def PDE_WRITABLE_def PDE_USER_def)
  then show "\<exists>m'. s' = s\<lparr>mem := m'\<rparr>" by blast
  have pde': "pde (mem s') dir i = (if i = i0 then page_value 0 T else pde (mem s) dir i)" if "i < 1024" for i
    using that absent(2) dir T load32_memset_page [OF T(1) dir that, of "mem s"]
    by (simp add: s' pde_def load32_store32_if)
  then show "i < 1024 \<Longrightarrow> pde (mem s') dir i = (if i = i0 then page_value 0 T else pde (mem s) dir i)" .
  have live: "load32 (mem s') (slot (GET_FRAME (pde (mem s) dir i)) j) = load32 (mem s) (slot (GET_FRAME (pde (mem s) dir i)) j)"
    if "i < 1024" "j < 1024" "pde (mem s) dir i \<noteq> 0" for i j
    using that absent(2) dir T fresh [OF that(1,3)] tables_wfD(2) [OF wf that(1,3)]
    by (simp add: s' load32_store32_if load32_memset_page)
  have new: "load32 (mem s') (slot T j) = 0" if "j < 1024" for j
    using that absent(2) dir T load32_memset_page [OF T(1) T(1) that, of "mem s"]
    by (simp add: s' load32_store32_if)
  then show "j < 1024 \<Longrightarrow> load32 (mem s') (slot T j) = 0" .
  have P: "GET_FRAME (pde (mem s') dir i0) = T" "bit (pde (mem s') dir i0) 0"
    using absent(2) page_value_bits [OF T(1), of 0] by (simp_all add: pde')
  note add = add_table [OF wf absent(2,1) P T(2) fresh]
  have wf': "tables_wf (mem s') dir" by (rule add) (simp_all add: pde' live)
  show "frame_of (mem s') dir i j = (if i = i0 then None else frame_of (mem s) dir i j)"
    if "i < 1024" "j < 1024" for i j
  proof (cases "i = i0")
    case True
    then show ?thesis using P new that by (simp add: frame_of_def Let_def)
  next
    case False
    have "frame_of (mem s') dir i j = frame_of (mem s) dir i j"
      by (rule add) (simp_all add: pde' live that False)
    then show ?thesis using False by simp
  qed
  have "alloc_ok s'" "block_used s' = block_used s" using inv by (simp_all add: s' vm_inv_def)
  then show "vm_inv dir s'"
    using inv wf' P(1) T(3) absent(2) unfolding vm_inv_def by (simp add: pde')
qed

text \<open>
  When \<open>map_page\<close> has to create the page table, and the block it gets lies under a
  directory entry that is present, the page of \<open>va\<close> is mapped to exactly \<open>pa\<close>, the other
  pages of its 4 MB are unmapped, the page of the new table is mapped to the table (but for
  bit 31 of its old entry), and no other translation changes.
\<close>

lemma map_page_new_table:
  assumes inv: "vm_inv (directory s) s" and absent: "pde (mem s) (directory s) (PD_INDEX va) = 0"
    and al: "allocate_blocks 1 s = Some (T, s1)" "T \<noteq> 0"
    and reach: "pde (mem s) (directory s) (PD_INDEX T) \<noteq> 0" and pa: "page_aligned pa"
  shows "\<exists>s' old. map_page pa va s = Some (True, s') \<and> vm_inv (directory s) s' \<and>
    (\<forall>b. walk (mem s') (directory s) b =
      (if GET_FRAME b = GET_FRAME va then Some (pa OR (b AND 0xFFF))
       else if PD_INDEX b = PD_INDEX va then None
       else if GET_FRAME b = T then Some ((old AND 0x80000000) OR T OR (b AND 0xFFF))
       else walk (mem s) (directory s) b))"
proof -
  define dir where "dir = directory s"
  note inv = inv [folded dir_def] and absent = absent [folded dir_def] and reach = reach [folded dir_def]
  note fresh = fresh_table [OF inv al(1) al(2) one_neq_zero]
  have s1: "mem s1 = mem s" "directory s1 = dir"
    using allocate_blocks_vmm_frame [OF al(1)] by (simp_all add: dir_def)
  have wf: "tables_wf (mem s) dir" using inv by (simp add: vm_inv_def)
  let ?p = "slot (GET_FRAME (pde (mem s) dir (PD_INDEX T))) (PT_INDEX T)"
  define old where "old = load32 (mem s) ?p"
  define m1 where "m1 = store32 (mem s) ?p (page_value old T)"
  let ?s2 = "s1\<lparr>mem := m1\<rparr>"
  have self: "map_page T T s1 = Some (True, ?s2)"
    using map_page_present [of s1 T T] write_page_store [of s1 dir T T] wf reach
    by (simp add: s1 m1_def old_def Let_def)
  have maps1: "maps_page dir (mem s) T (Some ((old AND 0x80000000) OR T)) m1"
    using store_pte_maps_page [OF wf reach, of "page_value old T"] page_value_bits [OF fresh(1)]
    by (simp add: m1_def)
  have inv2: "vm_inv dir ?s2"
    using store_pte_inv [OF fresh(4), of "PD_INDEX T" "PT_INDEX T"] reach by (simp add: s1 m1_def)
  have pde1: "i < 1024 \<Longrightarrow> pde m1 dir i = pde (mem s) dir i" for i
    using store_pte(1) [OF wf _ reach] by (simp add: m1_def)
  define s3 where "s3 = install_table (slot dir (PD_INDEX va)) T ?s2"
  have used2: "block_used ?s2 (unat T div 4096)" using fresh(5) by simp
  note ins = install_table_memory [OF inv2 _ _ fresh(1,2) used2, of "PD_INDEX va", simplified,
      OF pde1 [OF index_less(1), THEN trans, OF absent], folded s3_def]
  have fresh1: "\<And>i. i < 1024 \<Longrightarrow> pde m1 dir i \<noteq> 0 \<Longrightarrow> GET_FRAME (pde m1 dir i) \<noteq> T"
    using fresh(3) by (simp add: pde1)
  note ins = ins [OF fresh1]
  have pde3: "pde (mem s3) dir (PD_INDEX va) = page_value 0 T" using ins(2) by simp
  have T3: "GET_FRAME (pde (mem s3) dir (PD_INDEX va)) = T" "pde (mem s3) dir (PD_INDEX va) \<noteq> 0"
    using page_value_bits [OF fresh(1), of 0] by (auto simp: pde3)
  have wf3: "tables_wf (mem s3) dir" using ins(4) by (simp add: vm_inv_def)
  let ?m4 = "store32 (mem s3) (slot T (PT_INDEX va)) (page_value 0 pa)"
  have z: "load32 (mem s3) (slot T (PT_INDEX va)) = 0"
    using ins(5) [of "PT_INDEX va"] by simp
  have call: "map_page pa va s = Some (True, s3\<lparr>mem := ?m4\<rparr>)"
    using absent al self write_page_store [OF wf3, of va pa] z T3(1)
    by (subst map_page.simps) (simp add: pde_def dir_def [symmetric] PTE_PRESENT_def s3_def Let_def)
  have maps3: "maps_page dir (mem s3) va (Some pa) ?m4"
    using store_pte_maps_page [OF wf3 T3(2), of "page_value 0 pa"] page_value_bits [OF pa, of 0]
    by (simp add: T3(1))
  have walk3: "walk (mem s3) dir b = (if PD_INDEX b = PD_INDEX va then None else walk m1 dir b)" for b
    using ins(3) by (simp add: walk_frame_of)
  have "vm_inv dir (s3\<lparr>mem := ?m4\<rparr>)"
    using store_pte_inv [OF ins(4) _ T3(2), of "PT_INDEX va"] by (simp add: T3(1))
  with call show ?thesis
    by (intro exI [of _ "s3\<lparr>mem := ?m4\<rparr>"] exI [of _ old])
      (simp add: dir_def [symmetric] maps_page_walk [OF maps3] walk3 maps_page_walk [OF maps1]
        GET_FRAME_id [OF fresh(1)] or.assoc)
qed

section \<open>free_page\<close>

text \<open>
  C6. \<open>free_page\<close> hands the frame's address to \<open>free_blocks\<close>, which wants a block number: the
  bit that is cleared is the one numbered by the address, and the page's own block stays in
  use, although the count of used blocks goes down.
\<close>

theorem free_page_clears_wrong_block:
  fixes s :: "'a vmm_scheme"
  assumes p: "p = GET_FRAME (load32 (mem s) e)" and nz: "p \<noteq> 0" and used: "block_used s (unat p div 4096)"
  shows "(\<forall>j. block_used (free_page e s) j \<longleftrightarrow> j \<noteq> unat p \<and> block_used s j) \<and>
    block_used (free_page e s) (unat p div 4096) \<and>
    used_blocks (free_page e s) = used_blocks s - 1 \<and>
    \<not> bit (load32 (mem (free_page e s)) e) 0"
proof -
  have p1: "0 < unat p" using nz by (simp add: unat_gt_0)
  have frame: "mem (free_blocks p 1 s) = mem s"
    using same_more [OF free_blocks_frame(2)] by blast
  have e: "free_page e s = (free_blocks p 1 s)\<lparr>mem := CLEAR_ATTRIBUTE e PTE_PRESENT (stray_unset p (mem s))\<rparr>"
    using p nz frame by (simp add: free_page_def Let_def)
  have "unat p + unat (1 :: u32) \<le> 2 ^ 32" using unat_less_32 [of p] by (simp del: unat_less_32)
  note effect = free_blocks_effect(1,2) [OF this, of s]
  have "{unat p..<unat p + unat (1 :: u32)} = {unat p}" by auto
  then have bits: "block_used (free_page e s) j \<longleftrightarrow> j \<noteq> unat p \<and> block_used s j" for j
    using effect(1) [of j] by (simp add: e)
  have "unat p div 4096 \<noteq> unat p" using p1 by (metis div_less_dividend less_irrefl one_less_numeral_iff semiring_norm(76))
  moreover have "\<not> bit (load32 (mem (free_page e s)) e) 0"
    by (simp add: e CLEAR_ATTRIBUTE_def mem32.load_store_same PTE_PRESENT_def bit_simps)
  ultimately show ?thesis using bits used effect(2) by (simp add: e)
qed

section \<open>initialize_vmm\<close>

lemma unat_low10: "unat (x AND 0x3FF :: u32) = unat x mod 1024"
  unfolding low10 take_bit_eq_mask [symmetric] by (simp add: take_bit_eq_mod unat_mod)

lemma unat_PT_INDEX: "unat (PT_INDEX a) = unat a div 4096 mod 1024"
  by (simp add: PT_INDEX_def unat_low10 drop_bit_eq_div unat_div)

lemma unat_PD_INDEX: "unat (PD_INDEX a) = unat a div 4194304"
proof -
  have "unat a div 4194304 < 1024" using unat_less_32 [of a] by (simp add: div_less_iff_less_mult del: unat_less_32)
  then show ?thesis by (simp add: PD_INDEX_def unat_low10 drop_bit_eq_div unat_div)
qed

lemma frame_plus_offset: "GET_FRAME a + (a AND 0xFFF) = a"
proof -
  have "GET_FRAME a AND (a AND 0xFFF) = 0" "GET_FRAME a OR (a AND 0xFFF) = a"
    unfolding low12 by (rule bit_word_eqI, auto simp: GET_FRAME_bits bit_simps)+
  then show ?thesis by (simp add: disjunctive_add_eq_or)
qed

text \<open>The page table loop, for the two starting addresses the code uses.\<close>

definition table_entry :: "u32 \<Rightarrow> u32 \<Rightarrow> u32" where
  "table_entry frame0 j = frame_into (0 OR PTE_PRESENT OR PTE_WRITABLE) (frame0 + j * 4096)"

lemma fill_table_stores:
  assumes "virt0 = 0 \<or> virt0 = 0xC0000000"
  shows "fill_table table frame0 virt0 m =
    fold (\<lambda>i m. store32 m (slot table (of_nat i)) (table_entry frame0 (of_nat i))) [0..<1024] m"
proof -
  have "PT_INDEX (virt0 + of_nat i * 4096) = of_nat i" if "i < 1024" for i
  proof -
    have "unat (of_nat i * 4096 :: u32) = 4096 * i" using that by (simp add: unat_word_ariths)
    then have v: "unat (virt0 + of_nat i * 4096) = unat virt0 + 4096 * i"
      using assms that by (intro trans [OF unat_add_no_wrap]) auto
    have "unat virt0 = 0 \<or> unat virt0 = 4096 * (1024 * 768)" using assms by auto
    then have "(unat virt0 + 4096 * i) div 4096 mod 1024 = i"
      using that mod_mult_self4 [of 1024 768 i] by (elim disjE) (simp_all add: add.commute)
    then have "unat (PT_INDEX (virt0 + of_nat i * 4096)) = unat (of_nat i :: u32)"
      using that v by (simp add: unat_PT_INDEX)
    then show ?thesis by (rule unsigned_word_eqI)
  qed
  then show ?thesis unfolding fill_table_def
    by (intro fold_cong) (simp_all add: table_entry_def Let_def)
qed

lemma load32_fill_table:
  assumes "virt0 = 0 \<or> virt0 = 0xC0000000" and "page_aligned table" "page_aligned q" "j < 1024"
  shows "load32 (fill_table table frame0 virt0 m) (slot q j) =
    (if q = table then table_entry frame0 j else load32 m (slot q j))"
proof -
  have lt: "of_nat i < (1024 :: u32)" if "i < 1024" for i
    using that by (simp add: word_less_nat_alt)
  have apart: "apart 4 (slot table (of_nat i)) (slot q k)"
    if "i < 1024" "k < 1024" "q = table \<longrightarrow> k \<noteq> of_nat i" for i k
    using that assms lt by (intro apart4_aligned) auto
  show ?thesis
  proof (cases "q = table")
    case True
    have j: "unat j < 1024" "of_nat (unat j) = j" using assms(4) by (simp_all add: word_less_nat_alt)
    have "apart 4 (slot table (of_nat i)) (slot table (of_nat k))" if "i < 1024" "k < 1024" "i \<noteq> k" for i k
    proof -
      have "unat (of_nat i :: u32) \<noteq> unat (of_nat k :: u32)" using that by simp
      then have "(of_nat k :: u32) \<noteq> of_nat i" by metis
      then show ?thesis using apart [of i "of_nat k"] that lt True by simp
    qed
    from mem32.load_store_table [of 1024 "\<lambda>i. slot table (of_nat i)", OF this j(1)]
    show ?thesis using True j(2) by (simp add: fill_table_stores [OF assms(1)])
  next
    case False
    then show ?thesis unfolding fill_table_stores [OF assms(1)]
      by (simp, intro mem32.load_store_list_apart) (use apart assms(4) in auto)
  qed
qed

text \<open>The allocator neither reads nor writes the memory.\<close>

lemma set_block_mem: "set_block b (s\<lparr>mem := m\<rparr>) = (set_block b s)\<lparr>mem := m\<rparr>"
  by (simp add: set_block_def Let_def)

lemma fold_set_block_mem:
  "fold (\<lambda>i. set_block (b + of_nat i)) is (s\<lparr>mem := m\<rparr>) = (fold (\<lambda>i. set_block (b + of_nat i)) is s)\<lparr>mem := m\<rparr>"
  by (induction "is" arbitrary: s) (simp_all add: set_block_mem)

lemma allocate_blocks_mem:
  "allocate_blocks n (s\<lparr>mem := m\<rparr>) = map_option (\<lambda>(p, s'). (p, s'\<lparr>mem := m\<rparr>)) (allocate_blocks n s)"
  by (simp add: allocate_blocks_def find_free_blocks_def fold_set_block_mem Let_def split: option.splits)

lemma table_entry_bits:
  assumes "page_aligned f"
  shows "bit (frame_into 3 f) 0" and "GET_FRAME (frame_into 3 f) = f"
proof -
  show "bit (frame_into 3 f) 0" using bit0_frame_into [OF assms, of 3] by simp
  show "GET_FRAME (frame_into 3 f) = f" by (simp add: GET_FRAME_frame_into GET_FRAME_id [OF assms])
qed

text \<open>What the directory and the two tables hold when paging is switched on.\<close>

lemma boot_tables:
  fixes m :: memory
  assumes t: "page_aligned table" "page_aligned table2" "page_aligned dir"
    and ne: "table2 \<noteq> table" "dir \<noteq> table" "dir \<noteq> table2"
  defines "m4 \<equiv> fill_table table 0x100000 0xC0000000 (fill_table table2 0 0 (memset (memset m table 0 4096) table2 0 4096))"
  defines "e \<equiv> slot dir (PD_INDEX 0xC0000000)" and "e2 \<equiv> slot dir (PD_INDEX 0)"
  defines "m6 \<equiv> SET_FRAME e table (SET_ATTRIBUTE e PDE_WRITABLE (SET_ATTRIBUTE e PDE_PRESENT (memset m4 dir 0 4096)))"
  defines "m7 \<equiv> SET_FRAME e2 table2 (SET_ATTRIBUTE e2 PDE_WRITABLE (SET_ATTRIBUTE e2 PDE_PRESENT m6))"
  shows "i < 1024 \<Longrightarrow> pde m7 dir i = (if i = 0 then frame_into 3 table2 else if i = 768 then frame_into 3 table else 0)"
    and "j < 1024 \<Longrightarrow> load32 m7 (slot table j) = table_entry 0x100000 j"
    and "j < 1024 \<Longrightarrow> load32 m7 (slot table2 j) = table_entry 0 j"
proof -
  have e: "e = slot dir 768" "e2 = slot dir 0" by (simp_all add: e_def e2_def PD_INDEX_def)
  have d: "load32 (memset m4 dir 0 4096) (slot q j) = (if q = dir then 0 else load32 m4 (slot q j))"
    if "page_aligned q" "j < 1024" for q j
    using load32_memset_page [OF t(3) that] .
  have m7: "load32 m7 (slot q j) =
      (if q = dir then if j = 0 then frame_into 3 table2 else if j = 768 then frame_into 3 table else 0
       else load32 m4 (slot q j))" if "page_aligned q" "j < 1024" for q j
    using that t(3) d [OF t(3)] d [OF that]
    by (auto simp: m7_def m6_def e load32_entries PDE_PRESENT_def PDE_WRITABLE_def)
  show "i < 1024 \<Longrightarrow> pde m7 dir i = (if i = 0 then frame_into 3 table2 else if i = 768 then frame_into 3 table else 0)"
    using m7 [OF t(3)] by (simp add: pde_def)
  have "load32 m4 (slot q j) = (if q = table then table_entry 0x100000 j
      else if q = table2 then table_entry 0 j
      else load32 (memset (memset m table 0 4096) table2 0 4096) (slot q j))" if "page_aligned q" "j < 1024" for q j
    using that t by (simp add: m4_def load32_fill_table)
  then show "j < 1024 \<Longrightarrow> load32 m7 (slot table j) = table_entry 0x100000 j"
    "j < 1024 \<Longrightarrow> load32 m7 (slot table2 j) = table_entry 0 j"
    using m7 t ne by auto
qed

lemma table_entry_frame:
  assumes "frame0 = 0 \<or> frame0 = 0x100000" and "j < 1024"
  shows "bit (table_entry frame0 j) 0"
    and "unat (GET_FRAME (table_entry frame0 j)) = unat frame0 + 4096 * unat j"
proof -
  have j: "unat j < 1024" using assms(2) by (simp add: word_less_nat_alt)
  have u: "unat (frame0 + j * 4096) = unat frame0 + 4096 * unat j"
    using assms(1) j by (auto simp: unat_word_ariths)
  then have al: "page_aligned (frame0 + j * 4096)" using assms(1) by auto
  have three: "0 OR PTE_PRESENT OR PTE_WRITABLE = 3" by (simp add: PTE_PRESENT_def PTE_WRITABLE_def)
  show "bit (table_entry frame0 j) 0"
    "unat (GET_FRAME (table_entry frame0 j)) = unat frame0 + 4096 * unat j"
    using table_entry_bits [OF al] u by (simp_all only: table_entry_def three)
qed

text \<open>The translation that the kernel sets up before it enables paging.\<close>

definition boot_translation :: "u32 \<Rightarrow> u32 option" where
  "boot_translation va =
     (if va < 0x400000 then Some va
      else if 0xC0000000 \<le> va \<and> va < 0xC0400000 then Some (va - 0xC0000000 + 0x100000)
      else None)"

lemma boot_frames:
  assumes pd: "\<And>i. i < 1024 \<Longrightarrow> pde m dir i = (if i = 0 then frame_into 3 table2 else if i = 768 then frame_into 3 table else 0)"
    and t: "\<And>j. j < 1024 \<Longrightarrow> load32 m (slot table j) = table_entry 0x100000 j"
    and t2: "\<And>j. j < 1024 \<Longrightarrow> load32 m (slot table2 j) = table_entry 0 j"
    and al: "page_aligned table" "page_aligned table2"
  shows "walk m dir va = boot_translation va"
proof -
  let ?off = "va AND 0xFFF" and ?j = "PT_INDEX va"
  have off: "?off < 4096" using word_and_le1 [of va "0xFFF"] by (auto simp: order_le_less_trans)
  have offset: "unat ?off = unat va mod 4096"
    unfolding low12 take_bit_eq_mask [symmetric] by (simp add: take_bit_eq_mod unat_mod)
  have entry: "walk m dir va = Some (GET_FRAME w OR ?off)"
    if "pde m dir (PD_INDEX va) = frame_into 3 T" "page_aligned T" "load32 m (slot T ?j) = w" "bit w 0" for T w
    using that table_entry_bits [OF that(2)] by (simp add: walk_def pde_def Let_def)
  have place: "GET_FRAME w OR ?off = w'"
    if "unat (GET_FRAME w) = b + 4096 * unat ?j" "unat w' = b + (4096 * unat ?j + unat ?off)" for w w' :: u32 and b
  proof -
    have "unat (GET_FRAME w OR ?off) = unat (GET_FRAME w) + unat ?off"
      using or_flags(3) [OF GET_FRAME_aligned off, of w] that unat_less_32 [of w']
      by (simp add: unat_add_no_wrap del: unat_less_32)
    then show ?thesis using that by (simp add: word_unat_eq_iff)
  qed
  have low: "4096 * unat ?j + unat ?off = unat va mod 4194304"
  proof -
    have "unat va mod 4194304 = 4096 * (unat va div 4096 mod 1024) + unat va mod 4096"
      using mod_mult2_eq [of "unat va" 4096 1024] by simp
    then show ?thesis by (simp only: unat_PT_INDEX offset)
  qed
  consider "unat va < 0x400000" | "0xC0000000 \<le> unat va" "unat va < 0xC0400000"
    | "unat va \<ge> 0x400000" "\<not> (0xC0000000 \<le> unat va \<and> unat va < 0xC0400000)" by linarith
  then show ?thesis
  proof cases
    case 1
    then have "unat (PD_INDEX va) = unat (0 :: u32)" by (simp add: unat_PD_INDEX)
    then have "PD_INDEX va = 0" by (rule unsigned_word_eqI)
    moreover have "GET_FRAME (table_entry 0 ?j) OR ?off = va"
      using place [of "table_entry 0 ?j" 0 va] table_entry_frame [of 0 ?j] low 1 by simp
    moreover have "boot_translation va = Some va" using 1 by (simp add: boot_translation_def word_less_nat_alt)
    ultimately show ?thesis
      using entry [of table2] pd t2 table_entry_frame [of 0 ?j] al by simp
  next
    case 2
    then have "unat (PD_INDEX va) = unat (768 :: u32)" by (simp add: unat_PD_INDEX)
    then have "PD_INDEX va = 768" by (rule unsigned_word_eqI)
    moreover have u: "unat (va - 0xC0000000) = unat va - 0xC0000000"
      using 2 by (simp add: unat_sub word_le_nat_alt)
    moreover have "unat va - 0xC0000000 = unat va mod 4194304"
    proof -
      have "unat va div 4194304 = 768" using 2 by simp
      then show ?thesis using div_mult_mod_eq [of "unat va" 4194304] by linarith
    qed
    moreover have "unat (va - 0xC0000000 + 0x100000) = unat va - 0xC0000000 + 0x100000"
      using u 2 by (subst unat_add_no_wrap) simp_all
    ultimately have "PD_INDEX va = 768" "GET_FRAME (table_entry 0x100000 ?j) OR ?off = va - 0xC0000000 + 0x100000"
      using place [of "table_entry 0x100000 ?j" "0x100000" "va - 0xC0000000 + 0x100000"]
        table_entry_frame [of "0x100000" ?j] low by simp_all
    moreover have "boot_translation va = Some (va - 0xC0000000 + 0x100000)"
      using 2 by (simp add: boot_translation_def word_less_nat_alt word_le_nat_alt)
    ultimately show ?thesis
      using entry [of table] pd t table_entry_frame [of "0x100000" ?j] al by simp
  next
    case 3
    then have "unat va div 4194304 \<noteq> 0" by (simp add: div_eq_0_iff)
    moreover have "unat va div 4194304 \<noteq> 768"
    proof
      assume "unat va div 4194304 = 768"
      then have "unat va = 3221225472 + unat va mod 4194304"
        using div_mult_mod_eq [of "unat va" 4194304] by linarith
      moreover have "unat va mod 4194304 < 4194304" by simp
      ultimately show False using 3 by linarith
    qed
    ultimately have "PD_INDEX va \<noteq> 0" "PD_INDEX va \<noteq> 768"
      using unat_PD_INDEX [of va] by auto
    then have "walk m dir va = None" using pd [of "PD_INDEX va"] by (simp add: walk_def pde_def Let_def)
    then show ?thesis using 3 by (simp add: boot_translation_def word_less_nat_alt word_le_nat_alt)
  qed
qed

lemma initialize_vmm_result:
  assumes "allocate_blocks 1 s = Some (table, s1)" "table \<noteq> 0"
    and "allocate_blocks 1 s1 = Some (table2, s2)" "table2 \<noteq> 0"
    and "allocate_blocks 3 s2 = Some (dir, s3)" "dir \<noteq> 0"
  defines "m4 \<equiv> fill_table table 0x100000 0xC0000000 (fill_table table2 0 0 (memset (memset (mem s) table 0 4096) table2 0 4096))"
  defines "e \<equiv> slot dir (PD_INDEX 0xC0000000)" and "e2 \<equiv> slot dir (PD_INDEX 0)"
  defines "m6 \<equiv> SET_FRAME e table (SET_ATTRIBUTE e PDE_WRITABLE (SET_ATTRIBUTE e PDE_PRESENT (memset m4 dir 0 4096)))"
  defines "m7 \<equiv> SET_FRAME e2 table2 (SET_ATTRIBUTE e2 PDE_WRITABLE (SET_ATTRIBUTE e2 PDE_PRESENT m6))"
  shows "initialize_vmm s = Some (s3\<lparr>mem := m7, directory := dir, cr3 := dir, paging := True\<rparr>)"
proof -
  have "mem s1 = mem s" "mem s2 = mem s"
    using allocate_blocks_vmm_frame [OF assms(1)] allocate_blocks_vmm_frame [OF assms(3)] by simp_all
  then show ?thesis
    using assms(1-6) unfolding initialize_vmm_def m7_def m6_def m4_def e_def e2_def
    by (simp add: Let_def allocate_blocks_mem set_pd_def)
qed

text \<open>The whole state that \<open>initialize_vmm\<close> ends in, when its three requests succeed.\<close>

lemma initialize_vmm_tables:
  fixes s :: "'a vmm_scheme"
  assumes ok: "alloc_ok s"
    and al1: "allocate_blocks 1 s = Some (table, s1)" "table \<noteq> 0"
    and al2: "allocate_blocks 1 s1 = Some (table2, s2)" "table2 \<noteq> 0"
    and al3: "allocate_blocks 3 s2 = Some (dir, s3)" "dir \<noteq> 0"
  shows "\<exists>s'. initialize_vmm s = Some s' \<and> paging s' \<and> directory s' = dir \<and> cr3 s' = dir \<and>
    vm_inv dir s' \<and> (\<forall>va. walk (mem s') dir va = boot_translation va) \<and>
    block_used s' = block_used s3 \<and> max_blocks s' = max_blocks s3 \<and>
    (\<forall>i < 1024. pde (mem s') dir i =
       (if i = 0 then frame_into 3 table2 else if i = 768 then frame_into 3 table else 0))"
proof -
  let ?b = "\<lambda>p. unat (p :: u32) div 4096"
  have ok1: "alloc_ok s1" and ok2: "alloc_ok s2" and ok3: "alloc_ok s3"
    using pmm_alloc.alloc_inv ok al1(1) al2(1) al3(1) by blast+
  have al: "page_aligned table" "page_aligned table2" "page_aligned dir"
    using pmm_alloc.alloc_aligned [OF ok al1(1)] pmm_alloc.alloc_aligned [OF ok1 al2(1)]
      pmm_alloc.alloc_aligned [OF ok2 al3(1)] by (simp_all add: dvd_eq_mod_eq_0)
  have marks: "block_used s1 (?b table)" "block_used s2 (?b table2)" "block_used s3 (?b dir)"
    using pmm_alloc.alloc_marks [OF ok al1] pmm_alloc.alloc_marks [OF ok1 al2]
      pmm_alloc.alloc_marks [OF ok2 al3] by simp_all
  have unused: "\<not> block_used s1 (?b table2)" "\<not> block_used s2 (?b dir)"
    using pmm_alloc.alloc_fresh [OF ok1 al2] pmm_alloc.alloc_fresh [OF ok2 al3] by simp_all
  have kept: "block_used s2 (?b table)" "block_used s3 (?b table)" "block_used s3 (?b table2)"
    using pmm_alloc.alloc_mono [OF ok1 al2(1)] pmm_alloc.alloc_mono [OF ok2 al3(1)] marks by simp_all
  have ne: "table2 \<noteq> table" "dir \<noteq> table" "dir \<noteq> table2" using marks unused kept by auto
  note bt = boot_tables [OF al ne, where m = "mem s"]
  note frames = boot_frames [OF bt al(1,2)]
  obtain s' where s': "initialize_vmm s = Some s'" "paging s'" "directory s' = dir" "cr3 s' = dir"
      "alloc_ok s'" "block_used s' = block_used s3" "max_blocks s' = max_blocks s3"
      and walks: "\<And>va. walk (mem s') dir va = boot_translation va"
      and pd: "\<And>i. i < 1024 \<Longrightarrow> pde (mem s') dir i =
        (if i = 0 then frame_into 3 table2 else if i = 768 then frame_into 3 table else 0)"
    using initialize_vmm_result [OF al1 al2 al3] frames bt(1) ok3
    by (simp add: alloc_ok_def block_used_def fun_eq_iff)
  have fr: "GET_FRAME (frame_into 3 table) = table" "GET_FRAME (frame_into 3 table2) = table2"
    "bit (frame_into 3 table) 0" "bit (frame_into 3 table2) 0"
    using table_entry_bits al by simp_all
  then have "tables_wf (mem s') dir" using al ne by (auto simp: tables_wf_def pd split: if_splits)
  moreover have "block_used s' (?b (GET_FRAME (pde (mem s') dir i)))" if "i < 1024" "pde (mem s') dir i \<noteq> 0" for i
    using that fr kept s'(6) by (auto simp: pd split: if_splits)
  ultimately have "vm_inv dir s'" using s' marks(3) by (simp add: vm_inv_def)
  with s' walks pd show ?thesis by blast
qed

text \<open>
  C7. From a state with enough free blocks, \<open>initialize_vmm\<close> switches paging on with a
  directory that translates exactly as intended: the first 4 MB to themselves, the 4 MB at
  0xC0000000 to physical 0x100000 onwards, nothing else; and it establishes the invariant.
\<close>

theorem initialize_vmm_translation:
  fixes s :: "'a vmm_scheme"
  assumes ok: "alloc_ok s"
    and al1: "allocate_blocks 1 s = Some (table, s1)" "table \<noteq> 0"
    and al2: "allocate_blocks 1 s1 = Some (table2, s2)" "table2 \<noteq> 0"
    and al3: "allocate_blocks 3 s2 = Some (dir, s3)" "dir \<noteq> 0"
  shows "\<exists>s'. initialize_vmm s = Some s' \<and> paging s' \<and> directory s' = dir \<and> cr3 s' = dir \<and>
    vm_inv dir s' \<and> (\<forall>va. walk (mem s') dir va = boot_translation va)"
  using initialize_vmm_tables [OF assms] by blast

section \<open>A concrete system\<close>

text \<open>
  A directory at 0x1000 with one table at 0x2000 for the first 4 MB; the three blocks up to
  there are in use, and block 3, which the allocator hands out next, holds old data.
\<close>

lemma alloc_packed:
  assumes ok: "alloc_ok s" and used: "\<And>j. block_used s j \<longleftrightarrow> j < k"
    and n: "n \<noteq> 0" "k + unat n \<le> unat (max_blocks s)"
  shows "\<exists>p s'. allocate_blocks n s = Some (p, s') \<and> unat p = 4096 * k \<and> alloc_ok s' \<and>
    (\<forall>j. block_used s' j \<longleftrightarrow> j < k + unat n) \<and> max_blocks s' = max_blocks s"
proof -
  have pos: "0 < unat n" using n(1) by (simp add: unat_gt_0)
  have "first_fit (memory_map s) (unat (max_blocks s)) (unat n) = Some k"
  proof (rule first_fit_SomeI [OF n(2)])
    show "free_run (memory_map s) k (unat n)"
      using used by (simp add: free_run_def block_used_used_in)
    show "\<not> free_run (memory_map s) b (unat n)" if "b < k" for b
      using used [of b] that pos by (auto simp: free_run_def block_used_used_in)
  qed
  then obtain p s' where r: "allocate_blocks n s = Some (p, s')" and al: "allocated s n k p s'"
    using allocate_blocks_cases [OF ok, of n] n(1) by (auto simp: allocated_def)
  have "alloc_ok s'" by (rule allocated_alloc_ok [OF ok al])
  moreover have "block_used s' j \<longleftrightarrow> j < k + unat n" for j
    using al used [of j] by (simp add: allocated_def) arith
  ultimately show ?thesis using r al by (simp add: allocated_def)
qed

definition example_vmm :: vmm where
  "example_vmm = \<lparr>memory_map = (\<lambda>i. if i = 0 then 7 else 0), max_blocks = 64, used_blocks = 3,
     mem = store32 (store32 (\<lambda>_. 0) (slot 0x1000 0) 0x2003) (slot 0x3000 0) 0x5001,
     directory = 0x1000, cr3 = 0x1000, paging = True\<rparr>"

lemma example_vmm_used: "block_used example_vmm j \<longleftrightarrow> j < 3"
proof -
  have "(7 :: u32) = mask 3" by (simp add: mask_eq_exp_minus_1)
  then have "bit (7 :: u32) n \<longleftrightarrow> n < 3" for n by (simp only: bit_mask_iff possible_bit_word) auto
  from this [of "j mod 32"] show ?thesis
    by (cases "j < 32") (simp_all add: block_used_def example_vmm_def div_eq_0_iff)
qed

lemma example_vmm_alloc_ok: "alloc_ok example_vmm"
  using example_vmm_used [of 0] by (simp add: alloc_ok_def example_vmm_def)

lemma example_vmm_fields [simp]:
  "directory example_vmm = 0x1000" "max_blocks example_vmm = 64"
  by (simp_all add: example_vmm_def)

lemma example_vmm_pde: "i < 1024 \<Longrightarrow> pde (mem example_vmm) 0x1000 i = (if i = 0 then 0x2003 else 0)"
  by (simp add: pde_def example_vmm_def load32_store32_if) (simp add: load32_def)

lemma example_vmm_stale: "load32 (mem example_vmm) (slot 0x3000 0) = 0x5001"
  by (simp add: example_vmm_def mem32.load_store_same)

lemma example_vmm_frame: "GET_FRAME 0x2003 = 0x2000"
  by (simp add: GET_FRAME_def)

lemma example_vmm_inv: "vm_inv 0x1000 example_vmm"
  using example_vmm_alloc_ok
  by (auto simp: vm_inv_def tables_wf_def example_vmm_pde example_vmm_used example_vmm_frame split: if_splits)

lemma example_vmm_alloc: "\<exists>s'. allocate_blocks 1 example_vmm = Some (0x3000, s')"
proof -
  obtain p s' where p: "allocate_blocks 1 example_vmm = Some (p, s')" "unat p = 4096 * 3"
    using alloc_packed [OF example_vmm_alloc_ok example_vmm_used, of 1] by auto
  then have "unat p = unat (0x3000 :: u32)" by simp
  then have "p = 0x3000" by (rule unsigned_word_eqI)
  with p show ?thesis by blast
qed

lemma example_vmm_indices [simp]:
  "PD_INDEX 0x3000 = 0" "PT_INDEX 0x3000 = 3" "PD_INDEX 0x40000000 = 256" "PT_INDEX 0x40000000 = 0"
  "PD_INDEX 0x5000 = 0" "PT_INDEX 0x5000 = 5"
  by (simp_all add: PD_INDEX_def PT_INDEX_def drop_bit_eq_div)

lemma example_vmm_room: "table_room 0x1000 0x40000000 0x3000 example_vmm"
  by (simp add: table_room_def example_vmm_pde example_vmm_frame)

lemma map_address_existing_table_witness:
  "\<exists>s'. map_address 0x1000 0x7000 0x5000 3 example_vmm = Some (True, s') \<and> vm_inv 0x1000 s' \<and>
     walk (mem s') 0x1000 0x5000 = Some (0x7000 OR (0x5000 AND 0xFFF))"
  using map_address_existing_table [OF example_vmm_inv, of "0x5000" "0x7000" 3] example_vmm_pde
  by fastforce

theorem map_address_new_table_witness:
  "\<exists>s'. map_address 0x1000 0x7000 0x40000000 3 example_vmm = Some (True, s') \<and> vm_inv 0x1000 s' \<and>
     walk (mem s') 0x1000 0x40000000 = Some (0x7000 OR (0x40000000 AND 0xFFF))"
proof -
  obtain s1 where al: "allocate_blocks 1 example_vmm = Some (0x3000, s1)" using example_vmm_alloc by blast
  show ?thesis
    using map_address_new_table [OF example_vmm_inv _ al _ example_vmm_room, of "0x7000" 3] example_vmm_pde
    by fastforce
qed

lemma create_page_table_stale_entry_witness:
  "\<exists>s2. create_page_table 0x1000 0x40000000 7 example_vmm = Some (True, s2) \<and>
     frame_of (mem s2) 0x1000 256 0 = Some 0x5000"
proof -
  obtain s1 where al: "allocate_blocks 1 example_vmm = Some (0x3000, s1)" using example_vmm_alloc by blast
  have "GET_FRAME 0x5001 = 0x5000" by (simp add: GET_FRAME_def)
  then show ?thesis
    using create_page_table_stale_entry [OF example_vmm_inv _ al _ example_vmm_room, of 7]
    by (simp add: example_vmm_pde example_vmm_stale bit_1_0 word_le_nat_alt)
qed

lemma map_page_existing_table_witness:
  "\<exists>s'. map_page 0x7000 0x5000 example_vmm = Some (True, s') \<and>
     walk (mem s') 0x1000 0x5000 \<noteq> None"
proof -
  have hyps: "vm_inv (directory example_vmm) example_vmm" "page_aligned (0x7000 :: u32)"
    "pde (mem example_vmm) (directory example_vmm) (PD_INDEX 0x5000) \<noteq> 0"
    using example_vmm_inv by (simp_all add: example_vmm_pde)
  obtain s' where s': "map_page 0x7000 0x5000 example_vmm = Some (True, s')"
    and "walk (mem s') (directory example_vmm) 0x5000 \<noteq> None"
    using map_page_existing_table [OF hyps(1,3,2) refl] by (metis option.distinct(1))
  then show ?thesis by auto
qed

lemma map_page_new_table_witness:
  "\<exists>s'. map_page 0x7000 0x40000000 example_vmm = Some (True, s') \<and> vm_inv 0x1000 s' \<and>
     walk (mem s') 0x1000 0x40000000 = Some (0x7000 OR (0x40000000 AND 0xFFF))"
proof -
  obtain s1 where al: "allocate_blocks 1 example_vmm = Some (0x3000, s1)" using example_vmm_alloc by blast
  have hyps: "vm_inv (directory example_vmm) example_vmm" "page_aligned (0x7000 :: u32)"
    "pde (mem example_vmm) (directory example_vmm) (PD_INDEX 0x40000000) = 0"
    "pde (mem example_vmm) (directory example_vmm) (PD_INDEX 0x3000) \<noteq> 0"
    using example_vmm_inv by (simp_all add: example_vmm_pde)
  have nz: "(0x3000 :: u32) \<noteq> 0" by simp
  from map_page_new_table [OF hyps(1,3) al nz hyps(4,2)]
  obtain s' old where s': "map_page 0x7000 0x40000000 example_vmm = Some (True, s')"
    "vm_inv (directory example_vmm) s'"
    and walks: "\<forall>b. walk (mem s') (directory example_vmm) b =
      (if GET_FRAME b = GET_FRAME 0x40000000 then Some (0x7000 OR (b AND 0xFFF))
       else if PD_INDEX b = PD_INDEX 0x40000000 then None
       else if GET_FRAME b = 0x3000 then Some ((old AND 0x80000000) OR 0x3000 OR (b AND 0xFFF))
       else walk (mem example_vmm) (directory example_vmm) b)" by blast
  show ?thesis using s' walks [rule_format, of "0x40000000"] by (intro exI [of _ s']) simp
qed

lemma unmap_page_unmaps_witness:
  "walk (mem (unmap_page 0x5000 example_vmm)) 0x1000 0x5000 = None"
  using unmap_page_unmaps [of example_vmm "0x5000"] example_vmm_inv by (simp add: example_vmm_pde)

theorem free_page_clears_wrong_block_witness:
  "block_used (free_page (slot 0x1000 0) example_vmm) 2"
proof -
  have "load32 (mem example_vmm) (slot 0x1000 0) = 0x2003"
    using example_vmm_pde [of 0] by (simp add: pde_def)
  then show ?thesis
    using free_page_clears_wrong_block [of "0x2000" example_vmm "slot 0x1000 0"]
    by (simp add: example_vmm_frame example_vmm_used)
qed

theorem initialize_vmm_translation_witness:
  "\<exists>s'. initialize_vmm example_vmm = Some s' \<and> paging s' \<and>
     walk (mem s') (directory s') 0xC0001234 = Some 0x101234"
proof -
  obtain p1 s1 where s1: "allocate_blocks 1 example_vmm = Some (p1, s1)" "unat p1 = 4096 * 3" "alloc_ok s1"
      "\<And>j. block_used s1 j \<longleftrightarrow> j < 4" "max_blocks s1 = 64"
    using alloc_packed [OF example_vmm_alloc_ok example_vmm_used, of 1] by auto
  obtain p2 s2 where s2: "allocate_blocks 1 s1 = Some (p2, s2)" "unat p2 = 4096 * 4" "alloc_ok s2"
      "\<And>j. block_used s2 j \<longleftrightarrow> j < 5" "max_blocks s2 = 64"
    using alloc_packed [OF s1(3,4), of 1] s1(5) by auto
  obtain p3 s3 where s3: "allocate_blocks 3 s2 = Some (p3, s3)" "unat p3 = 4096 * 5"
    using alloc_packed [OF s2(3,4), of 3] s2(5) by auto
  have "p1 \<noteq> 0" "p2 \<noteq> 0" "p3 \<noteq> 0" using s1(2) s2(2) s3(2) by auto
  moreover have "boot_translation 0xC0001234 = Some 0x101234" by (simp add: boot_translation_def)
  ultimately show ?thesis
    using initialize_vmm_translation [OF example_vmm_alloc_ok s1(1) _ s2(1) _ s3(1)] by auto
qed

section \<open>The mapping functions return\<close>

text \<open>
  Each recursive call of the mapping functions is preceded by an allocation, so the number of
  free blocks bounds the recursion, whatever the page tables hold.
\<close>

definition free_count :: "'a pmm_scheme \<Rightarrow> nat" where
  "free_count s = card {j. j < unat (max_blocks s) \<and> \<not> block_used s j}"

lemma free_count_mem [simp]: "free_count (s\<lparr>mem := m\<rparr>) = free_count s"
  by (simp add: free_count_def block_used_def)

lemma allocate_one_decreases:
  assumes "alloc_ok s" and "allocate_blocks 1 s = Some (p, s')" and "p \<noteq> 0"
  shows "free_count s' < free_count s"
proof -
  have al: "allocated s 1 (unat p div 4096) p s'" using allocate_blocksD [OF assms(1,2)] assms(3) by simp
  have "{j. j < unat (max_blocks s') \<and> \<not> block_used s' j} \<subset> {j. j < unat (max_blocks s) \<and> \<not> block_used s j}"
    using al by (auto simp: allocated_def)
  then show ?thesis unfolding free_count_def by (intro psubset_card_mono) simp_all
qed

text \<open>What a call leaves behind besides the memory and the bitmap.\<close>

definition vm_step_ok :: "'a vmm_scheme \<Rightarrow> 'a vmm_scheme \<Rightarrow> bool" where
  "vm_step_ok s s' \<longleftrightarrow> alloc_ok s' \<and> free_count s' \<le> free_count s \<and> max_blocks s' = max_blocks s \<and>
     directory s' = directory s \<and> cr3 s' = cr3 s \<and> paging s' = paging s \<and> vmm.more s' = vmm.more s"

lemma vm_step_ok_refl: "alloc_ok s \<Longrightarrow> vm_step_ok s s"
  by (simp add: vm_step_ok_def)

lemma vm_step_ok_trans: "vm_step_ok s t \<Longrightarrow> vm_step_ok t u \<Longrightarrow> vm_step_ok s u"
  by (auto simp: vm_step_ok_def)

lemma vm_step_ok_mem: "vm_step_ok s t \<Longrightarrow> vm_step_ok s (t\<lparr>mem := m\<rparr>)"
  by (simp add: vm_step_ok_def)

lemma allocate_one_step:
  assumes "alloc_ok s"
  obtains p s' where "allocate_blocks 1 s = Some (p, s')" "vm_step_ok s s'"
    "p \<noteq> 0 \<Longrightarrow> free_count s' < free_count s"
proof -
  obtain p s' where r: "allocate_blocks 1 s = Some (p, s')"
    using pmm_alloc.alloc_total [OF assms] by blast
  have "free_count s' \<le> free_count s"
    using allocate_one_decreases [OF assms r] allocate_blocksD [OF assms r] by (cases "p = 0") auto
  then have "vm_step_ok s s'"
    using pmm_alloc.alloc_inv [OF assms r] allocate_blocks_frame [OF r] allocate_blocks_vmm_frame [OF r]
    by (simp add: vm_step_ok_def)
  with r show ?thesis using that allocate_one_decreases [OF assms r] by blast
qed

lemma vm_run_returns:
  "alloc_ok s \<Longrightarrow> \<exists>r s'. vm_run c dir va flags s = Some (r, s') \<and> vm_step_ok s s'"
proof (induction "free_count s" arbitrary: s c va rule: less_induct)
  case less
  obtain p s1 where al: "allocate_blocks 1 s = Some (p, s1)" "vm_step_ok s s1"
      and dec: "p \<noteq> 0 \<Longrightarrow> free_count s1 < free_count s"
    using allocate_one_step [OF less.prems] by metis
  have create: "\<exists>r s'. vm_run CreateTable dir va flags s = Some (r, s') \<and> vm_step_ok s s'" for va
  proof (cases "load32 (mem s) (slot dir (drop_bit 22 va)) = 0 \<and> p \<noteq> 0")
    case True
    define t where "t = s1\<lparr>mem := (let m1 = store32 (mem s1) (slot dir (drop_bit 22 va)) (p OR flags)
      in memset m1 (load32 m1 (slot dir (drop_bit 22 va))) 0 4096)\<rparr>"
    have t: "free_count t < free_count s" "alloc_ok t" "vm_step_ok s t"
      using dec True al(2) by (simp_all add: t_def vm_step_ok_def)
    obtain r s2 where r: "vm_run (MapAddress p) dir p flags t = Some (r, s2)" "vm_step_ok t s2"
      using less.hyps [OF t(1,2)] by blast
    have "vm_run CreateTable dir va flags s = Some (True, s2)"
      using True al(1) r(1) by (subst vm_run.simps) (simp add: t_def Let_def)
    then show ?thesis using vm_step_ok_trans [OF t(3) r(2)] by blast
  next
    case False
    then show ?thesis
      using al vm_step_ok_refl [OF less.prems] by (subst vm_run.simps) (auto simp: Let_def)
  qed
  show ?case
  proof (cases c)
    case CreateTable
    then show ?thesis using create by simp
  next
    case (MapAddress pa)
    obtain r s2 where "vm_run CreateTable dir va flags s = Some (r, s2)" "vm_step_ok s s2"
      using create by blast
    then show ?thesis
      using MapAddress vm_step_ok_refl [OF less.prems]
      by (subst vm_run.simps) (auto simp: Let_def intro!: vm_step_ok_mem)
  qed
qed

lemma install_table_step:
  "alloc_ok s \<Longrightarrow> vm_step_ok s (write_page e pa va (install_table e t s))"
  "alloc_ok s \<Longrightarrow> vm_step_ok s (write_page e pa va s)"
  by (simp_all add: write_page_def install_table_def Let_def vm_step_ok_mem vm_step_ok_refl vm_step_ok_def)

lemma map_page_returns:
  "alloc_ok s \<Longrightarrow> \<exists>r s'. map_page pa va s = Some (r, s') \<and> vm_step_ok s s'"
proof (induction "free_count s" arbitrary: s pa va rule: less_induct)
  case less
  obtain p s1 where al: "allocate_blocks 1 s = Some (p, s1)" "vm_step_ok s s1"
      and dec: "p \<noteq> 0 \<Longrightarrow> free_count s1 < free_count s"
    using allocate_one_step [OF less.prems] by metis
  show ?case
  proof (cases "load32 (mem s) (slot (directory s) (PD_INDEX va)) AND PTE_PRESENT \<noteq> PTE_PRESENT \<and> p \<noteq> 0")
    case True
    have "alloc_ok s1" using al(2) by (simp add: vm_step_ok_def)
    then obtain r s2 where r: "map_page p p s1 = Some (r, s2)" "vm_step_ok s1 s2"
      using less.hyps [OF dec] True by blast
    then have "alloc_ok s2" by (simp add: vm_step_ok_def)
    then show ?thesis
      using True al r vm_step_ok_trans [OF vm_step_ok_trans [OF al(2) r(2)] install_table_step(1)]
      by (subst map_page.simps) (auto simp add: Let_def)
  next
    case False
    then show ?thesis using al install_table_step(2) [OF less.prems]
      by (subst map_page.simps) (auto simp: Let_def)
  qed
qed

text \<open>
  C8. \<open>map_page\<close>, \<open>map_address\<close> and \<open>create_page_table\<close> return on every page table, however
  ill formed: nothing in their text bounds their recursion, but each level takes a block.
\<close>

theorem mapping_returns:
  assumes "alloc_ok s"
  shows "(\<exists>r s'. map_page pa va s = Some (r, s') \<and> vm_step_ok s s') \<and>
    (\<exists>r s'. map_address dir pa va flags s = Some (r, s') \<and> vm_step_ok s s') \<and>
    (\<exists>r s'. create_page_table dir va flags s = Some (r, s') \<and> vm_step_ok s s')"
  unfolding map_address_def create_page_table_def
  using map_page_returns [OF assms] vm_run_returns [OF assms] by blast

theorem mapping_returns_witness:
  "\<exists>r s'. map_page 0x7000 0xFFFFF000 example_vmm = Some (r, s') \<and> alloc_ok s'"
  using mapping_returns [OF example_vmm_alloc_ok] unfolding vm_step_ok_def by blast

end
