(* ===== verification/Malloc.thy ===== *)
theory Malloc
  imports Vmm
begin

text \<open>
  The kernel heap, \<^verbatim>\<open>kernel/memory/malloc.c\<close>: a doubly linked list of nodes kept in the
  heap's own memory, extended page by page through the physical and virtual memory managers.
  The debugging output of the C code is left out.

  The abstract heap is the list of its blocks, each a payload size and a "free" flag;
  \<open>heap_chain\<close> relates it to memory, and \<open>fit\<close> and \<open>merged\<close> are the operations on it.
\<close>

section \<open>State and nodes\<close>

record heap = vmm +
  malloc_head :: u32
  malloc_virt_address :: u32
  malloc_phys_address :: u32
  total_malloc_pages :: u32
  malloc_start :: u32
  heap_end :: u32

text \<open>
  \<^verbatim>\<open>malloc_node_t\<close>: size, a one-byte flag, next, prev and address, 20 bytes with padding.
\<close>

definition NODE_SIZE :: u32 where "NODE_SIZE = 20"

definition node_size :: "memory \<Rightarrow> u32 \<Rightarrow> u32" where "node_size m n = load32 m n"
definition node_free :: "memory \<Rightarrow> u32 \<Rightarrow> bool" where "node_free m n \<longleftrightarrow> m (n + 4) \<noteq> 0"
definition node_next :: "memory \<Rightarrow> u32 \<Rightarrow> u32" where "node_next m n = load32 m (n + 8)"
definition node_address :: "memory \<Rightarrow> u32 \<Rightarrow> u32" where "node_address m n = load32 m (n + 16)"

definition put_size :: "u32 \<Rightarrow> u32 \<Rightarrow> memory \<Rightarrow> memory" where "put_size n v m = store32 m n v"
definition put_free :: "u32 \<Rightarrow> bool \<Rightarrow> memory \<Rightarrow> memory" where "put_free n b m = m(n + 4 := if b then 1 else 0)"
definition put_next :: "u32 \<Rightarrow> u32 \<Rightarrow> memory \<Rightarrow> memory" where "put_next n v m = store32 m (n + 8) v"
definition put_prev :: "u32 \<Rightarrow> u32 \<Rightarrow> memory \<Rightarrow> memory" where "put_prev n v m = store32 m (n + 12) v"
definition put_address :: "u32 \<Rightarrow> u32 \<Rightarrow> memory \<Rightarrow> memory" where "put_address n v m = store32 m (n + 16) v"

section \<open>Operations\<close>

text \<open>The loop that maps \<open>k\<close> consecutive pages; the C code ignores what \<open>map_address\<close> returns.\<close>

primrec map_heap_pages :: "nat \<Rightarrow> u32 \<Rightarrow> u32 \<Rightarrow> 'a heap_scheme \<Rightarrow> 'a heap_scheme option" where
  "map_heap_pages 0 phys virt s = Some s"
| "map_heap_pages (Suc k) phys virt s = do {
     (r, s1) \<leftarrow> map_address (directory s) phys virt (PTE_PRESENT OR PTE_WRITABLE OR PTE_USER) s;
     map_heap_pages k (phys + PAGE_SIZE) (virt + PAGE_SIZE) s1
   }"

definition malloc_init :: "'a heap_scheme \<Rightarrow> (u32 \<times> 'a heap_scheme) option" where
  "malloc_init s = do {
     let s0 = s\<lparr>total_malloc_pages := 256\<rparr>;
     (phys, s1) \<leftarrow> allocate_blocks (total_malloc_pages s0) s0;
     let virt = malloc_virt_address s1;
     let s2 = s1\<lparr>malloc_phys_address := phys, heap_end := virt + total_malloc_pages s1 * PAGE_SIZE,
                 malloc_head := virt\<rparr>;
     s3 \<leftarrow> map_heap_pages (unat (total_malloc_pages s2)) phys virt s2;
     let h = malloc_head s3;
     let m = put_address h (h + NODE_SIZE) (put_prev h 0 (put_next h 0 (put_free h True
               (put_size h (total_malloc_pages s3 * PAGE_SIZE - NODE_SIZE) (mem s3)))));
     Some (node_address m h, s3\<lparr>mem := m\<rparr>)
   }"

text \<open>The walk to the last node; it does not end on a cyclic list.\<close>

partial_function (option) last_node :: "memory \<Rightarrow> u32 \<Rightarrow> u32 option" where
  "last_node m n = (if node_next m n \<noteq> 0 then last_node m (node_next m n) else Some n)"

definition pages_for :: "u32 \<Rightarrow> u32" where
  "pages_for sz = (if 0 < sz mod PAGE_SIZE then sz div PAGE_SIZE + 1 else sz div PAGE_SIZE)"

definition malloc_more_pages :: "u32 \<Rightarrow> 'a heap_scheme \<Rightarrow> (u32 \<times> 'a heap_scheme) option" where
  "malloc_more_pages sz s = do {
     let s0 = s\<lparr>total_malloc_pages := pages_for sz\<rparr>;
     (phys, s1) \<leftarrow> allocate_blocks (total_malloc_pages s0) s0;
     let new_node = heap_end s1;
     let s2 = s1\<lparr>malloc_phys_address := phys, heap_end := new_node + total_malloc_pages s1 * PAGE_SIZE\<rparr>;
     last \<leftarrow> last_node (mem s2) (malloc_head s2);
     s3 \<leftarrow> map_heap_pages (unat (total_malloc_pages s2)) phys new_node s2;
     let m = put_address new_node new_node (put_prev new_node last (put_next new_node 0
               (put_free new_node False (put_size new_node (total_malloc_pages s3 * PAGE_SIZE - NODE_SIZE) (mem s3)))));
     let m1 = put_next last new_node m;
     Some (node_address m1 new_node, s3\<lparr>mem := m1\<rparr>)
   }"

definition calloc_more_pages :: "u32 \<Rightarrow> 'a heap_scheme \<Rightarrow> (u32 \<times> 'a heap_scheme) option" where
  "calloc_more_pages sz s = do {
     (ptr, s1) \<leftarrow> malloc_more_pages sz s;
     Some (ptr, s1\<lparr>mem := memset (mem s1) ptr 0 (total_malloc_pages s1 * PAGE_SIZE)\<rparr>)
   }"

text \<open>\<open>split_memory\<close> is the sequence of stores of \<open>split_blocks\<close>, in its order.\<close>

definition split_memory :: "u32 \<Rightarrow> u32 \<Rightarrow> memory \<Rightarrow> memory" where
  "split_memory n sz m0 =
     (let old = n + sz + NODE_SIZE;
          m1 = put_next old (node_next m0 n) m0;
          m2 = put_prev old n m1;
          m3 = put_size old (node_size m2 n - sz - NODE_SIZE) m2;
          m4 = put_free old True m3;
          m5 = put_address old (old + NODE_SIZE) m4;
          m6 = put_next n old m5;
          m7 = put_prev n (load32 m6 (n + 12)) m6;
          m8 = put_size n sz m7;
          m9 = put_free n False m8
      in put_address n (n + NODE_SIZE) m9)"

definition split_blocks :: "u32 \<Rightarrow> u32 \<Rightarrow> 'a heap_scheme \<Rightarrow> (u32 \<times> 'a heap_scheme) option" where
  "split_blocks n sz s =
     (if node_free (mem s) n then
        if sz + NODE_SIZE \<le> node_size (mem s) n then
          let m = split_memory n sz (mem s) in Some (node_address m n, s\<lparr>mem := m\<rparr>)
        else malloc_more_pages sz s
      else Some (0, s))"

partial_function (option) merge_loop :: "u32 \<Rightarrow> memory \<Rightarrow> memory option" where
  "merge_loop t m =
     (if t \<noteq> 0 \<and> node_next m t \<noteq> 0 then
        let m1 = (if node_free m t \<and> node_free m (node_next m t) then
                    let m0 = put_size t (node_size m t + (node_size m (node_next m t) + NODE_SIZE)) m
                    in put_next t (node_next m0 (node_next m0 t)) m0
                  else m)
        in merge_loop (node_next m1 t) m1
      else Some m)"

definition merge_free_blocks :: "'a heap_scheme \<Rightarrow> 'a heap_scheme option" where
  "merge_free_blocks s = map_option (\<lambda>m. s\<lparr>mem := m\<rparr>) (merge_loop (malloc_head s) (mem s))"

text \<open>The first loop of \<open>malloc_next\<close>; the inner \<open>None\<close> says that it ran off the list.\<close>

partial_function (option) malloc_search ::
    "u32 \<Rightarrow> u32 \<Rightarrow> 'a heap_scheme \<Rightarrow> (u32 option \<times> 'a heap_scheme) option" where
  "malloc_search sz t s =
     (if t \<noteq> 0 then
        if node_free (mem s) t \<and> node_size (mem s) t = sz + NODE_SIZE then
          Some (Some (t + NODE_SIZE), s\<lparr>mem := put_free t False (mem s)\<rparr>)
        else if node_free (mem s) t \<and> sz + NODE_SIZE < node_size (mem s) t then
          map_option (\<lambda>(p, s1). (Some p, s1)) (split_blocks t sz s)
        else malloc_search sz (node_next (mem s) t) s
      else Some (None, s))"

text \<open>Its second loop, which looks for the new node among all nodes but the last.\<close>

partial_function (option) malloc_retry ::
    "u32 \<Rightarrow> u32 \<Rightarrow> u32 \<Rightarrow> 'a heap_scheme \<Rightarrow> (u32 \<times> 'a heap_scheme) option" where
  "malloc_retry ptr sz cur s =
     (if node_next (mem s) cur \<noteq> 0 then
        if node_address (mem s) cur = ptr then split_blocks cur sz s
        else malloc_retry ptr sz (node_next (mem s) cur) s
      else Some (ptr, s))"

definition malloc_next :: "u32 \<Rightarrow> 'a heap_scheme \<Rightarrow> (u32 \<times> 'a heap_scheme) option" where
  "malloc_next sz s =
     (if sz = 0 then Some (0, s)
      else do {
        (r, s1) \<leftarrow> malloc_search sz (malloc_head s) s;
        case r of Some p \<Rightarrow> Some (p, s1)
        | None \<Rightarrow> do {
            (ptr, s2) \<leftarrow> malloc_more_pages sz s1;
            if sz < PAGE_SIZE then malloc_retry ptr sz (malloc_head s2) s2
            else Some (ptr, s2)
          }
      })"

text \<open>The loop of \<open>malloc_free\<close> never advances its pointer.\<close>

partial_function (option) malloc_free :: "u32 \<Rightarrow> 'a heap_scheme \<Rightarrow> 'a heap_scheme option" where
  "malloc_free ptr s =
     (let t = malloc_head s
      in if node_next (mem s) t \<noteq> 0 then
           if node_address (mem s) t = ptr then
             merge_free_blocks (s\<lparr>mem := put_free t True (mem s)\<rparr>)
           else malloc_free ptr s
         else Some s)"

section \<open>Reading and writing nodes\<close>

named_theorems node_facts \<open>what a read of a node field yields after a write to a node field\<close>

lemma apart_fields:
  assumes "apart 20 a b" and "k \<le> 16" and "l \<le> 16"
  shows "apart 4 (a + k) (b + l)"
proof -
  have *: "4 \<le> (b + l) - (a + k)"
    if "20 \<le> b - a" "20 \<le> a - b" "k \<le> 16" "l \<le> 16" for a b k l :: u32
  proof -
    define d where "d = b - a"
    have "a - b = - d" by (simp add: d_def)
    moreover have "d \<noteq> 0" using that(1) by (auto simp: d_def)
    ultimately have "unat (a - b) = 2 ^ 32 - unat d"
      using unat_sub_if_size [of 0 d] by (simp add: word_size unat_eq_zero)
    then have d: "20 \<le> unat d" "unat d \<le> 2 ^ 32 - 20"
      using that(1,2) unat_less_32 [of d] by (simp_all add: d_def word_le_nat_alt del: unat_less_32)
    have kl: "unat k \<le> 16" "unat l \<le> 16" using that(3,4) by (simp_all add: word_le_nat_alt)
    have dl: "unat (d + l) = unat d + unat l" using d kl by (simp add: unat_add_no_wrap)
    then have "unat (d + l - k) = unat d + unat l - unat k"
      using d kl by (simp add: unat_sub word_le_nat_alt)
    then have "4 \<le> d + l - k" using d kl by (simp add: word_le_nat_alt)
    then show ?thesis by (simp add: d_def algebra_simps)
  qed
  from assms * [of b a k l] * [of a b l k] show ?thesis by (simp add: apart_def)
qed

lemma field_apart:
  assumes "apart 4 k l"
  shows "apart 4 (a + k) (a + l)"
  using assms by (simp add: apart_def)

lemma byte_store32:
  assumes "4 \<le> b - a"
  shows "store32 m a v b = m b"
  by (rule store32_other [OF assms])

lemma load32_byte:
  assumes "apart 4 a b" and "k < 4"
  shows "load32 (m(b + k := w)) a = load32 m a"
proof (rule load32_cong)
  fix j :: u32 assume j: "j < 4"
  have "a + j \<noteq> b + k"
  proof
    assume "a + j = b + k"
    then have "b - a = j - k" "a - b = k - j" by (simp_all add: algebra_simps)
    moreover have "j - k < 4 \<or> k - j < 4"
      using j assms(2) by (cases "k \<le> j") (auto simp: word_less_nat_alt word_le_nat_alt unat_sub)
    ultimately show False using assms(1) by (auto simp: apart_def)
  qed
  then show "(m(b + k := w)) (a + j) = m (a + j)" by simp
qed

lemma load32_put_free:
  "apart 20 n a \<Longrightarrow> l \<le> 16 \<Longrightarrow> load32 (put_free n b m) (a + l) = load32 m (a + l)"
  "apart 4 4 l \<Longrightarrow> load32 (put_free n b m) (n + l) = load32 m (n + l)"
  using apart_fields [of n a 4 l] load32_byte [of "a + l" "n + 4" 0 m "if b then 1 else 0"]
    field_apart [of 4 l n] load32_byte [of "n + l" "n + 4" 0 m "if b then 1 else 0"]
  by (simp_all add: put_free_def apart_sym [of 4])

lemma node_free_store32:
  "apart 20 n a \<Longrightarrow> k \<le> 16 \<Longrightarrow> node_free (store32 m (n + k) v) a = node_free m a"
  "4 \<le> 4 - k \<Longrightarrow> node_free (store32 m (n + k) v) n = node_free m n"
  using apart_fields [of n a k 4] store32_other [of "a + 4" "n + k" m v] store32_other [of "n + 4" "n + k" m v]
  by (simp_all add: node_free_def apart_def)

lemma apart_not_self: "apart 20 a b \<Longrightarrow> a + 4 \<noteq> b + 4"
  by (auto simp: apart_def)

lemma put_other_node [node_facts]:
  assumes "apart 20 n a"
  shows "node_size (put_size n v m) a = node_size m a" "node_free (put_size n v m) a = node_free m a"
    "node_next (put_size n v m) a = node_next m a" "node_address (put_size n v m) a = node_address m a"
    "node_size (put_free n b m) a = node_size m a" "node_free (put_free n b m) a = node_free m a"
    "node_next (put_free n b m) a = node_next m a" "node_address (put_free n b m) a = node_address m a"
    "node_size (put_next n v m) a = node_size m a" "node_free (put_next n v m) a = node_free m a"
    "node_next (put_next n v m) a = node_next m a" "node_address (put_next n v m) a = node_address m a"
    "node_size (put_prev n v m) a = node_size m a" "node_free (put_prev n v m) a = node_free m a"
    "node_next (put_prev n v m) a = node_next m a" "node_address (put_prev n v m) a = node_address m a"
    "node_size (put_address n v m) a = node_size m a" "node_free (put_address n v m) a = node_free m a"
    "node_next (put_address n v m) a = node_next m a" "node_address (put_address n v m) a = node_address m a"
proof -
  note ap = apart_fields [OF assms]
  note [simp] = node_size_def node_next_def node_address_def put_size_def put_next_def put_prev_def put_address_def
  note st = mem32.load_store_apart [OF ap]
  note fr = node_free_store32(1) [OF assms]
  note pf = load32_put_free(1) [OF assms]
  show "node_size (put_size n v m) a = node_size m a" using st [of 0 0] by simp
  show "node_free (put_size n v m) a = node_free m a" using fr [of 0] by simp
  show "node_next (put_size n v m) a = node_next m a" using st [of 0 8] by simp
  show "node_address (put_size n v m) a = node_address m a" using st [of 0 16] by simp
  show "node_size (put_free n b m) a = node_size m a" using pf [of 0] by simp
  show "node_free (put_free n b m) a = node_free m a"
    using apart_not_self [OF assms] by (simp add: node_free_def put_free_def)
  show "node_next (put_free n b m) a = node_next m a" "node_address (put_free n b m) a = node_address m a"
    using pf [of 8] pf [of 16] by simp_all
  show "node_size (put_next n v m) a = node_size m a" "node_free (put_next n v m) a = node_free m a"
    "node_next (put_next n v m) a = node_next m a" "node_address (put_next n v m) a = node_address m a"
    using st [of 8 0] fr [of 8] st [of 8 8] st [of 8 16] by simp_all
  show "node_size (put_prev n v m) a = node_size m a" "node_free (put_prev n v m) a = node_free m a"
    "node_next (put_prev n v m) a = node_next m a" "node_address (put_prev n v m) a = node_address m a"
    using st [of 12 0] fr [of 12] st [of 12 8] st [of 12 16] by simp_all
  show "node_size (put_address n v m) a = node_size m a" "node_free (put_address n v m) a = node_free m a"
    "node_next (put_address n v m) a = node_next m a" "node_address (put_address n v m) a = node_address m a"
    using st [of 16 0] fr [of 16] st [of 16 8] st [of 16 16] by simp_all
qed

lemma put_same_node [node_facts]:
  "node_size (put_size n v m) n = v" "node_free (put_size n v m) n = node_free m n"
  "node_next (put_size n v m) n = node_next m n" "node_address (put_size n v m) n = node_address m n"
  "node_size (put_free n b m) n = node_size m n" "node_free (put_free n b m) n = b"
  "node_next (put_free n b m) n = node_next m n" "node_address (put_free n b m) n = node_address m n"
  "node_size (put_next n v m) n = node_size m n" "node_free (put_next n v m) n = node_free m n"
  "node_next (put_next n v m) n = v" "node_address (put_next n v m) n = node_address m n"
  "node_size (put_prev n v m) n = node_size m n" "node_free (put_prev n v m) n = node_free m n"
  "node_next (put_prev n v m) n = node_next m n" "node_address (put_prev n v m) n = node_address m n"
  "node_size (put_address n v m) n = node_size m n" "node_free (put_address n v m) n = node_free m n"
  "node_next (put_address n v m) n = node_next m n" "node_address (put_address n v m) n = v"
proof -
  have ap: "apart 4 (n + k) (n + l)" if "apart 4 k l" for k l :: u32 using field_apart [OF that] .
  note [simp] = node_size_def node_next_def node_address_def put_size_def put_next_def put_prev_def put_address_def
    mem32.load_store_same apart_def
  note st = mem32.load_store_apart [OF ap]
  note pf = load32_put_free(2) [of _ n b m]
  note fr = node_free_store32(2)
  show "node_size (put_size n v m) n = v" "node_next (put_next n v m) n = v" "node_address (put_address n v m) n = v"
    by simp_all
  show "node_free (put_free n b m) n = b" by (simp add: node_free_def put_free_def)
  show "node_free (put_size n v m) n = node_free m n" "node_free (put_next n v m) n = node_free m n"
    "node_free (put_prev n v m) n = node_free m n" "node_free (put_address n v m) n = node_free m n"
    using fr [of 0] fr [of 8] fr [of 12] fr [of 16] by simp_all
  show "node_size (put_free n b m) n = node_size m n" "node_next (put_free n b m) n = node_next m n"
    "node_address (put_free n b m) n = node_address m n"
    using pf [of 0] pf [of 8] pf [of 16] by simp_all
  show "node_next (put_size n v m) n = node_next m n" "node_address (put_size n v m) n = node_address m n"
    using st [of 0 8] st [of 0 16] by simp_all
  show "node_size (put_next n v m) n = node_size m n" "node_address (put_next n v m) n = node_address m n"
    using st [of 8 0] st [of 8 16] by simp_all
  show "node_size (put_prev n v m) n = node_size m n" "node_next (put_prev n v m) n = node_next m n"
    "node_address (put_prev n v m) n = node_address m n"
    using st [of 12 0] st [of 12 8] st [of 12 16] by simp_all
  show "node_size (put_address n v m) n = node_size m n" "node_next (put_address n v m) n = node_next m n"
    using st [of 16 0] st [of 16 8] by simp_all
qed

lemma put_outside [node_facts]:
  assumes "20 \<le> x - n"
  shows "put_size n v m x = m x" "put_free n b m x = m x" "put_next n v m x = m x"
    "put_prev n v m x = m x" "put_address n v m x = m x"
proof -
  have *: "4 \<le> x - (n + k)" if "k \<le> 16" for k
  proof -
    have "k \<le> x - n" using assms that by (simp add: word_le_nat_alt)
    then have "unat ((x - n) - k) = unat (x - n) - unat k" by (rule unat_sub)
    then have "4 \<le> (x - n) - k" using assms that by (simp add: word_le_nat_alt)
    then show ?thesis by (simp add: algebra_simps)
  qed
  have "x \<noteq> n + 4" using assms by auto
  then show "put_size n v m x = m x" "put_free n b m x = m x" "put_next n v m x = m x"
    "put_prev n v m x = m x" "put_address n v m x = m x"
    using * [of 0] * [of 8] * [of 12] * [of 16]
    by (simp_all add: put_size_def put_free_def put_next_def put_prev_def put_address_def store32_other)
qed

section \<open>The heap as a list of blocks\<close>

text \<open>
  The nodes of a list without gaps: each block starts where the one before it ends, and the
  last one ends at \<open>e\<close>. Only the fields the allocator's decisions depend on are constrained.
\<close>

definition node_end :: "u32 \<Rightarrow> nat \<Rightarrow> u32" where
  "node_end a n = a + of_nat (20 + n)"

fun heap_chain :: "memory \<Rightarrow> u32 \<Rightarrow> nat \<Rightarrow> (nat \<times> bool) list \<Rightarrow> bool" where
  "heap_chain m a e [] = False"
| "heap_chain m a e ((n, f) # ns) =
     (a \<noteq> 0 \<and> unat (node_size m a) = n \<and> node_free m a = f \<and>
      (if ns = [] then node_next m a = 0 \<and> unat a + 20 + n = e \<and> e < 2 ^ 32
       else node_next m a = node_end a n \<and> unat a + 20 + n < 2 ^ 32 \<and>
         heap_chain m (node_end a n) e ns))"

lemma unat_node_end: "unat a + 20 + n < 2 ^ 32 \<Longrightarrow> unat (node_end a n) = unat a + 20 + n"
proof -
  assume n: "unat a + 20 + n < 2 ^ 32"
  then have "unat (of_nat (20 + n) :: u32) = 20 + n" by (intro unat_of_nat32) simp
  then show ?thesis using n unfolding node_end_def by (subst unat_add_no_wrap) simp_all
qed

lemma heap_chain_bounds: "heap_chain m a e ns \<Longrightarrow> 0 < unat a \<and> unat a + 20 \<le> e \<and> e < 2 ^ 32"
proof (induction ns arbitrary: a)
  case (Cons nf ns)
  obtain n f where nf: "nf = (n, f)" by (cases nf)
  have pos: "0 < unat a" using Cons.prems by (auto simp: nf unat_gt_0)
  show ?case
  proof (cases "ns = []")
    case True
    then show ?thesis using Cons.prems pos by (auto simp: nf)
  next
    case False
    then have "unat a + 20 + n < 2 ^ 32" "heap_chain m (node_end a n) e ns" using Cons.prems by (simp_all add: nf)
    then show ?thesis using Cons.IH [of "node_end a n"] unat_node_end [of a n] pos by simp
  qed
qed simp

lemma load32_agree:
  assumes "\<And>x. unat a \<le> unat x \<Longrightarrow> unat x < unat a + 20 \<Longrightarrow> m' x = m x" and "unat a + 20 \<le> 2 ^ 32" and "k \<le> 16"
  shows "load32 m' (a + k) = load32 m (a + k)"
proof (rule load32_cong)
  fix j :: u32 assume "j < 4"
  then have kj: "unat k \<le> 16" "unat j < 4" using assms(3) by (simp_all add: word_le_nat_alt word_less_nat_alt)
  have "unat (k + j) = unat k + unat j" using kj by (simp add: unat_add_no_wrap)
  then have "unat (a + (k + j)) = unat a + (unat k + unat j)"
    using assms(2) kj by (simp add: unat_add_no_wrap)
  then show "m' (a + k + j) = m (a + k + j)" using assms(1) [of "a + (k + j)"] kj by (simp add: add.assoc)
qed

lemma node_agree:
  assumes "\<And>x. unat a \<le> unat x \<Longrightarrow> unat x < unat a + 20 \<Longrightarrow> m' x = m x" and "unat a + 20 \<le> 2 ^ 32"
  shows "node_size m' a = node_size m a" "node_free m' a = node_free m a"
    "node_next m' a = node_next m a" "node_address m' a = node_address m a"
proof -
  have "unat (a + 4) = unat a + 4" using assms(2) by (simp add: unat_add_no_wrap)
  then have "m' (a + 4) = m (a + 4)" using assms(1) [of "a + 4"] by simp
  then show "node_size m' a = node_size m a" "node_free m' a = node_free m a"
    "node_next m' a = node_next m a" "node_address m' a = node_address m a"
    using load32_agree [OF assms, where k = 0] load32_agree [OF assms, where k = 8] load32_agree [OF assms, where k = 16]
    by (simp_all add: node_size_def node_free_def node_next_def node_address_def)
qed

lemma heap_chain_agree:
  "heap_chain m a e ns \<Longrightarrow> (\<And>x. unat a \<le> unat x \<Longrightarrow> unat x < e \<Longrightarrow> m' x = m x) \<Longrightarrow> heap_chain m' a e ns"
proof (induction ns arbitrary: a)
  case (Cons nf ns)
  obtain n f where nf: "nf = (n, f)" by (cases nf)
  have e: "unat a + 20 \<le> e" "e < 2 ^ 32" using heap_chain_bounds [OF Cons.prems(1)] by simp_all
  have same: "node_size m' a = node_size m a" "node_free m' a = node_free m a" "node_next m' a = node_next m a"
    using node_agree [of a m' m] Cons.prems(2) e by simp_all
  show ?case
  proof (cases "ns = []")
    case True
    then show ?thesis using Cons.prems(1) same by (simp add: nf)
  next
    case False
    then have "unat (node_end a n) = unat a + 20 + n"
      using Cons.prems(1) unat_node_end [of a n] by (simp add: nf)
    then have "heap_chain m' (node_end a n) e ns"
      using False Cons.prems by (intro Cons.IH) (simp_all add: nf)
    then show ?thesis using False Cons.prems(1) same by (simp add: nf)
  qed
qed simp

text \<open>The addresses of the bytes handed out, for a list of blocks that starts at \<open>a\<close>.\<close>

fun live :: "nat \<Rightarrow> (nat \<times> bool) list \<Rightarrow> nat set" where
  "live a [] = {}"
| "live a ((n, f) # ns) = (if f then {} else {a + 20..<a + 20 + n}) \<union> live (a + 20 + n) ns"

lemma live_above: "x \<in> live a ns \<Longrightarrow> a + 20 \<le> x"
  by (induction ns arbitrary: a) (force split: if_splits)+

text \<open>
  The allocation on the list: the first free block that is exactly \<open>k + 20\<close> bytes, handed
  out as it is, or larger, split in two. The result is an offset from the head's address.
\<close>

fun fit :: "nat \<Rightarrow> (nat \<times> bool) list \<Rightarrow> (nat \<times> (nat \<times> bool) list) option" where
  "fit k [] = None"
| "fit k ((n, f) # ns) =
     (if f \<and> n = k + 20 then Some (20, (n, False) # ns)
      else if f \<and> k + 20 < n then Some (20, (k, False) # (n - k - 20, True) # ns)
      else map_option (\<lambda>(off, ns'). (20 + n + off, (n, f) # ns')) (fit k ns))"

lemma fit_live:
  "fit k ns = Some (off, ns') \<Longrightarrow>
     live a ns \<subseteq> live a ns' \<and> {a + off..<a + off + k} \<subseteq> live a ns' \<and> {a + off..<a + off + k} \<inter> live a ns = {}"
proof (induction ns arbitrary: a off ns')
  case (Cons nf ns)
  obtain n f where nf: "nf = (n, f)" by (cases nf)
  consider "f \<and> n = k + 20" | "f \<and> k + 20 < n" | "\<not> (f \<and> n = k + 20)" "\<not> (f \<and> k + 20 < n)" by blast
  then show ?case
  proof cases
    case 1
    then have r: "off = 20" "ns' = (n, False) # ns" "f" using Cons.prems by (auto simp: nf)
    have "x \<notin> live (a + 20 + n) ns" if "x < a + 20 + n" for x using live_above [of x] that by force
    then show ?thesis using 1 by (auto simp: nf r)
  next
    case 2
    then have r: "off = 20" "ns' = (k, False) # (n - k - 20, True) # ns" "f" using Cons.prems by (auto simp: nf)
    have e: "live (20 + (a + n)) ns = live (a + 20 + n) ns" by (simp only: ac_simps)
    have "x \<notin> live (a + 20 + n) ns" if "x < a + 20 + n" for x using live_above [of x] that by force
    then show ?thesis using 2 e by (auto simp: nf r)
  next
    case 3
    then obtain o1 n1 where r: "fit k ns = Some (o1, n1)" "off = 20 + n + o1" "ns' = (n, f) # n1"
      using Cons.prems by (auto simp: nf)
    have low: "20 \<le> o1" using r(1) by (induction ns arbitrary: o1 n1) (auto split: if_splits)
    show ?thesis using Cons.IH [OF r(1), of "a + 20 + n"] low by (auto simp: nf r add.assoc)
  qed
qed simp

lemma apart_node_end:
  assumes "k + 40 \<le> 2 ^ 32"
  shows "apart 20 a (node_end a k)" and "apart 20 (node_end a k) a"
proof -
  define d :: u32 where "d = of_nat (20 + k)"
  have u: "unat d = 20 + k" unfolding d_def by (intro unat_of_nat32) (use assms in simp)
  then have "d \<noteq> 0" by auto
  then have "unat (- d) = 2 ^ 32 - unat d"
    using unat_sub_if_size [of 0 d] by (simp add: word_size unat_eq_zero)
  moreover have "node_end a k - a = d" "a - node_end a k = - d" by (simp_all add: node_end_def d_def)
  ultimately show "apart 20 a (node_end a k)" using u assms by (simp add: apart_def word_le_nat_alt)
  then show "apart 20 (node_end a k) a" by (simp add: apart_sym)
qed

lemma node_end_word: "node_end a (unat sz) = a + sz + NODE_SIZE"
  by (simp add: node_end_def NODE_SIZE_def algebra_simps)

lemma split_memory_effect:
  assumes "unat sz + 20 < unat (node_size m a)" and "unat a + 20 + unat (node_size m a) < 2 ^ 32"
  defines "old \<equiv> node_end a (unat sz)" and "m' \<equiv> split_memory a sz m"
  shows "node_size m' a = sz" "\<not> node_free m' a" "node_next m' a = old" "node_address m' a = a + NODE_SIZE"
    and "unat (node_size m' old) = unat (node_size m a) - unat sz - 20" "node_free m' old"
    and "node_next m' old = node_next m a"
    and "20 \<le> x - a \<Longrightarrow> 20 \<le> x - old \<Longrightarrow> m' x = m x"
proof -
  have ap: "apart 20 a old" "apart 20 old a"
    using apart_node_end [of "unat sz" a] assms(1,2) by (simp_all add: old_def)
  have old: "a + sz + NODE_SIZE = old" by (simp add: old_def node_end_word)
  show "node_size m' a = sz" "\<not> node_free m' a" "node_next m' a = old" "node_address m' a = a + NODE_SIZE"
    and "node_free m' old" "node_next m' old = node_next m a"
    by (simp_all add: m'_def split_memory_def Let_def old node_facts ap)
  have "node_size m' old = node_size m a - sz - NODE_SIZE"
    by (simp add: m'_def split_memory_def Let_def old node_facts ap)
  moreover have "unat (node_size m a - sz) = unat (node_size m a) - unat sz"
    using assms(1) by (simp add: unat_sub word_le_nat_alt)
  ultimately show "unat (node_size m' old) = unat (node_size m a) - unat sz - 20"
    using assms(1) by (simp add: unat_sub word_le_nat_alt NODE_SIZE_def)
  show "20 \<le> x - a \<Longrightarrow> 20 \<le> x - old \<Longrightarrow> m' x = m x"
    by (simp add: m'_def split_memory_def Let_def old node_facts)
qed

text \<open>An address that is not within 20 bytes of \<open>a\<close>, as natural numbers.\<close>

lemma outside_node:
  fixes x a :: u32
  assumes "unat a + 20 \<le> 2 ^ 32" and "unat x < unat a \<or> unat a + 20 \<le> unat x"
  shows "20 \<le> x - a"
proof -
  have "unat (x - a) = (if unat a \<le> unat x then unat x - unat a else 2 ^ 32 + unat x - unat a)"
    using unat_sub_if_size [of x a] by (cases "unat a \<le> unat x") (simp_all add: word_size)
  moreover have "20 \<le> (if unat a \<le> unat x then unat x - unat a else 2 ^ 32 + unat x - unat a)"
    using assms by auto
  ultimately show ?thesis by (simp add: word_le_nat_alt)
qed

text \<open>The memory after a change that only touches free bytes and headers of the list.\<close>

definition heap_frame :: "memory \<Rightarrow> u32 \<Rightarrow> nat \<Rightarrow> (nat \<times> bool) list \<Rightarrow> memory \<Rightarrow> bool" where
  "heap_frame m a e ns m' \<longleftrightarrow>
     (\<forall>x. m' x \<noteq> m x \<longrightarrow> unat a \<le> unat x \<and> unat x < e \<and> unat x \<notin> live (unat a) ns)"

lemma heap_frameD: "heap_frame m a e ns m' \<Longrightarrow> unat x \<in> live (unat a) ns \<Longrightarrow> m' x = m x"
  by (auto simp: heap_frame_def)

lemma heap_chain_step:
  assumes "heap_chain m a e ((n, f) # ns)" and "ns \<noteq> []"
  shows "heap_chain m (node_end a n) e ns" and "unat (node_end a n) = unat a + 20 + n"
    and "node_next m a = node_end a n" and "node_end a n \<noteq> 0"
  using assms unat_node_end [of a n] heap_chain_bounds [of m "node_end a n" e ns]
  by (auto simp: unat_gt_0)

text \<open>A change behind the first node, in the terms of the whole list.\<close>

lemma heap_chain_cons:
  assumes c: "heap_chain m a e ((n, f) # ns)" "ns \<noteq> []"
    and c': "heap_chain m' (node_end a n) e ns'" and fr: "heap_frame m (node_end a n) e ns m'"
  shows "heap_chain m' a e ((n, f) # ns')" and "heap_frame m a e ((n, f) # ns) m'"
proof -
  note st = heap_chain_step [OF c]
  have e: "unat a + 20 \<le> e" "e < 2 ^ 32" using heap_chain_bounds [OF c(1)] by simp_all
  have "m' x = m x" if "unat x < unat a + 20 + n" for x
    using fr that st(2) by (auto simp: heap_frame_def)
  then have same: "node_size m' a = node_size m a" "node_free m' a = node_free m a" "node_next m' a = node_next m a"
    using node_agree [of a m' m] e by simp_all
  have "ns' \<noteq> []" using c' by auto
  then show "heap_chain m' a e ((n, f) # ns')" using c c' same by simp
  show "heap_frame m a e ((n, f) # ns) m'"
    using fr st(2) by (auto simp: heap_frame_def split: if_splits)
qed

text \<open>Changing the first node without moving what follows it.\<close>

lemma heap_chain_rest:
  assumes c: "heap_chain m a e ((n, f) # ns)" and "ns \<noteq> []"
    and agree: "\<And>x. unat a + 20 + n \<le> unat x \<Longrightarrow> unat x < e \<Longrightarrow> m' x = m x"
  shows "heap_chain m' (node_end a n) e ns"
proof (rule heap_chain_agree)
  note st = heap_chain_step [OF c assms(2)]
  show "heap_chain m (node_end a n) e ns" by (rule st(1))
  show "m' x = m x" if "unat (node_end a n) \<le> unat x" "unat x < e" for x
    using agree that st(2) by simp
qed

lemma heap_chain_end:
  assumes c: "heap_chain m a e ((n, f) # ns)"
  shows "unat a + 20 + n \<le> e" and "e < 2 ^ 32"
proof -
  show "e < 2 ^ 32" using heap_chain_bounds [OF c] by simp
  show "unat a + 20 + n \<le> e"
  proof (cases "ns = []")
    case True
    then show ?thesis using c by simp
  next
    case False
    note st = heap_chain_step [OF c False]
    show ?thesis using st(2) heap_chain_bounds [OF st(1)] by simp
  qed
qed

lemmas heap_chain_Cons = heap_chain.simps(2)
declare heap_chain.simps(2) [simp del]

lemma exact_fit_chain:
  assumes c: "heap_chain m a e ((n, f) # ns)"
  shows "heap_chain (put_free a b m) a e ((n, b) # ns)" and "f \<or> n = 0 \<Longrightarrow> heap_frame m a e ((n, f) # ns) (put_free a b m)"
proof -
  have e: "unat a + 20 \<le> e" "e < 2 ^ 32" using heap_chain_bounds [OF c] by simp_all
  have out: "put_free a b m x = m x" if "unat x < unat a \<or> unat a + 20 \<le> unat x" for x
    using that outside_node [of a x] e by (simp add: node_facts)
  show "heap_chain (put_free a b m) a e ((n, b) # ns)"
  proof (cases "ns = []")
    case False
    have "heap_chain (put_free a b m) (node_end a n) e ns"
      using heap_chain_rest [OF c False, of "put_free a b m"] out by simp
    then show ?thesis using c False by (simp add: node_facts heap_chain_Cons)
  qed (use c in \<open>simp add: node_facts heap_chain_Cons\<close>)
  show "heap_frame m a e ((n, f) # ns) (put_free a b m)" if "f \<or> n = 0"
    unfolding heap_frame_def
  proof (intro allI impI)
    fix x assume "put_free a b m x \<noteq> m x"
    then have x: "unat a \<le> unat x" "unat x < unat a + 20" using out [of x] by force+
    then show "unat a \<le> unat x \<and> unat x < e \<and> unat x \<notin> live (unat a) ((n, f) # ns)"
      using e live_above [of "unat x" "unat a" "(n, f) # ns"] by auto
  qed
qed

lemma split_chain:
  assumes c: "heap_chain m a e ((n, True) # ns)" and k: "unat sz + 20 < n"
  shows "heap_chain (split_memory a sz m) a e ((unat sz, False) # (n - unat sz - 20, True) # ns)"
    and "heap_frame m a e ((n, True) # ns) (split_memory a sz m)"
proof -
  let ?m = "split_memory a sz m" and ?old = "node_end a (unat sz)"
  have n: "unat (node_size m a) = n" "a \<noteq> 0" using c by (simp_all add: heap_chain_Cons)
  note bound = heap_chain_end [OF c]
  then have lt: "unat a + 20 + unat (node_size m a) < 2 ^ 32" by (simp add: n)
  note sm = split_memory_effect [OF k [folded n(1)] lt]
  have old: "unat ?old = unat a + 20 + unat sz" using unat_node_end [of a "unat sz"] k bound by simp
  then have "?old \<noteq> 0" by auto
  have ends: "node_end ?old (n - unat sz - 20) = node_end a n"
    using k bound old unat_node_end [of a n] unat_node_end [of ?old "n - unat sz - 20"]
    by (simp add: word_unat_eq_iff)
  have out: "?m x = m x" if "unat x < unat a \<or> unat a + 20 + n \<le> unat x" for x
    using that sm(8) [of x] outside_node [of a x] outside_node [of ?old x] old k bound by auto
  have "heap_chain ?m ?old e ((n - unat sz - 20, True) # ns)"
  proof (cases "ns = []")
    case True
    have "unat a + 20 + n = e" "node_next m a = 0" using c True by (simp_all add: heap_chain_Cons)
    then show ?thesis using True sm \<open>?old \<noteq> 0\<close> old k bound n by (simp add: heap_chain_Cons)
  next
    case False
    then have "heap_chain ?m (node_end a n) e ns" using heap_chain_rest [OF c False] out by simp
    then show ?thesis using False heap_chain_step [OF c False] sm \<open>?old \<noteq> 0\<close> old k bound n ends
      by (simp add: heap_chain_Cons)
  qed
  then show "heap_chain ?m a e ((unat sz, False) # (n - unat sz - 20, True) # ns)"
    using sm n k bound by (simp add: heap_chain_Cons [of _ a])
  show "heap_frame m a e ((n, True) # ns) ?m"
    unfolding heap_frame_def
  proof (intro allI impI)
    fix x assume "?m x \<noteq> m x"
    then have "unat a \<le> unat x" "unat x < unat a + 20 + n" using out [of x] by force+
    then show "unat a \<le> unat x \<and> unat x < e \<and> unat x \<notin> live (unat a) ((n, True) # ns)"
      using bound live_above [of "unat x" "unat a + 20 + n" ns] by auto
  qed
qed

lemma malloc_search_fit:
  assumes "heap_chain (mem s) a e ns" and sz: "unat sz + 20 < 2 ^ 32"
  shows "case fit (unat sz) ns of
      None \<Rightarrow> malloc_search sz a s = Some (None, s)
    | Some (off, ns') \<Rightarrow> \<exists>p m'. malloc_search sz a s = Some (Some p, s\<lparr>mem := m'\<rparr>) \<and>
        unat p = unat a + off \<and> heap_chain m' a e ns' \<and> heap_frame (mem s) a e ns m'"
  using assms(1)
proof (induction ns arbitrary: a)
  case (Cons nf ns)
  obtain n f where nf: "nf = (n, f)" by (cases nf)
  note c = Cons.prems [unfolded nf]
  have bounds: "unat a + 20 \<le> e" "e < 2 ^ 32" using heap_chain_bounds [OF c] by simp_all
  have a: "a \<noteq> 0" "unat (node_size (mem s) a) = n" "node_free (mem s) a = f"
    using c by (simp_all add: heap_chain_Cons)
  have k: "unat (sz + NODE_SIZE) = unat sz + 20" using sz by (simp add: NODE_SIZE_def unat_add_no_wrap)
  have p: "unat (a + NODE_SIZE) = unat a + 20" using bounds by (simp add: NODE_SIZE_def unat_add_no_wrap)
  have tests: "node_size (mem s) a = sz + NODE_SIZE \<longleftrightarrow> n = unat sz + 20"
    "sz + NODE_SIZE < node_size (mem s) a \<longleftrightarrow> unat sz + 20 < n"
    using a(2) k by (auto simp: word_unat_eq_iff word_less_nat_alt)
  consider "f" "n = unat sz + 20" | "f" "unat sz + 20 < n" | "\<not> (f \<and> n = unat sz + 20)" "\<not> (f \<and> unat sz + 20 < n)"
    by blast
  then show ?case
  proof cases
    case 1
    then have "malloc_search sz a s = Some (Some (a + NODE_SIZE), s\<lparr>mem := put_free a False (mem s)\<rparr>)"
      using a tests by (subst malloc_search.simps) simp
    then show ?thesis using exact_fit_chain [OF c, of False] 1 p by (auto simp: nf)
  next
    case 2
    then have "sz + NODE_SIZE \<le> node_size (mem s) a" using tests by simp
    then have "malloc_search sz a s = Some (Some (node_address (split_memory a sz (mem s)) a), s\<lparr>mem := split_memory a sz (mem s)\<rparr>)"
      using a tests 2 by (subst malloc_search.simps) (simp add: split_blocks_def Let_def)
    moreover have "node_address (split_memory a sz (mem s)) a = a + NODE_SIZE"
      by (simp add: split_memory_def Let_def node_facts)
    ultimately show ?thesis using split_chain [of "mem s" a e n ns sz] c 2 p by (simp add: nf) blast
  next
    case 3
    then have step: "malloc_search sz a s = malloc_search sz (node_next (mem s) a) s"
      using a tests by (subst malloc_search.simps) auto
    show ?thesis
    proof (cases "ns = []")
      case True
      then have "node_next (mem s) a = 0" using c by (simp add: heap_chain_Cons)
      then have "malloc_search sz a s = Some (None, s)" using step by (simp add: malloc_search.simps [of sz 0])
      then show ?thesis using 3 True by (simp add: nf)
    next
      case False
      note st = heap_chain_step [OF c False]
      have step': "malloc_search sz a s = malloc_search sz (node_end a n) s" using step st by simp
      have IH: "case fit (unat sz) ns of
          None \<Rightarrow> malloc_search sz (node_end a n) s = Some (None, s)
        | Some (off, ns') \<Rightarrow> \<exists>p m'. malloc_search sz (node_end a n) s = Some (Some p, s\<lparr>mem := m'\<rparr>) \<and>
            unat p = unat (node_end a n) + off \<and> heap_chain m' (node_end a n) e ns' \<and>
            heap_frame (mem s) (node_end a n) e ns m'"
        by (rule Cons.IH [OF st(1)])
      show ?thesis
      proof (cases "fit (unat sz) ns")
        case None
        then show ?thesis using IH 3 step' by (auto simp: nf)
      next
        case (Some r)
        obtain off ns' where r: "r = (off, ns')" by (cases r)
        obtain p m' where "malloc_search sz (node_end a n) s = Some (Some p, s\<lparr>mem := m'\<rparr>)"
          "unat p = unat (node_end a n) + off" "heap_chain m' (node_end a n) e ns'"
          "heap_frame (mem s) (node_end a n) e ns m'"
          using IH Some r by auto
        then show ?thesis using Some r 3 step' st(2) heap_chain_cons [OF c False] by (auto simp: nf)
      qed
    qed
  qed
qed simp

section \<open>Allocation\<close>

lemma malloc_next_search:
  assumes "sz \<noteq> 0" and "malloc_search sz (malloc_head s) s = Some (Some p, s')"
  shows "malloc_next sz s = Some (p, s')"
  using assms by (simp add: malloc_next_def)

text \<open>
  C9. On a well-formed heap with a fitting free block, \<open>malloc_next\<close> takes the first one, as
  \<open>fit\<close> says. The block it returns overlaps nothing handed out before, belongs to the bytes
  handed out afterwards, no live byte changes, and the list stays well formed.
\<close>

theorem malloc_next_fit:
  assumes chain: "heap_chain (mem s) (malloc_head s) e ns"
    and sz: "sz \<noteq> 0" "unat sz + 20 < 2 ^ 32" and fit: "fit (unat sz) ns = Some (off, ns')"
  shows "\<exists>p m'. malloc_next sz s = Some (p, s\<lparr>mem := m'\<rparr>) \<and> unat p = unat (malloc_head s) + off \<and>
    heap_chain m' (malloc_head s) e ns' \<and>
    {unat p..<unat p + unat sz} \<inter> live (unat (malloc_head s)) ns = {} \<and>
    {unat p..<unat p + unat sz} \<union> live (unat (malloc_head s)) ns \<subseteq> live (unat (malloc_head s)) ns' \<and>
    (\<forall>x. unat x \<in> live (unat (malloc_head s)) ns \<longrightarrow> m' x = mem s x)"
proof -
  obtain p m' where r: "malloc_search sz (malloc_head s) s = Some (Some p, s\<lparr>mem := m'\<rparr>)"
    and p: "unat p = unat (malloc_head s) + off" and c: "heap_chain m' (malloc_head s) e ns'"
    and fr: "heap_frame (mem s) (malloc_head s) e ns m'"
    using malloc_search_fit [OF chain sz(2)] fit by auto
  show ?thesis
    using malloc_next_search [OF sz(1) r] p c fit_live [OF fit, of "unat (malloc_head s)"] heap_frameD [OF fr]
    by (intro exI [of _ p] exI [of _ m']) auto
qed

section \<open>Merging and freeing\<close>

text \<open>
  One pass of \<open>merge_free_blocks\<close>: after two blocks are joined the walk goes on behind the
  joined block, so three free blocks in a row end up as two.
\<close>

fun merged :: "(nat \<times> bool) list \<Rightarrow> (nat \<times> bool) list" where
  "merged [] = []"
| "merged [b] = [b]"
| "merged ((n, f) # (k, g) # ns) =
     (if f \<and> g then (n + 20 + k, True) # merged ns else (n, f) # merged ((k, g) # ns))"

lemma merged_Nil [simp]: "merged ns = [] \<longleftrightarrow> ns = []"
  by (induction ns rule: merged.induct) auto

lemma live_merged: "live a (merged ns) = live a ns"
proof (induction ns arbitrary: a rule: merged.induct)
  case (3 n f k g ns)
  have "live (a + 20 + (n + 20 + k)) (merged ns) = live (a + 20 + n + 20 + k) ns" if "f \<and> g"
    using "3.IH"(1) [OF that, of "a + 20 + n + 20 + k"] by (simp only: ac_simps)
  then show ?case using "3.IH"(2) by auto
qed simp_all

lemma heap_frame_refl: "heap_frame m a e ns m"
  by (simp add: heap_frame_def)

lemma heap_frame_trans:
  "heap_frame m a e ns m1 \<Longrightarrow> heap_frame m1 a e ns' m' \<Longrightarrow> live (unat a) ns' = live (unat a) ns \<Longrightarrow>
     heap_frame m a e ns m'"
  unfolding heap_frame_def by metis

text \<open>Joining the first two blocks.\<close>

definition join_memory :: "u32 \<Rightarrow> memory \<Rightarrow> memory" where
  "join_memory t m =
     (let m0 = put_size t (node_size m t + (node_size m (node_next m t) + NODE_SIZE)) m
      in put_next t (node_next m0 (node_next m0 t)) m0)"

lemma join_chain:
  assumes c: "heap_chain m a e ((n, True) # (k, True) # ns)"
  shows "heap_chain (join_memory a m) a e ((n + 20 + k, True) # ns)"
    and "heap_frame m a e ((n, True) # (k, True) # ns) (join_memory a m)"
    and "node_next (join_memory a m) a = (if ns = [] then 0 else node_end a (n + 20 + k))"
proof -
  let ?m = "join_memory a m" and ?b = "node_end a n"
  note st = heap_chain_step [OF c, simplified]
  note end2 = heap_chain_end [OF st(1)]
  have e: "unat a + 20 + n + 20 + k \<le> e" "e < 2 ^ 32" using end2 st(2) by simp_all
  have ap: "apart 20 a ?b" using e by (intro apart_node_end) simp
  have n: "a \<noteq> 0" "unat (node_size m a) = n" "node_free m a" "unat (node_size m ?b) = k"
    using c st(1) by (simp_all add: heap_chain_Cons)
  have ends: "node_end ?b k = node_end a (n + 20 + k)"
    using st(2) e unat_node_end [of ?b k] unat_node_end [of a "n + 20 + k"] by (simp add: word_unat_eq_iff)
  have next2: "node_next m ?b = (if ns = [] then 0 else node_end a (n + 20 + k))"
    using st(1) ends by (simp add: heap_chain_Cons)
  have "node_next ?m a = node_next m ?b" using st(3) by (simp add: join_memory_def Let_def node_facts ap)
  then show next': "node_next ?m a = (if ns = [] then 0 else node_end a (n + 20 + k))" using next2 by simp
  have "node_size ?m a = node_size m a + (node_size m ?b + NODE_SIZE)"
    using st(3) by (simp add: join_memory_def Let_def node_facts)
  moreover have "unat (node_size m ?b + NODE_SIZE) = k + 20"
    using n e by (simp add: NODE_SIZE_def unat_add_no_wrap)
  ultimately have size': "unat (node_size ?m a) = n + 20 + k"
    using n e by (simp add: unat_add_no_wrap)
  have free': "node_free ?m a" using n by (simp add: join_memory_def Let_def node_facts)
  have out: "?m x = m x" if "unat x < unat a \<or> unat a + 20 \<le> unat x" for x
    using that outside_node [of a x] e by (simp add: join_memory_def Let_def node_facts)
  show "heap_chain ?m a e ((n + 20 + k, True) # ns)"
  proof (cases "ns = []")
    case True
    then have "unat ?b + 20 + k = e" using st(1) by (simp add: heap_chain_Cons)
    then show ?thesis using True n size' free' next' st(2) e by (simp add: heap_chain_Cons)
  next
    case False
    then have "heap_chain ?m (node_end ?b k) e ns"
      using heap_chain_rest [OF st(1) False] out st(2) by simp
    then show ?thesis using False n size' free' next' ends e by (simp add: heap_chain_Cons)
  qed
  show "heap_frame m a e ((n, True) # (k, True) # ns) ?m"
    unfolding heap_frame_def
  proof (intro allI impI)
    fix x assume "?m x \<noteq> m x"
    then have "unat a \<le> unat x" "unat x < unat a + 20" using out [of x] by force+
    then show "unat a \<le> unat x \<and> unat x < e \<and> unat x \<notin> live (unat a) ((n, True) # (k, True) # ns)"
      using e live_above [of "unat x" "unat a" "(n, True) # (k, True) # ns"] by auto
  qed
qed

lemma merge_loop_merged:
  "heap_chain m a e ns \<Longrightarrow>
     \<exists>m'. merge_loop a m = Some m' \<and> heap_chain m' a e (merged ns) \<and> heap_frame m a e ns m'"
proof (induction ns arbitrary: a m rule: merged.induct)
  case 1
  then show ?case by simp
next
  case (2 b)
  then show ?case
    by (cases b) (auto simp: heap_chain_Cons merge_loop.simps [of a] heap_frame_refl)
next
  case (3 n f k g ns)
  note st = heap_chain_step [OF "3.prems", simplified]
  have a: "a \<noteq> 0" "node_free m a = f" "node_free m (node_end a n) = g"
    using "3.prems" st(1) by (simp_all add: heap_chain_Cons)
  show ?case
  proof (cases "f \<and> g")
    case True
    then have c: "heap_chain m a e ((n, True) # (k, True) # ns)" using "3.prems" by simp
    note j = join_chain [OF c]
    have step: "merge_loop a m = merge_loop (node_next (join_memory a m) a) (join_memory a m)"
      using a st True by (subst merge_loop.simps) (simp add: join_memory_def Let_def)
    show ?thesis
    proof (cases "ns = []")
      case True
      then have "merge_loop a m = Some (join_memory a m)" using step j(3) by (simp add: merge_loop.simps [of 0])
      then show ?thesis using True j \<open>f \<and> g\<close> by simp
    next
      case False
      note st' = heap_chain_step [OF j(1) False]
      obtain m' where m': "merge_loop (node_end a (n + 20 + k)) (join_memory a m) = Some m'"
          "heap_chain m' (node_end a (n + 20 + k)) e (merged ns)"
          "heap_frame (join_memory a m) (node_end a (n + 20 + k)) e ns m'"
        using "3.IH"(1) [OF True st'(1)] by blast
      note cons = heap_chain_cons [OF j(1) False m'(2,3)]
      have "live (unat a) ((n + 20 + k, True) # ns) = live (unat a) ((n, True) # (k, True) # ns)"
        by (simp add: ac_simps)
      then have "heap_frame m a e ((n, True) # (k, True) # ns) m'"
        using heap_frame_trans [OF j(2) cons(2)] by simp
      then show ?thesis using step j(3) False m'(1) cons(1) True by simp
    qed
  next
    case False
    obtain m' where m': "merge_loop (node_end a n) m = Some m'"
        "heap_chain m' (node_end a n) e (merged ((k, g) # ns))"
        "heap_frame m (node_end a n) e ((k, g) # ns) m'"
      using "3.IH"(2) [OF False st(1)] by blast
    have "merge_loop a m = merge_loop (node_end a n) m"
      using a st False by (subst merge_loop.simps) auto
    then show ?thesis using m' heap_chain_cons [OF "3.prems" _ m'(2,3)] False by auto
  qed
qed

lemma malloc_free_returns_only:
  assumes "malloc_free ptr s = Some s'"
  shows "node_next (mem s) (malloc_head s) = 0 \<or> node_address (mem s) (malloc_head s) = ptr"
  by (rule malloc_free.raw_induct [OF _ assms,
        of "\<lambda>p t t'. node_next (mem t) (malloc_head t) = 0 \<or> node_address (mem t) (malloc_head t) = p"])
    (auto simp: Let_def split: if_splits)

lemma malloc_free_stuck:
  assumes "node_next (mem s) (malloc_head s) \<noteq> 0" and "node_address (mem s) (malloc_head s) \<noteq> ptr"
  shows "malloc_free ptr s = None"
  using assms malloc_free_returns_only by (cases "malloc_free ptr s") auto

text \<open>
  \<open>malloc_free\<close> on a well-formed heap: it does nothing when there is one block; it frees
  the first block and merges when that is the one asked for; for any other pointer it never
  returns, because its loop does not advance.
\<close>

lemma malloc_free_cases:
  assumes chain: "heap_chain (mem s) (malloc_head s) e ((n, f) # ns)"
  shows "if ns = [] then malloc_free ptr s = Some s
    else if node_address (mem s) (malloc_head s) \<noteq> ptr then malloc_free ptr s = None
    else \<exists>m'. malloc_free ptr s = Some (s\<lparr>mem := m'\<rparr>) \<and>
      heap_chain m' (malloc_head s) e (merged ((n, True) # ns)) \<and>
      (\<forall>x. unat x \<in> live (unat (malloc_head s)) ((n, True) # ns) \<longrightarrow> m' x = mem s x)"
proof (cases "ns = []")
  case True
  then have "node_next (mem s) (malloc_head s) = 0" using chain by (simp add: heap_chain_Cons)
  then show ?thesis using True by (subst malloc_free.simps) (simp add: Let_def)
next
  case False
  note st = heap_chain_step [OF chain False]
  show ?thesis
  proof (cases "node_address (mem s) (malloc_head s) = ptr")
    case True
    let ?m = "put_free (malloc_head s) True (mem s)"
    have c: "heap_chain ?m (malloc_head s) e ((n, True) # ns)" using exact_fit_chain(1) [OF chain] .
    obtain m' where m': "merge_loop (malloc_head s) ?m = Some m'"
        "heap_chain m' (malloc_head s) e (merged ((n, True) # ns))"
        "heap_frame ?m (malloc_head s) e ((n, True) # ns) m'"
      using merge_loop_merged [OF c] by blast
    have e: "unat (malloc_head s) + 20 + n \<le> e" "e < 2 ^ 32" using heap_chain_end [OF chain] by simp_all
    have "?m x = mem s x" if "unat x \<in> live (unat (malloc_head s)) ((n, True) # ns)" for x
    proof -
      have "unat (malloc_head s) + 20 \<le> unat x" using live_above [OF that] .
      then show ?thesis using outside_node [of "malloc_head s" x] e by (simp add: node_facts)
    qed
    then have "m' x = mem s x" if "unat x \<in> live (unat (malloc_head s)) ((n, True) # ns)" for x
      using that heap_frameD [OF m'(3) that] by simp
    moreover have "malloc_free ptr s = Some (s\<lparr>mem := m'\<rparr>)"
      using True st m'(1) by (subst malloc_free.simps) (simp add: merge_free_blocks_def Let_def)
    ultimately show ?thesis using True False m'(2) by (simp only: if_False not_False_eq_True simp_thms) blast
  next
    case no: False
    then show ?thesis using False malloc_free_stuck [OF _ no] st by simp
  qed
qed

section \<open>More pages\<close>

lemma map_heap_pages_returns:
  "alloc_ok s \<Longrightarrow> \<exists>s'. map_heap_pages k phys virt s = Some s' \<and> vm_step_ok s s'"
proof (induction k arbitrary: phys virt s)
  case (Suc k)
  obtain r s1 where s1: "map_address (directory s) phys virt (PTE_PRESENT OR PTE_WRITABLE OR PTE_USER) s = Some (r, s1)"
      "vm_step_ok s s1"
    using vm_run_returns [OF Suc.prems] unfolding map_address_def by blast
  then have "alloc_ok s1" by (simp add: vm_step_ok_def)
  then obtain s2 where "map_heap_pages k (phys + PAGE_SIZE) (virt + PAGE_SIZE) s1 = Some s2" "vm_step_ok s1 s2"
    using Suc.IH by blast
  then show ?case using s1 vm_step_ok_trans by auto
qed (simp add: vm_step_ok_refl)

lemma last_node_chain:
  "heap_chain m a e ns \<Longrightarrow> \<exists>l. last_node m a = Some l \<and> unat a \<le> unat l \<and> unat l + 20 \<le> e"
proof (induction ns arbitrary: a)
  case (Cons nf ns)
  obtain n f where nf: "nf = (n, f)" by (cases nf)
  note c = Cons.prems [unfolded nf]
  show ?case
  proof (cases "ns = []")
    case True
    then have "node_next m a = 0" using c by (simp add: heap_chain_Cons)
    then show ?thesis using heap_chain_bounds [OF c] by (subst last_node.simps) simp
  next
    case False
    note st = heap_chain_step [OF c False]
    show ?thesis using Cons.IH [OF st(1)] st by (subst last_node.simps) auto
  qed
qed simp

lemma heap_more:
  assumes "vmm.more s' = vmm.more s"
  shows "malloc_head s' = malloc_head s \<and> heap_end s' = heap_end s \<and> total_malloc_pages s' = total_malloc_pages s"
  using assms by (cases s; cases s') simp

lemma alloc_ok_heap_update [simp]:
  "alloc_ok (s\<lparr>total_malloc_pages := n\<rparr>) = alloc_ok s"
  "alloc_ok (s\<lparr>malloc_phys_address := p, heap_end := h\<rparr>) = alloc_ok s"
  by (simp_all add: alloc_ok_def block_used_def)

lemma malloc_more_pages_result:
  assumes ok: "alloc_ok s" and chain: "heap_chain (mem s) (malloc_head s) e ns"
    and room: "e \<le> unat (heap_end s) \<or> unat (heap_end s) + 20 \<le> unat (malloc_head s)"
      "unat (heap_end s) + 20 \<le> 2 ^ 32"
  shows "\<exists>s'. malloc_more_pages sz s = Some (heap_end s, s') \<and>
    node_size (mem s') (heap_end s) = pages_for sz * PAGE_SIZE - NODE_SIZE \<and>
    \<not> node_free (mem s') (heap_end s) \<and> node_next (mem s') (heap_end s) = 0 \<and>
    heap_end s' = heap_end s + pages_for sz * PAGE_SIZE \<and> malloc_head s' = malloc_head s"
proof -
  let ?s0 = "s\<lparr>total_malloc_pages := pages_for sz\<rparr>"
  obtain phys s1 where s1: "allocate_blocks (pages_for sz) ?s0 = Some (phys, s1)"
    using pmm_alloc.alloc_total [of ?s0 "pages_for sz"] ok by auto
  have fr1: "mem s1 = mem s" "vmm.more s1 = vmm.more ?s0" "alloc_ok s1"
    using allocate_blocks_vmm_frame [OF s1] pmm_alloc.alloc_inv [OF _ s1] ok by simp_all
  note h1 = heap_more [OF fr1(2)]
  let ?s2 = "s1\<lparr>malloc_phys_address := phys, heap_end := heap_end s1 + total_malloc_pages s1 * PAGE_SIZE\<rparr>"
  obtain l where l: "last_node (mem s) (malloc_head s) = Some l" "unat (malloc_head s) \<le> unat l" "unat l + 20 \<le> e"
    using last_node_chain [OF chain] by blast
  have e: "e < 2 ^ 32" using heap_chain_bounds [OF chain] by simp
  have "alloc_ok ?s2" using fr1 by simp
  then obtain s3 where s3: "map_heap_pages (unat (pages_for sz)) phys (heap_end s) ?s2 = Some s3" "vm_step_ok ?s2 s3"
    using map_heap_pages_returns by blast
  have h3: "malloc_head s3 = malloc_head s" "heap_end s3 = heap_end s + pages_for sz * PAGE_SIZE"
      "total_malloc_pages s3 = pages_for sz"
    using s3(2) h1 heap_more [of s3 ?s2] by (simp_all add: vm_step_ok_def)
  have "20 \<le> heap_end s - l" "20 \<le> l - heap_end s"
    using l(2,3) room e by (auto intro!: outside_node)
  then have ap: "apart 20 l (heap_end s)" by (simp add: apart_def)
  show ?thesis
    using s1 l(1) s3(1) h1 h3 fr1 unfolding malloc_more_pages_def
    by (simp add: Let_def node_facts ap)
qed

text \<open>
  When no free block fits and a page or more is asked for, \<open>malloc_next\<close> returns the
  address of the new node itself: the caller's first 20 bytes are the node's header.
\<close>

lemma malloc_next_header:
  assumes ok: "alloc_ok s" and chain: "heap_chain (mem s) (malloc_head s) e ns"
    and room: "e \<le> unat (heap_end s) \<or> unat (heap_end s) + 20 \<le> unat (malloc_head s)"
      "unat (heap_end s) + 20 \<le> 2 ^ 32"
    and sz: "PAGE_SIZE \<le> sz" "unat sz + 20 < 2 ^ 32" and none: "fit (unat sz) ns = None"
  shows "\<exists>s'. malloc_next sz s = Some (heap_end s, s') \<and>
    node_size (mem s') (heap_end s) = pages_for sz * PAGE_SIZE - NODE_SIZE \<and>
    \<not> node_free (mem s') (heap_end s) \<and> heap_end s' = heap_end s + pages_for sz * PAGE_SIZE"
proof -
  have "malloc_search sz (malloc_head s) s = Some (None, s)"
    using malloc_search_fit [OF chain sz(2)] none by simp
  moreover have "sz \<noteq> 0" "\<not> sz < PAGE_SIZE" using sz(1) by (auto simp: PAGE_SIZE_def)
  ultimately show ?thesis
    using malloc_more_pages_result [OF ok chain room, of sz] by (auto simp: malloc_next_def)
qed

section \<open>A concrete heap\<close>

text \<open>One free block of one page at 0x400000, as \<open>init_malloc\<close> leaves it, with a heap end behind it.\<close>

definition example_heap :: heap where
  "example_heap = \<lparr>memory_map = (\<lambda>i. if i = 0 then 7 else 0), max_blocks = 64, used_blocks = 3,
     mem = put_size 0x400000 4076 (put_free 0x400000 True (\<lambda>_. 0)),
     directory = 0x1000, cr3 = 0x1000, paging = True,
     malloc_head = 0x400000, malloc_virt_address = 0x400000, malloc_phys_address = 0x3000,
     total_malloc_pages = 1, malloc_start = 0x400000, heap_end = 0x401000\<rparr>"

lemma example_heap_fields [simp]:
  "malloc_head example_heap = 0x400000" "heap_end example_heap = 0x401000"
  by (simp_all add: example_heap_def)

lemma example_heap_chain: "heap_chain (mem example_heap) 0x400000 0x401000 [(4076, True)]"
proof -
  have "node_next (\<lambda>_. 0) 0x400000 = 0" by (simp add: node_next_def load32_def)
  then show ?thesis by (simp add: example_heap_def heap_chain_Cons node_facts)
qed

lemma example_heap_ok: "alloc_ok example_heap"
  using example_vmm_used [of 0] by (simp add: alloc_ok_def block_used_def example_heap_def example_vmm_def)

theorem malloc_next_fit_witness:
  "\<exists>p m'. malloc_next 100 example_heap = Some (p, example_heap\<lparr>mem := m'\<rparr>) \<and> unat p = 0x400014 \<and>
     heap_chain m' 0x400000 0x401000 [(100, False), (3956, True)]"
proof -
  have "fit (unat (100 :: u32)) [(4076, True)] = Some (20, [(100, False), (3956, True)])" by simp
  moreover have "heap_chain (mem example_heap) (malloc_head example_heap) 0x401000 [(4076, True)]"
    using example_heap_chain by simp
  ultimately obtain p m' where "malloc_next 100 example_heap = Some (p, example_heap\<lparr>mem := m'\<rparr>)"
    "unat p = unat (malloc_head example_heap) + 20"
    "heap_chain m' (malloc_head example_heap) 0x401000 [(100, False), (3956, True)]"
    using malloc_next_fit [of example_heap "0x401000" "[(4076, True)]" 100 20] by auto
  then show ?thesis by auto
qed

lemma malloc_free_cases_witness:
  "malloc_free 0x500000 (example_heap\<lparr>mem := split_memory 0x400000 100 (mem example_heap)\<rparr>) = None"
proof -
  let ?m = "split_memory 0x400000 100 (mem example_heap)"
  have chain: "heap_chain ?m 0x400000 0x401000 [(100, False), (3956, True)]"
    using split_chain(1) [OF example_heap_chain, of 100] by simp
  have "node_address ?m 0x400000 = 0x400014"
    by (simp add: split_memory_def Let_def node_facts NODE_SIZE_def)
  then show ?thesis
    using malloc_free_cases [of "example_heap\<lparr>mem := ?m\<rparr>" "0x401000" 100 False "[(3956, True)]" "0x500000"] chain
    by simp
qed

lemma malloc_next_header_witness:
  "\<exists>s'. malloc_next 8192 example_heap = Some (0x401000, s') \<and> node_size (mem s') 0x401000 = 8172"
proof -
  have none: "fit (unat (8192 :: u32)) [(4076, True)] = None" by simp
  have "pages_for 8192 * PAGE_SIZE - NODE_SIZE = 8172"
    by (simp add: pages_for_def PAGE_SIZE_def NODE_SIZE_def)
  moreover have "PAGE_SIZE \<le> 8192" by (simp add: PAGE_SIZE_def)
  ultimately show ?thesis
    using malloc_next_header [OF example_heap_ok, of "0x401000" "[(4076, True)]" 8192] example_heap_chain none
    by auto
qed

end
