(* ===== verification/Ports.thy ===== *)
theory Ports
  imports Prelude
begin

text \<open>
  The x86 I/O ports, \<^verbatim>\<open>kernel/x86.h\<close>. The state of the devices is the log of everything
  the kernel did to the ports; what a read returns is a function of that log, the device,
  which is a parameter of every definition that reads a port.
\<close>

datatype io_event = Outb u16 u8 | Outw u16 u16 | Inb u16 | Inw u16

record ports =
  io_log :: "io_event list"

definition outb :: "u16 \<Rightarrow> u8 \<Rightarrow> 'a ports_scheme \<Rightarrow> 'a ports_scheme" where
  "outb p v s = s\<lparr>io_log := io_log s @ [Outb p v]\<rparr>"

definition outw :: "u16 \<Rightarrow> u16 \<Rightarrow> 'a ports_scheme \<Rightarrow> 'a ports_scheme" where
  "outw p v s = s\<lparr>io_log := io_log s @ [Outw p v]\<rparr>"

type_synonym device = "io_event list \<Rightarrow> u16 \<Rightarrow> u16"

definition inb :: "device \<Rightarrow> u16 \<Rightarrow> 'a ports_scheme \<Rightarrow> u8 \<times> 'a ports_scheme" where
  "inb dev p s = (ucast (dev (io_log s) p), s\<lparr>io_log := io_log s @ [Inb p]\<rparr>)"

definition inw :: "device \<Rightarrow> u16 \<Rightarrow> 'a ports_scheme \<Rightarrow> u16 \<times> 'a ports_scheme" where
  "inw dev p s = (dev (io_log s) p, s\<lparr>io_log := io_log s @ [Inw p]\<rparr>)"

lemma io_log_outb [simp]: "io_log (outb p v s) = io_log s @ [Outb p v]"
  by (simp add: outb_def)

lemma io_log_outw [simp]: "io_log (outw p v s) = io_log s @ [Outw p v]"
  by (simp add: outw_def)

end
