(* ===== verification/Console.thy ===== *)
theory Console
  imports Ports CString
begin

text \<open>
  The text console of \<^verbatim>\<open>kernel/stdio.c\<close>: an 80 by 25 screen in memory at 0xB8000 (a
  character and a colour byte per cell), the cursor globals, and the formatted output built
  on \<open>putc\<close>.

  \<open>cell\<close> reads a screen position; the lemmas say how each operation changes the cells.
\<close>

section \<open>State\<close>

record console = ports +
  cmem :: memory
  g_ScreenX :: int
  g_ScreenY :: int

definition VGA_WIDTH :: u32 where "VGA_WIDTH = 80"
definition VGA_HEIGHT :: u32 where "VGA_HEIGHT = 25"
definition DEFAULT_COLOR :: u8 where "DEFAULT_COLOR = 7"

section \<open>Screen operations\<close>

text \<open>The address of \<^verbatim>\<open>VGA_PTR[2 * (y * VGA_WIDTH + x)]\<close>; the product is unsigned.\<close>

definition vga :: "int \<Rightarrow> int \<Rightarrow> u32" where
  "vga x y = 0xB8000 + 2 * (of_int y * VGA_WIDTH + of_int x)"

definition putchar :: "int \<Rightarrow> int \<Rightarrow> u8 \<Rightarrow> 'a console_scheme \<Rightarrow> 'a console_scheme" where
  "putchar x y c s = s\<lparr>cmem := (cmem s)(vga x y := c)\<rparr>"

definition putcolor :: "int \<Rightarrow> int \<Rightarrow> u8 \<Rightarrow> 'a console_scheme \<Rightarrow> 'a console_scheme" where
  "putcolor x y c s = s\<lparr>cmem := (cmem s)(vga x y + 1 := c)\<rparr>"

definition getchr :: "int \<Rightarrow> int \<Rightarrow> 'a console_scheme \<Rightarrow> u8" where
  "getchr x y s = cmem s (vga x y)"

definition getcolor :: "int \<Rightarrow> int \<Rightarrow> 'a console_scheme \<Rightarrow> u8" where
  "getcolor x y s = cmem s (vga x y + 1)"

definition setcursor :: "int \<Rightarrow> int \<Rightarrow> 'a console_scheme \<Rightarrow> 'a console_scheme" where
  "setcursor x y s =
     (let pos = of_int y * VGA_WIDTH + of_int x
      in outb 0x3D5 (ucast (drop_bit 8 pos AND 0xFF)) (outb 0x3D4 0x0E
           (outb 0x3D5 (ucast (pos AND 0xFF)) (outb 0x3D4 0x0F s))))"

text \<open>
  The loops of \<open>scrollback\<close> compare a signed counter with an unsigned bound, so they do not
  run at all when \<open>lines\<close> is negative, nor the second one when it exceeds the height.
\<close>

definition columns :: "int list" where
  "columns = map int [0..<80]"

definition scrollback :: "int \<Rightarrow> 'a console_scheme \<Rightarrow> 'a console_scheme" where
  "scrollback lines s =
     (let s1 = fold (\<lambda>y. fold (\<lambda>x s. let s' = putchar x (y - lines) (getchr x y s) s
                                       in putcolor x (y - lines) (getcolor x y s') s') columns)
                 (if 0 \<le> lines then map int [nat lines..<25] else []) s;
          s2 = fold (\<lambda>y. fold (\<lambda>x s. putcolor x y DEFAULT_COLOR (putchar x y 0 s)) columns)
                 (if 0 \<le> lines \<and> lines \<le> 25 then map int [nat (25 - lines)..<25] else []) s1
      in s2\<lparr>g_ScreenY := g_ScreenY s2 - lines\<rparr>)"

definition clrscr :: "'a console_scheme \<Rightarrow> 'a console_scheme" where
  "clrscr s =
     (let s1 = fold (\<lambda>y. fold (\<lambda>x s. putcolor x y DEFAULT_COLOR (putchar x y 0 s)) columns) (map int [0..<25]) s;
          s2 = s1\<lparr>g_ScreenX := 0, g_ScreenY := 0\<rparr>
      in setcursor (g_ScreenX s2) (g_ScreenY s2) s2)"

text \<open>
  \<open>putc\<close>: what follows the switch, the characters that are no tab, and the tab, whose loop
  prints spaces by calling \<open>putc\<close> and looks at the moving cursor in its bound. The cursor is
  never negative, so \<open>mod\<close> is the C remainder.
\<close>

definition putc_end :: "'a console_scheme \<Rightarrow> 'a console_scheme" where
  "putc_end s =
     (let s1 = (if VGA_WIDTH \<le> of_int (g_ScreenX s) then s\<lparr>g_ScreenY := g_ScreenY s + 1, g_ScreenX := 0\<rparr> else s);
          s2 = (if VGA_HEIGHT \<le> of_int (g_ScreenY s1) then scrollback 1 s1 else s1)
      in setcursor (g_ScreenX s2) (g_ScreenY s2) s2)"

definition putc_char :: "u8 \<Rightarrow> 'a console_scheme \<Rightarrow> 'a console_scheme" where
  "putc_char c s =
     putc_end
       (if c = 10 then s\<lparr>g_ScreenX := 0, g_ScreenY := g_ScreenY s + 1\<rparr>
        else if c = 13 then s\<lparr>g_ScreenX := 0\<rparr>
        else if c = 8 then
          let s1 = (if 0 < g_ScreenX s then s\<lparr>g_ScreenX := g_ScreenX s - 1\<rparr>
                    else if 0 < g_ScreenY s then s\<lparr>g_ScreenY := g_ScreenY s - 1, g_ScreenX := 79\<rparr>
                    else s)
          in putchar (g_ScreenX s1) (g_ScreenY s1) 32 s1
        else
          let s1 = putchar (g_ScreenX s) (g_ScreenY s) c s
          in s1\<lparr>g_ScreenX := g_ScreenX s1 + 1\<rparr>)"

function tab_loop :: "int \<Rightarrow> 'a console_scheme \<Rightarrow> 'a console_scheme" where
  "tab_loop i s = (if i < 4 - g_ScreenX s mod 4 then tab_loop (i + 1) (putc_char 32 s) else s)"
  by auto
termination
proof (relation "measure (\<lambda>(i, s). nat (4 - i))")
  fix i :: int and s :: "'a console_scheme"
  have "0 \<le> g_ScreenX s mod 4" by simp
  then show "i < 4 - g_ScreenX s mod 4 \<Longrightarrow> ((i + 1, putc_char 32 s), i, s) \<in> measure (\<lambda>(i, s). nat (4 - i))"
    by (simp only: in_measure prod.case)
qed simp

declare tab_loop.simps [simp del]

definition putc :: "u8 \<Rightarrow> 'a console_scheme \<Rightarrow> 'a console_scheme" where
  "putc c s = (if c = 9 then putc_end (tab_loop 0 s) else putc_char c s)"

partial_function (option) puts :: "u32 \<Rightarrow> 'a console_scheme \<Rightarrow> 'a console_scheme option" where
  "puts str s = (if cmem s str \<noteq> 0 then puts (str + 1) (putc (cmem s str) s) else Some s)"

section \<open>Cells\<close>

definition on_screen :: "int \<Rightarrow> int \<Rightarrow> bool" where
  "on_screen x y \<longleftrightarrow> 0 \<le> x \<and> x < 80 \<and> 0 \<le> y \<and> y < 25"

definition cell :: "'a console_scheme \<Rightarrow> int \<Rightarrow> int \<Rightarrow> u8 \<times> u8" where
  "cell s x y = (getchr x y s, getcolor x y s)"

definition in_vga :: "u32 \<Rightarrow> bool" where
  "in_vga a \<longleftrightarrow> 0xB8000 \<le> a \<and> a < 0xB8FA0"

lemma unat_vga: "on_screen x y \<Longrightarrow> unat (vga x y) = 0xB8000 + nat (2 * (y * 80 + x))"
proof -
  assume on: "on_screen x y"
  have "vga x y = of_nat (0xB8000 + nat (2 * (y * 80 + x)))"
    using on by (simp add: vga_def VGA_WIDTH_def on_screen_def)
  moreover have "0xB8000 + nat (2 * (y * 80 + x)) < 4294967296"
    using on by (auto simp: on_screen_def nat_less_iff)
  ultimately show ?thesis by (metis unat_of_nat32)
qed

lemma unat_vga1: "on_screen x y \<Longrightarrow> unat (vga x y + 1) = 0xB8001 + nat (2 * (y * 80 + x))"
  using unat_vga [of x y] by (subst unat_add_no_wrap) (auto simp: on_screen_def nat_less_iff)

lemma even_not_odd: "753664 + 2 * a \<noteq> 753665 + 2 * (b :: nat)"
  by presburger

lemma vga_inj:
  assumes "on_screen x y" and "on_screen x' y'"
  shows "vga x y = vga x' y' \<longleftrightarrow> x = x' \<and> y = y'" and "vga x y + 1 = vga x' y' + 1 \<longleftrightarrow> x = x' \<and> y = y'"
    and "vga x y \<noteq> vga x' y' + 1" and "vga x y + 1 \<noteq> vga x' y'"
proof -
  note u = unat_vga [OF assms(1)] unat_vga [OF assms(2)] unat_vga1 [OF assms(1)] unat_vga1 [OF assms(2)]
  have r: "0 \<le> x" "x < 80" "0 \<le> y" "0 \<le> x'" "x' < 80" "0 \<le> y'" using assms by (auto simp: on_screen_def)
  have eq: "vga x y = vga x' y' \<longleftrightarrow> y * 80 + x = y' * 80 + x'"
    using u r by (simp add: word_unat_eq_iff eq_nat_nat_iff) linarith
  have "y * 80 + x = y' * 80 + x' \<longleftrightarrow> x = x' \<and> y = y'"
  proof
    assume e: "y * 80 + x = y' * 80 + x'"
    have "(y * 80 + x) div 80 = y" "(y' * 80 + x') div 80 = y'" using r by simp_all
    with e show "x = x' \<and> y = y'" by simp
  qed simp
  with eq show "vga x y = vga x' y' \<longleftrightarrow> x = x' \<and> y = y'" by simp
  then show "vga x y + 1 = vga x' y' + 1 \<longleftrightarrow> x = x' \<and> y = y'" by simp
  have "nat (2 * (y * 80 + x)) = 2 * nat (y * 80 + x)" "nat (2 * (y' * 80 + x')) = 2 * nat (y' * 80 + x')"
    by (simp_all add: nat_mult_distrib)
  note u = u [unfolded this]
  show "vga x y \<noteq> vga x' y' + 1"
  proof
    assume "vga x y = vga x' y' + 1"
    then have "unat (vga x y) = unat (vga x' y' + 1)" by simp
    then show False using u even_not_odd by metis
  qed
  show "vga x y + 1 \<noteq> vga x' y'"
  proof
    assume "vga x y + 1 = vga x' y'"
    then have "unat (vga x y + 1) = unat (vga x' y')" by simp
    then show False using u even_not_odd by metis
  qed
qed

lemma vga_range:
  assumes "on_screen x y"
  shows "in_vga (vga x y)" and "in_vga (vga x y + 1)"
  using unat_vga [OF assms] unat_vga1 [OF assms] assms
  by (auto simp: in_vga_def on_screen_def word_le_nat_alt word_less_nat_alt nat_less_iff)

text \<open>What an operation may change: the screen's bytes, nothing else in memory.\<close>

definition outside_kept :: "'a console_scheme \<Rightarrow> 'a console_scheme \<Rightarrow> bool" where
  "outside_kept s t \<longleftrightarrow> (\<forall>a. \<not> in_vga a \<longrightarrow> cmem t a = cmem s a) \<and> console.more t = console.more s"

lemma outside_kept_refl [simp]: "outside_kept s s"
  by (simp add: outside_kept_def)

lemma outside_kept_trans: "outside_kept s t \<Longrightarrow> outside_kept t u \<Longrightarrow> outside_kept s u"
  by (simp add: outside_kept_def)

text \<open>Writing a cell: both bytes, as all loops of the console do.\<close>

definition put_cell :: "int \<Rightarrow> int \<Rightarrow> u8 \<times> u8 \<Rightarrow> 'a console_scheme \<Rightarrow> 'a console_scheme" where
  "put_cell x y v s = putcolor x y (snd v) (putchar x y (fst v) s)"

lemma cell_put_cell:
  assumes "on_screen x y" and "on_screen x' y'"
  shows "cell (put_cell x y v s) x' y' = (if x' = x \<and> y' = y then v else cell s x' y')"
  using vga_inj [OF assms] vga_inj [OF assms(2,1)]
  by (auto simp: cell_def put_cell_def putcolor_def putchar_def getchr_def getcolor_def prod_eq_iff)

lemma put_cell_frame [simp]:
  "g_ScreenX (put_cell x y v s) = g_ScreenX s" "g_ScreenY (put_cell x y v s) = g_ScreenY s"
  "io_log (put_cell x y v s) = io_log s"
  "on_screen x y \<Longrightarrow> outside_kept s (put_cell x y v s)"
  using vga_range [of x y] by (auto simp: put_cell_def putcolor_def putchar_def outside_kept_def)

lemma cell_putchar:
  assumes "on_screen x y" and "on_screen x' y'"
  shows "cell (putchar x y c s) x' y' = (if x' = x \<and> y' = y then (c, snd (cell s x y)) else cell s x' y')"
  using vga_inj [OF assms] vga_inj [OF assms(2,1)]
  by (auto simp: cell_def putchar_def getchr_def getcolor_def)

lemma putchar_frame [simp]:
  "g_ScreenX (putchar x y c s) = g_ScreenX s" "g_ScreenY (putchar x y c s) = g_ScreenY s"
  "on_screen x y \<Longrightarrow> outside_kept s (putchar x y c s)"
  using vga_range [of x y] by (auto simp: putchar_def outside_kept_def)

lemma setcursor_frame [simp]:
  "g_ScreenX (setcursor x y s) = g_ScreenX s" "g_ScreenY (setcursor x y s) = g_ScreenY s"
  "cell (setcursor x y s) = cell s" "outside_kept s (setcursor x y s)" "cmem (setcursor x y s) = cmem s"
  by (simp_all add: setcursor_def outb_def cell_def getchr_def getcolor_def fun_eq_iff outside_kept_def Let_def)

lemma cell_field_update [simp]:
  "cell (s\<lparr>g_ScreenX := a\<rparr>) = cell s" "cell (s\<lparr>g_ScreenY := b\<rparr>) = cell s"
  "outside_kept s (t\<lparr>g_ScreenX := a\<rparr>) = outside_kept s t" "outside_kept s (t\<lparr>g_ScreenY := b\<rparr>) = outside_kept s t"
  "outside_kept (t\<lparr>g_ScreenX := a\<rparr>) s = outside_kept t s" "outside_kept (t\<lparr>g_ScreenY := b\<rparr>) s = outside_kept t s"
  by (simp_all add: cell_def getchr_def getcolor_def fun_eq_iff outside_kept_def)

section \<open>Scrolling and clearing\<close>

text \<open>The common shape of the screen loops: a fold of cell writes over part of the screen.\<close>

definition screen_step :: "'a console_scheme \<Rightarrow> (int \<Rightarrow> int \<Rightarrow> u8 \<times> u8) \<Rightarrow> 'a console_scheme \<Rightarrow> bool" where
  "screen_step s g t \<longleftrightarrow>
     (\<forall>x y. on_screen x y \<longrightarrow> cell t x y = g x y) \<and> outside_kept s t \<and>
     g_ScreenX t = g_ScreenX s \<and> g_ScreenY t = g_ScreenY s"

lemma screen_step_refl: "screen_step s (cell s) s"
  by (simp add: screen_step_def)

lemma screen_step_trans:
  "screen_step s g t \<Longrightarrow> screen_step t h u \<Longrightarrow> screen_step s h u"
  unfolding screen_step_def using outside_kept_trans by metis

lemma screen_step_cong:
  "screen_step s g t \<Longrightarrow> (\<And>x y. on_screen x y \<Longrightarrow> g x y = h x y) \<Longrightarrow> screen_step s h t"
  by (simp add: screen_step_def)

lemma screen_step_put_cell:
  "on_screen x y \<Longrightarrow> screen_step s (\<lambda>x' y'. if x' = x \<and> y' = y then v else cell s x' y') (put_cell x y v s)"
  by (simp add: screen_step_def cell_put_cell)

lemma copy_row:
  assumes "\<And>x. x \<in> set xs \<Longrightarrow> on_screen x y \<and> on_screen x d" and "d \<noteq> y"
  shows "screen_step s (\<lambda>x' y'. if y' = d \<and> x' \<in> set xs then cell s x' y else cell s x' y')
    (fold (\<lambda>x s. put_cell x d (cell s x y) s) xs s)"
  using assms(1)
proof (induction xs arbitrary: s)
  case (Cons x xs)
  let ?t = "put_cell x d (cell s x y) s"
  have on: "on_screen x d" "on_screen x y" using Cons.prems by simp_all
  have t: "screen_step s (\<lambda>x' y'. if x' = x \<and> y' = d then cell s x y else cell s x' y') ?t"
    by (rule screen_step_put_cell [OF on(1)])
  have IH: "screen_step ?t (\<lambda>x' y'. if y' = d \<and> x' \<in> set xs then cell ?t x' y else cell ?t x' y')
      (fold (\<lambda>x s. put_cell x d (cell s x y) s) xs ?t)"
    using Cons by simp
  have "(if y' = d \<and> x' \<in> set xs then cell ?t x' y else cell ?t x' y') =
      (if y' = d \<and> x' \<in> set (x # xs) then cell s x' y else cell s x' y')" if o: "on_screen x' y'" for x' y'
  proof -
    have "on_screen x' y" using o on(2) by (simp add: on_screen_def)
    then show ?thesis using cell_put_cell [OF on(1) o, of "cell s x y" s]
      cell_put_cell [OF on(1), of x' y "cell s x y" s] assms(2) by auto
  qed
  then show ?case
    unfolding fold_Cons comp_apply by (intro screen_step_cong [OF screen_step_trans [OF t IH]])
qed (simp add: screen_step_refl)

lemma clear_row:
  assumes "\<And>x. x \<in> set xs \<Longrightarrow> on_screen x y"
  shows "screen_step s (\<lambda>x' y'. if y' = y \<and> x' \<in> set xs then v else cell s x' y')
    (fold (\<lambda>x. put_cell x y v) xs s)"
  using assms
proof (induction xs arbitrary: s)
  case (Cons x xs)
  have on: "on_screen x y" using Cons.prems by simp
  have IH: "screen_step (put_cell x y v s)
      (\<lambda>x' y'. if y' = y \<and> x' \<in> set xs then v else cell (put_cell x y v s) x' y')
      (fold (\<lambda>x. put_cell x y v) xs (put_cell x y v s))"
    using Cons by simp
  show ?case unfolding fold_Cons comp_apply
    by (rule screen_step_cong [OF screen_step_trans [OF screen_step_put_cell [OF on] IH]])
      (auto simp: cell_put_cell [OF on])
qed (simp add: screen_step_refl)

lemma columns_set: "x \<in> set columns \<longleftrightarrow> 0 \<le> x \<and> x < 80"
  by (auto simp: columns_def image_iff intro!: bexI [of _ "nat x"])

lemma clear_rows:
  assumes "\<And>y. y \<in> set ys \<Longrightarrow> 0 \<le> y \<and> y < 25"
  shows "screen_step s (\<lambda>x' y'. if y' \<in> set ys then v else cell s x' y')
    (fold (\<lambda>y. fold (\<lambda>x. put_cell x y v) columns) ys s)"
  using assms
proof (induction ys arbitrary: s)
  case (Cons y ys)
  let ?t = "fold (\<lambda>x. put_cell x y v) columns s"
  have t: "screen_step s (\<lambda>x' y'. if y' = y \<and> x' \<in> set columns then v else cell s x' y') ?t"
    using Cons.prems by (intro clear_row) (simp add: columns_set on_screen_def)
  have IH: "screen_step ?t (\<lambda>x' y'. if y' \<in> set ys then v else cell ?t x' y')
      (fold (\<lambda>y. fold (\<lambda>x. put_cell x y v) columns) ys ?t)"
    using Cons by simp
  have c: "cell ?t x' y' = (if y' = y then v else cell s x' y')" if "on_screen x' y'" for x' y'
    using t that by (simp add: screen_step_def columns_set on_screen_def)
  have "(if y' \<in> set ys then v else cell ?t x' y') = (if y' \<in> set (y # ys) then v else cell s x' y')"
    if "on_screen x' y'" for x' y'
    using c [OF that] by auto
  then show ?case unfolding fold_Cons comp_apply
    by (intro screen_step_cong [OF screen_step_trans [OF t IH]])
qed (simp add: screen_step_refl)

lemma copy_rows:
  assumes l: "0 < l" "l + n \<le> 25"
  shows "screen_step s (\<lambda>x y. if y < int n then cell s x (y + int l) else cell s x y)
    (fold (\<lambda>y. fold (\<lambda>x s. put_cell x (y - int l) (cell s x y) s) columns) (map int [l..<l + n]) s)"
  using l(2)
proof (induction n)
  case 0
  then show ?case by (auto simp: screen_step_def on_screen_def)
next
  case (Suc n)
  let ?f = "\<lambda>y. fold (\<lambda>x s. put_cell x (y - int l) (cell s x y) s) columns"
  define t where "t = fold ?f (map int [l..<l + n]) s"
  have t: "screen_step s (\<lambda>x y. if y < int n then cell s x (y + int l) else cell s x y) t"
    using Suc by (simp add: t_def)
  have step: "screen_step t (\<lambda>x' y'. if y' = int n \<and> x' \<in> set columns then cell t x' (int (l + n)) else cell t x' y')
      (?f (int (l + n)) t)"
    using copy_row [of columns "int (l + n)" "int n" t] Suc.prems l(1)
    by (simp add: columns_set on_screen_def)
  have "(if y = int n \<and> x \<in> set columns then cell t x (int (l + n)) else cell t x y) =
      (if y < int (Suc n) then cell s x (y + int l) else cell s x y)" if o: "on_screen x y" for x y
  proof -
    have "on_screen x (int (l + n))" using o Suc.prems by (simp add: on_screen_def)
    then have "cell t x (int (l + n)) = cell s x (int (l + n))" using t l(1) by (auto simp: screen_step_def)
    moreover have "cell t x y = (if y < int n then cell s x (y + int l) else cell s x y)"
      using t o by (simp add: screen_step_def)
    ultimately show ?thesis using o by (auto simp: columns_set on_screen_def add.commute)
  qed
  moreover have "fold ?f (map int [l..<l + Suc n]) s = ?f (int (l + n)) t" by (simp add: t_def)
  ultimately show ?case by (simp only:) (intro screen_step_cong [OF screen_step_trans [OF t step]], simp)
qed

lemma copy_body:
  assumes "on_screen x y" and "on_screen x d" and "d \<noteq> y"
  shows "(let s' = putchar x d (getchr x y s) s in putcolor x d (getcolor x y s') s') = put_cell x d (cell s x y) s"
  using vga_inj [OF assms(1,2)] assms(3)
  by (simp add: Let_def put_cell_def cell_def getcolor_def putchar_def)

text \<open>Scrolling by \<open>l\<close> lines.\<close>

lemma scrollback_screen:
  fixes s :: "'a console_scheme"
  assumes l: "0 < l" "l \<le> 25"
  shows "screen_step s (\<lambda>x y. if y < 25 - int l then cell s x (y + int l) else (0, DEFAULT_COLOR))
      ((scrollback (int l) s)\<lparr>g_ScreenY := g_ScreenY s\<rparr>)"
    and "g_ScreenY (scrollback (int l) s) = g_ScreenY s - int l"
proof -
  let ?copy = "\<lambda>y. fold (\<lambda>x s. put_cell x (y - int l) (cell s x y) s) columns"
  let ?clear = "\<lambda>y. fold (\<lambda>x. put_cell x y (0, DEFAULT_COLOR)) columns"
  let ?s1 = "fold ?copy (map int [l..<25]) s"
  let ?s2 = "fold ?clear (map int [25 - l..<25]) ?s1"
  have c1: "fold (\<lambda>y. fold (\<lambda>x s. let s' = putchar x (y - int l) (getchr x y s) s
      in putcolor x (y - int l) (getcolor x y s') s') columns) (map int [l..<25]) s = ?s1"
    using l(1) by (intro fold_cong refl ext) (auto simp: columns_set on_screen_def intro!: fold_cong copy_body)
  have c2: "fold (\<lambda>y. fold (\<lambda>x s. putcolor x y DEFAULT_COLOR (putchar x y 0 s)) columns) (map int [25 - l..<25]) ?s1 = ?s2"
  proof -
    have "(\<lambda>x (s :: 'a console_scheme). putcolor x y DEFAULT_COLOR (putchar x y 0 s)) = (\<lambda>x. put_cell x y (0, DEFAULT_COLOR))" for y
      by (simp add: fun_eq_iff put_cell_def)
    then show ?thesis by (simp only:)
  qed
  have nat: "nat (25 - int l) = 25 - l" by simp
  have r: "scrollback (int l) s = ?s2\<lparr>g_ScreenY := g_ScreenY ?s2 - int l\<rparr>"
    unfolding scrollback_def Let_def [of "fold _ _ _"] using l c1 c2 by (simp add: nat)
  have t1: "screen_step s (\<lambda>x y. if y < int (25 - l) then cell s x (y + int l) else cell s x y) ?s1"
    using copy_rows [of l "25 - l" s] l by simp
  have t2: "screen_step ?s1 (\<lambda>x y. if y \<in> set (map int [25 - l..<25]) then (0, DEFAULT_COLOR) else cell ?s1 x y) ?s2"
    by (intro clear_rows) auto
  have "(if y \<in> set (map int [25 - l..<25]) then (0, DEFAULT_COLOR) else cell ?s1 x y) =
      (if y < 25 - int l then cell s x (y + int l) else (0, DEFAULT_COLOR))" if o: "on_screen x y" for x y
  proof -
    have "y \<in> set (map int [25 - l..<25]) \<longleftrightarrow> \<not> y < 25 - int l"
    proof
      assume "\<not> y < 25 - int l"
      then show "y \<in> set (map int [25 - l..<25])"
        using o l by (auto simp: on_screen_def image_iff nat_less_iff intro!: bexI [of _ "nat y"])
    qed (use l in auto)
    then show ?thesis using t1 o l by (simp add: screen_step_def of_nat_diff)
  qed
  then have t: "screen_step s (\<lambda>x y. if y < 25 - int l then cell s x (y + int l) else (0, DEFAULT_COLOR)) ?s2"
    by (intro screen_step_cong [OF screen_step_trans [OF t1 t2]])
  then show "g_ScreenY (scrollback (int l) s) = g_ScreenY s - int l"
    by (simp add: r screen_step_def)
  show "screen_step s (\<lambda>x y. if y < 25 - int l then cell s x (y + int l) else (0, DEFAULT_COLOR))
      ((scrollback (int l) s)\<lparr>g_ScreenY := g_ScreenY s\<rparr>)"
    using t by (simp add: r screen_step_def)
qed

section \<open>The console as an abstract terminal\<close>

text \<open>
  A terminal is a grid of cells and a cursor. \<open>view\<close> reads one off the console's state.
\<close>

type_synonym terminal = "(int \<Rightarrow> int \<Rightarrow> u8 \<times> u8) \<times> int \<times> int"

definition view :: "'a console_scheme \<Rightarrow> terminal" where
  "view s = ((\<lambda>x y. if on_screen x y then cell s x y else (0, 0)), g_ScreenX s, g_ScreenY s)"

definition grid_set :: "(int \<Rightarrow> int \<Rightarrow> u8 \<times> u8) \<Rightarrow> int \<Rightarrow> int \<Rightarrow> u8 \<Rightarrow> int \<Rightarrow> int \<Rightarrow> u8 \<times> u8" where
  "grid_set g x y c = (\<lambda>x' y'. if x' = x \<and> y' = y then (c, snd (g x y)) else g x' y')"

definition grid_scroll :: "(int \<Rightarrow> int \<Rightarrow> u8 \<times> u8) \<Rightarrow> int \<Rightarrow> int \<Rightarrow> u8 \<times> u8" where
  "grid_scroll g = (\<lambda>x y. if \<not> on_screen x y then (0, 0) else if y < 24 then g x (y + 1) else (0, DEFAULT_COLOR))"

fun term_wrap :: "terminal \<Rightarrow> terminal" where
  "term_wrap (g, x, y) =
     (if x < 80 then if y < 25 then (g, x, y) else (grid_scroll g, x, y - 1)
      else if y < 24 then (g, 0, y + 1) else (grid_scroll g, 0, y))"

fun term_char :: "u8 \<Rightarrow> terminal \<Rightarrow> terminal" where
  "term_char c (g, x, y) =
     (if c = 10 then term_wrap (g, 0, y + 1)
      else if c = 13 then (g, 0, y)
      else if c = 8 then
        if 0 < x then (grid_set g (x - 1) y 32, x - 1, y)
        else if 0 < y then (grid_set g 79 (y - 1) 32, 79, y - 1)
        else (grid_set g 0 0 32, 0, 0)
      else term_wrap (grid_set g x y c, x + 1, y))"

text \<open>
  How many spaces a tab prints at a column: the loop's bound shrinks as the cursor moves, so
  these are not the distances to the next tab stop.
\<close>

definition tab_width :: "int \<Rightarrow> nat" where
  "tab_width x = (if x mod 4 = 2 then 1 else if x mod 4 = 3 then 3 else 2)"

fun term_putc :: "u8 \<Rightarrow> terminal \<Rightarrow> terminal" where
  "term_putc c (g, x, y) =
     (if c = 9 then (term_char 32 ^^ tab_width x) (g, x, y) else term_char c (g, x, y))"

definition screen_ok :: "'a console_scheme \<Rightarrow> bool" where
  "screen_ok s \<longleftrightarrow> on_screen (g_ScreenX s) (g_ScreenY s)"

lemma view_setcursor [simp]: "view (setcursor x y s) = view s"
  by (simp add: view_def fun_eq_iff)

lemma screen_ok_setcursor [simp]: "screen_ok (setcursor x y s) = screen_ok s"
  by (simp add: screen_ok_def)

lemma of_int_less_iff32:
  "0 \<le> i \<Longrightarrow> i < 2 ^ 32 \<Longrightarrow> 0 \<le> n \<Longrightarrow> n < 2 ^ 32 \<Longrightarrow> (of_int n :: u32) \<le> of_int i \<longleftrightarrow> n \<le> i"
  by (simp add: word_le_def uint_word_of_int)

lemma scroll_one:
  assumes "g_ScreenY s = 25"
  shows "view (scrollback 1 s) = (grid_scroll (fst (view s)), g_ScreenX s, 24)"
    and "outside_kept s (scrollback 1 s)"
proof -
  note st = scrollback_screen [of 1 s, simplified]
  have cells: "cell (scrollback 1 s) x y = (if y < 24 then cell s x (y + 1) else (0, DEFAULT_COLOR))"
    if "on_screen x y" for x y
    using st(1) that by (simp add: screen_step_def)
  have "on_screen x y \<Longrightarrow> y < 24 \<Longrightarrow> on_screen x (y + 1)" for x y by (simp add: on_screen_def)
  then show "view (scrollback 1 s) = (grid_scroll (fst (view s)), g_ScreenX s, 24)"
    using st assms cells by (auto simp: view_def grid_scroll_def fun_eq_iff screen_step_def)
  show "outside_kept s (scrollback 1 s)" using st(1) by (simp add: screen_step_def)
qed

lemma view_update:
  "view (s\<lparr>g_ScreenX := x\<rparr>) = (fst (view s), x, g_ScreenY s)"
  "view (s\<lparr>g_ScreenY := y\<rparr>) = (fst (view s), g_ScreenX s, y)"
  by (simp_all add: view_def fun_eq_iff)

lemma view_putchar:
  "on_screen x y \<Longrightarrow> view (putchar x y c s) = (grid_set (fst (view s)) x y c, g_ScreenX s, g_ScreenY s)"
  by (auto simp: view_def grid_set_def fun_eq_iff cell_putchar)

lemma putc_end_wrap:
  assumes "0 \<le> g_ScreenX s" "0 \<le> g_ScreenY s"
    and "g_ScreenX s \<le> 80" "g_ScreenY s \<le> 25" "g_ScreenX s = 80 \<longrightarrow> g_ScreenY s \<le> 24"
  shows "view (putc_end s) = term_wrap (view s)" and "screen_ok (putc_end s)" and "outside_kept s (putc_end s)"
proof -
  define s1 where "s1 = (if 80 \<le> g_ScreenX s then s\<lparr>g_ScreenY := g_ScreenY s + 1, g_ScreenX := 0\<rparr> else s)"
  define s2 where "s2 = (if 25 \<le> g_ScreenY s1 then scrollback 1 s1 else s1)"
  have y1: "0 \<le> g_ScreenY s1" "g_ScreenY s1 \<le> 25" "0 \<le> g_ScreenX s1" "g_ScreenX s1 < 80"
    using assms by (auto simp: s1_def)
  have w: "VGA_WIDTH \<le> of_int (g_ScreenX s) \<longleftrightarrow> 80 \<le> g_ScreenX s"
    "VGA_HEIGHT \<le> of_int (g_ScreenY s1) \<longleftrightarrow> 25 \<le> g_ScreenY s1"
    using of_int_less_iff32 [of "g_ScreenX s" 80] of_int_less_iff32 [of "g_ScreenY s1" 25] assms y1
    by (simp_all add: VGA_WIDTH_def VGA_HEIGHT_def)
  have e: "putc_end s = setcursor (g_ScreenX s2) (g_ScreenY s2) s2"
    unfolding putc_end_def w(1) s1_def [symmetric] Let_def w(2) s2_def [symmetric] ..
  have v1: "view s1 = (if 80 \<le> g_ScreenX s then (fst (view s), 0, g_ScreenY s + 1) else view s)"
    "outside_kept s s1"
    by (simp_all add: s1_def view_def fun_eq_iff)
  have v2: "view s2 = (if 25 \<le> g_ScreenY s1 then (grid_scroll (fst (view s1)), g_ScreenX s1, 24) else view s1)"
    "outside_kept s1 s2"
    using scroll_one [of s1] y1 by (auto simp: s2_def)
  have g1: "g_ScreenX s1 = (if 80 \<le> g_ScreenX s then 0 else g_ScreenX s)"
    "g_ScreenY s1 = (if 80 \<le> g_ScreenX s then g_ScreenY s + 1 else g_ScreenY s)" by (auto simp: s1_def)
  have vxy: "fst (snd (view s)) = g_ScreenX s" "snd (snd (view s)) = g_ScreenY s" by (simp_all add: view_def)
  have tw: "term_wrap (view s) = term_wrap (fst (view s), g_ScreenX s, g_ScreenY s)" by (simp add: view_def)
  show "view (putc_end s) = term_wrap (view s)"
    unfolding tw using v1 v2 g1 assms by (auto simp: e prod_eq_iff vxy)
  show "outside_kept s (putc_end s)"
    using outside_kept_trans [OF outside_kept_trans [OF v1(2) v2(2)]] by (simp add: e)
  have "g_ScreenX s2 = g_ScreenX s1" "g_ScreenY s2 = (if 25 \<le> g_ScreenY s1 then 24 else g_ScreenY s1)"
    using v2(1) by (auto simp: view_def split: if_splits)
  then show "screen_ok (putc_end s)" using y1 by (simp add: e screen_ok_def on_screen_def)
qed

lemma putc_char_term:
  assumes "screen_ok s"
  shows "view (putc_char c s) = term_char c (view s)" and "screen_ok (putc_char c s)"
    and "outside_kept s (putc_char c s)"
proof -
  have on: "0 \<le> g_ScreenX s" "g_ScreenX s < 80" "0 \<le> g_ScreenY s" "g_ScreenY s < 25"
    using assms by (auto simp: screen_ok_def on_screen_def)
  have vs: "view s = (fst (view s), g_ScreenX s, g_ScreenY s)" by (simp add: view_def)
  have step: "view (putc_char c s) = term_char c (view s) \<and> screen_ok (putc_char c s) \<and> outside_kept s (putc_char c s)"
    if "putc_char c s = putc_end t" "0 \<le> g_ScreenX t \<and> 0 \<le> g_ScreenY t \<and> g_ScreenX t \<le> 80 \<and> g_ScreenY t \<le> 25"
      "g_ScreenX t = 80 \<longrightarrow> g_ScreenY t \<le> 24" "outside_kept s t" "term_wrap (view t) = term_char c (view s)" for t
    unfolding that(1) using putc_end_wrap [of t] that(2-5) outside_kept_trans by metis
  have keep: "term_wrap (g, x, y) = (g, x, y)" if "x < 80" "y < 25" for g x y using that by simp
  define x y where xy: "x = g_ScreenX s" "y = g_ScreenY s"
  note on' = on [folded xy]
  have scr: "on_screen x y" "0 < x \<Longrightarrow> on_screen (x - 1) y" "0 < y \<Longrightarrow> on_screen 79 (y - 1)" "on_screen 0 0"
    using on' by (auto simp: on_screen_def)
  have tc: "term_char b (view s) = term_char b (fst (view s), x, y)" for b by (simp add: view_def xy)
  consider "c = 10" | "c = 13" | "c = 8" "0 < x" | "c = 8" "x = 0" "0 < y" | "c = 8" "x = 0" "y = 0"
    | "c \<noteq> 10" "c \<noteq> 13" "c \<noteq> 8" using on' by force
  then have "view (putc_char c s) = term_char c (view s) \<and> screen_ok (putc_char c s) \<and> outside_kept s (putc_char c s)"
  proof cases
    case 1
    then show ?thesis
      using on' scr by (intro step [of "s\<lparr>g_ScreenX := 0, g_ScreenY := y + 1\<rparr>"])
        (simp_all add: putc_char_def xy [symmetric] Let_def tc view_putchar view_update outside_kept_trans [OF _ putchar_frame(3)])
  next
    case 2
    then show ?thesis
      using on' scr by (intro step [of "s\<lparr>g_ScreenX := 0\<rparr>"])
        (simp_all add: putc_char_def xy [symmetric] Let_def tc view_putchar view_update outside_kept_trans [OF _ putchar_frame(3)])
  next
    case 3
    then show ?thesis
      using on' scr by (intro step [of "putchar (x - 1) y 32 (s\<lparr>g_ScreenX := x - 1\<rparr>)"])
        (simp_all add: putc_char_def xy [symmetric] Let_def tc view_putchar view_update outside_kept_trans [OF _ putchar_frame(3)])
  next
    case 4
    then show ?thesis
      using on' scr by (intro step [of "putchar 79 (y - 1) 32 (s\<lparr>g_ScreenY := y - 1, g_ScreenX := 79\<rparr>)"])
        (simp_all add: putc_char_def xy [symmetric] Let_def tc view_putchar view_update outside_kept_trans [OF _ putchar_frame(3)])
  next
    case 5
    then show ?thesis
      using on' scr by (intro step [of "putchar 0 0 32 s"])
        (simp_all add: putc_char_def xy [symmetric] Let_def tc view_putchar view_update outside_kept_trans [OF _ putchar_frame(3)])
  next
    case 6
    then show ?thesis
      using on' scr by (intro step [of "(putchar x y c s)\<lparr>g_ScreenX := x + 1\<rparr>"])
        (simp_all add: putc_char_def xy [symmetric] Let_def tc view_putchar view_update outside_kept_trans [OF _ putchar_frame(3)])
  qed
  then show "view (putc_char c s) = term_char c (view s)" "screen_ok (putc_char c s)"
    "outside_kept s (putc_char c s)" by simp_all
qed

lemma term_wrap_on: "x < 80 \<Longrightarrow> y < 25 \<Longrightarrow> term_wrap (g, x, y) = (g, x, y)"
  by simp

lemma putc_char_column:
  assumes "screen_ok s"
  shows "g_ScreenX (putc_char 32 s) mod 4 = (g_ScreenX s + 1) mod 4"
proof -
  have "view s = (fst (view s), g_ScreenX s, g_ScreenY s)" by (simp add: view_def)
  then have v: "view (putc_char 32 s) = term_char 32 (fst (view s), g_ScreenX s, g_ScreenY s)"
    using putc_char_term(1) [OF assms] by metis
  have "g_ScreenX (putc_char 32 s) = fst (snd (view (putc_char 32 s)))" by (simp add: view_def)
  also have "\<dots> = (if g_ScreenX s < 79 then g_ScreenX s + 1 else 0)" unfolding v by simp
  finally have e: "g_ScreenX (putc_char 32 s) = (if g_ScreenX s < 79 then g_ScreenX s + 1 else 0)" .
  have "g_ScreenX s < 80" using assms by (simp add: screen_ok_def on_screen_def)
  then have "g_ScreenX s < 79 \<or> g_ScreenX s = 79" by linarith
  then show ?thesis by (auto simp: e)
qed

lemma tab_loop_width:
  assumes "screen_ok s"
  shows "tab_loop 0 s = (putc_char 32 ^^ tab_width (g_ScreenX s)) s"
proof -
  define s1 where "s1 = putc_char 32 s"
  define s2 where "s2 = putc_char 32 s1"
  define s3 where "s3 = putc_char 32 s2"
  have ok: "screen_ok s1" "screen_ok s2" by (simp_all add: s1_def s2_def putc_char_term(2) assms)
  note c = putc_char_column [OF assms, folded s1_def] putc_char_column [OF ok(1), folded s2_def]
    putc_char_column [OF ok(2), folded s3_def]
  have col: "g_ScreenX s1 mod 4 = (g_ScreenX s mod 4 + 1) mod 4"
    "g_ScreenX s2 mod 4 = (g_ScreenX s1 mod 4 + 1) mod 4" "g_ScreenX s3 mod 4 = (g_ScreenX s2 mod 4 + 1) mod 4"
    unfolding mod_add_left_eq by (rule c)+
  define r0 r1 r2 r3 where r: "r0 = g_ScreenX s mod 4" "r1 = g_ScreenX s1 mod 4" "r2 = g_ScreenX s2 mod 4"
    "r3 = g_ScreenX s3 mod 4"
  have u: "tab_loop 0 s = (if g_ScreenX s mod 4 < 4 then tab_loop 1 s1 else s)"
    "tab_loop 1 s1 = (if g_ScreenX s1 mod 4 < 3 then tab_loop 2 s2 else s1)"
    "tab_loop 2 s2 = (if g_ScreenX s2 mod 4 < 2 then tab_loop 3 s3 else s2)"
    "tab_loop 3 s3 = (if g_ScreenX s3 mod 4 < 1 then tab_loop 4 (putc_char 32 s3) else s3)"
    by (subst tab_loop.simps, simp add: s1_def s2_def s3_def)+
  note col = col [folded r] and u = u [folded r]
  have w: "tab_width (g_ScreenX s) = (if r0 = 2 then 1 else if r0 = 3 then 3 else 2)"
    by (simp only: tab_width_def r)
  have p: "(putc_char 32 ^^ 1) s = s1" "(putc_char 32 ^^ 2) s = s2" "(putc_char 32 ^^ 3) s = s3"
    by (simp_all add: s1_def s2_def s3_def numeral_2_eq_2 numeral_3_eq_3)
  have "0 \<le> r0" "r0 < 4" by (simp_all add: r(1))
  then consider "r0 = 0" | "r0 = 1" | "r0 = 2" | "r0 = 3"
    by linarith
  then show ?thesis
  proof cases
    case 1
    then have "r1 = 1" "r2 = 2" using col by simp_all
    with 1 show ?thesis using p by (simp only: u w) simp
  next
    case 2
    then have "r1 = 2" "r2 = 3" using col by simp_all
    with 2 show ?thesis using p by (simp only: u w) simp
  next
    case 3
    then have "r1 = 3" using col by simp
    with 3 show ?thesis using p by (simp only: u w) simp
  next
    case 4
    then have "r1 = 0" "r2 = 1" "r3 = 2" using col by simp_all
    with 4 show ?thesis using p by (simp only: u w) simp
  qed
qed

lemma putc_chars_term:
  "screen_ok s \<Longrightarrow> view ((putc_char c ^^ n) s) = (term_char c ^^ n) (view s) \<and>
     screen_ok ((putc_char c ^^ n) s) \<and> outside_kept s ((putc_char c ^^ n) s)"
  by (induction n) (auto simp: putc_char_term intro: outside_kept_trans)

lemma putc_end_on_screen:
  assumes "screen_ok s"
  shows "view (putc_end s) = view s" and "screen_ok (putc_end s)" and "outside_kept s (putc_end s)"
proof -
  have on: "0 \<le> g_ScreenX s" "g_ScreenX s < 80" "0 \<le> g_ScreenY s" "g_ScreenY s < 25"
    using assms by (auto simp: screen_ok_def on_screen_def)
  then have "term_wrap (view s) = view s" by (simp add: view_def)
  then show "view (putc_end s) = view s" "screen_ok (putc_end s)" "outside_kept s (putc_end s)"
    using putc_end_wrap [of s] on by simp_all
qed

lemma putc_term:
  assumes "screen_ok s"
  shows "view (putc c s) = term_putc c (view s)" and "screen_ok (putc c s)" and "outside_kept s (putc c s)"
proof -
  note vs = putc_chars_term [OF assms, of "tab_width (g_ScreenX s)" 32]
  have "term_putc c (view s) =
      (if c = 9 then (term_char 32 ^^ tab_width (g_ScreenX s)) (view s) else term_char c (view s))"
    by (simp add: view_def)
  then show "view (putc c s) = term_putc c (view s)" "screen_ok (putc c s)" "outside_kept s (putc c s)"
    using vs putc_char_term [OF assms, of c] putc_end_on_screen [of "tab_loop 0 s"]
      outside_kept_trans [of s "tab_loop 0 s"]
    by (auto simp: putc_def tab_loop_width [OF assms])
qed

text \<open>
  C10. \<open>putc\<close> implements the abstract terminal for every character, control characters, line
  wrap and scrolling included; it keeps the cursor on the screen and writes nothing outside
  the screen's memory.
\<close>

theorem putc_refines_terminal:
  assumes "screen_ok s"
  shows "view (putc c s) = term_putc c (view s) \<and> screen_ok (putc c s) \<and> outside_kept s (putc c s)"
  using putc_term [OF assms] by blast

section \<open>Printing strings\<close>

text \<open>
  The interface of a string printer over a character sink: as long as the sink does not
  disturb the string it is reading, a printer that walks the string emits its characters.
\<close>

locale char_sink =
  fixes emit :: "u8 \<Rightarrow> 's \<Rightarrow> 's"
    and peek :: "'s \<Rightarrow> u32 \<Rightarrow> u8"
    and safe :: "u32 \<Rightarrow> bool"
    and inv :: "'s \<Rightarrow> bool"
    and print :: "u32 \<Rightarrow> 's \<Rightarrow> 's option"
  assumes emit_inv: "inv s \<Longrightarrow> inv (emit c s)"
    and emit_peek: "inv s \<Longrightarrow> safe a \<Longrightarrow> peek (emit c s) a = peek s a"
    and print_step: "print p s = (if peek s p \<noteq> 0 then print (p + 1) (emit (peek s p) s) else Some s)"
begin

lemma emit_list_inv: "inv s \<Longrightarrow> inv (fold emit cs s)"
  by (induction cs arbitrary: s) (simp_all add: emit_inv)

lemma emit_list_peek: "inv s \<Longrightarrow> safe a \<Longrightarrow> peek (fold emit cs s) a = peek s a"
  by (induction cs arbitrary: s) (simp_all add: emit_inv emit_peek)

lemma print_string:
  "inv s \<Longrightarrow> cstr_at (peek s) p str \<Longrightarrow> (\<And>i. i \<le> length str \<Longrightarrow> safe (p + of_nat i)) \<Longrightarrow>
     print p s = Some (fold emit str s)"
proof (induction str arbitrary: p s)
  case Nil
  then show ?case by (subst print_step) simp
next
  case (Cons c cs)
  have safe: "safe (p + 1 + of_nat i)" if "i \<le> length cs" for i
    using Cons.prems(3) [of "Suc i"] that by (simp add: add.assoc)
  have "cstr_at (peek (emit c s)) (p + 1) cs \<longleftrightarrow> cstr_at (peek s) (p + 1) cs"
    using safe Cons.prems(1) by (intro cstr_at_cong) (simp add: emit_peek)
  then have "cstr_at (peek (emit c s)) (p + 1) cs" using Cons.prems(2) by simp
  then have "print (p + 1) (emit c s) = Some (fold emit cs (emit c s))"
    using Cons.IH [OF emit_inv [OF Cons.prems(1)]] safe by blast
  then show ?case using Cons.prems(2) by (subst print_step) simp
qed

end

interpretation console_sink: char_sink putc cmem "\<lambda>a. \<not> in_vga a" screen_ok puts
proof unfold_locales
  fix s :: "'a console_scheme" and c :: u8 and a p :: u32
  assume ok: "screen_ok s"
  show "screen_ok (putc c s)" by (rule putc_term(2) [OF ok])
  assume "\<not> in_vga a"
  then show "cmem (putc c s) a = cmem s a" using putc_term(3) [OF ok, of c] by (simp add: outside_kept_def)
qed (rule puts.simps)

lemma fold_putc_view: "screen_ok s \<Longrightarrow> view (fold putc cs s) = fold term_putc cs (view s)"
  by (induction cs arbitrary: s) (simp_all add: putc_term)

text \<open>
  \<open>puts\<close> returns for every string outside the screen's memory, having printed exactly its
  characters on the terminal.
\<close>

lemma puts_prints:
  assumes ok: "screen_ok s" and str: "cstr_at (cmem s) p str"
    and outside: "\<And>i. i \<le> length str \<Longrightarrow> \<not> in_vga (p + of_nat i)"
  shows "\<exists>s'. puts p s = Some s' \<and> view s' = fold term_putc str (view s) \<and> screen_ok s' \<and>
    cstr_at (cmem s') p str"
proof -
  have "cstr_at (cmem (fold putc str s)) p str \<longleftrightarrow> cstr_at (cmem s) p str"
    using outside console_sink.emit_list_peek [OF ok] by (intro cstr_at_cong) simp
  then show ?thesis
    using console_sink.print_string [OF ok str outside] fold_putc_view [OF ok]
      console_sink.emit_list_inv [OF ok] str by auto
qed

lemma clrscr_cells:
  "\<exists>t. clrscr s = setcursor 0 0 (t\<lparr>g_ScreenX := 0, g_ScreenY := 0\<rparr>) \<and>
    screen_step s (\<lambda>x y. if y \<in> set (map int [0..<25]) then (0, DEFAULT_COLOR) else cell s x y) t"
proof -
  let ?t = "fold (\<lambda>y. fold (\<lambda>x. put_cell x y (0, DEFAULT_COLOR)) columns) (map int [0..<25]) s"
  have "(\<lambda>x (s :: 'a console_scheme). putcolor x y DEFAULT_COLOR (putchar x y 0 s)) = (\<lambda>x. put_cell x y (0, DEFAULT_COLOR))" for y
    by (simp add: fun_eq_iff put_cell_def)
  then have "clrscr s = setcursor 0 0 (?t\<lparr>g_ScreenX := 0, g_ScreenY := 0\<rparr>)"
    by (simp only: clrscr_def Let_def) simp
  moreover have "screen_step s (\<lambda>x y. if y \<in> set (map int [0..<25]) then (0, DEFAULT_COLOR) else cell s x y) ?t"
    by (intro clear_rows) auto
  ultimately show ?thesis by blast
qed

lemma clrscr_kept: "outside_kept s (clrscr s)" "screen_ok (clrscr s)"
proof -
  obtain t where t: "clrscr s = setcursor 0 0 (t\<lparr>g_ScreenX := 0, g_ScreenY := 0\<rparr>)" "outside_kept s t"
    using clrscr_cells [of s] by (auto simp: screen_step_def)
  show "outside_kept s (clrscr s)" unfolding t(1)
    by (rule outside_kept_trans [OF _ setcursor_frame(4)]) (simp add: t(2))
  show "screen_ok (clrscr s)" unfolding t(1) by (simp add: screen_ok_def on_screen_def setcursor_def Let_def outb_def)
qed

lemma clrscr_view: "view (clrscr s) = ((\<lambda>x y. if on_screen x y then (0, DEFAULT_COLOR) else (0, 0)), 0, 0)"
proof -
  obtain t where t: "clrscr s = setcursor 0 0 (t\<lparr>g_ScreenX := 0, g_ScreenY := 0\<rparr>)"
    "screen_step s (\<lambda>x y. if y \<in> set (map int [0..<25]) then (0, DEFAULT_COLOR) else cell s x y) t"
    using clrscr_cells by blast
  have "y \<in> set (map int [0..<25])" if "on_screen x y" for x y
    using that by (auto simp: on_screen_def image_iff nat_less_iff intro!: bexI [of _ "nat y"])
  then show ?thesis using t(2) by (auto simp: t(1) view_def fun_eq_iff screen_step_def)
qed

section \<open>A concrete console\<close>

text \<open>The cursor in the last cell, and the string "Hi" at 0x1000.\<close>

definition example_console :: console where
  "example_console = \<lparr>io_log = [], cmem = (\<lambda>_. 0)(0x1000 := 72, 0x1001 := 105), g_ScreenX = 79, g_ScreenY = 24\<rparr>"

lemma example_console_ok: "screen_ok example_console"
  by (simp add: example_console_def screen_ok_def on_screen_def)

theorem putc_refines_terminal_witness:
  "snd (view (putc 65 example_console)) = (0, 24) \<and> screen_ok (putc 65 example_console)"
proof -
  have "view example_console = (fst (view example_console), 79, 24)"
    by (simp add: view_def example_console_def)
  then have "snd (term_putc 65 (view example_console)) = (0, 24)"
    by (elim ssubst) simp
  then show ?thesis using putc_refines_terminal [OF example_console_ok, of 65] by simp
qed

lemma puts_prints_witness:
  "\<exists>s'. puts 0x1000 example_console = Some s' \<and> view s' = fold term_putc [72, 105] (view example_console)"
proof -
  have "cstr_at (cmem example_console) 0x1000 [72, 105]" by (simp add: example_console_def)
  moreover have "\<not> in_vga (0x1000 + of_nat i)" if "i \<le> length [72 :: u8, 105]" for i
  proof -
    have "i = 0 \<or> i = 1 \<or> i = 2" using that by auto
    then show ?thesis by (auto simp: in_vga_def)
  qed
  ultimately show ?thesis using puts_prints [OF example_console_ok] by blast
qed

end
