(* ===== verification/Printf.thy ===== *)
theory Printf
  imports Console "HOL-Library.Monad_Syntax"
begin

text \<open>
  Formatted output, \<open>kprintf\<close> and \<open>printf_number\<close> of \<^verbatim>\<open>kernel/stdio.c\<close>, with the
  assembly routine \<^verbatim>\<open>_x86_div64_32\<close> of \<^verbatim>\<open>kernel/x86.s\<close> that divides 64 by
  32 bits with two 32-bit \<^verbatim>\<open>DIV\<close> instructions.

  The variable arguments are the words of the caller's stack frame: a function from positions
  to words. A format is the list of its bytes, without the terminator.
\<close>

section \<open>Division\<close>

text \<open>The \<^verbatim>\<open>DIV\<close> instruction; \<open>None\<close> is the divide error exception.\<close>

definition DIV :: "u32 \<Rightarrow> u32 \<Rightarrow> u32 \<Rightarrow> (u32 \<times> u32) option" where
  "DIV edx eax d =
     (let n = unat edx * 2 ^ 32 + unat eax
      in if d = 0 \<or> 2 ^ 32 \<le> n div unat d then None
         else Some (of_nat (n div unat d), of_nat (n mod unat d)))"

definition x86_div64_32 :: "u64 \<Rightarrow> u32 \<Rightarrow> (u64 \<times> u32) option" where
  "x86_div64_32 number ecx = do {
     (ebx, edx) \<leftarrow> DIV 0 (ucast (drop_bit 32 number)) ecx;
     (eax, edx) \<leftarrow> DIV edx (ucast number) ecx;
     Some (ucast eax OR push_bit 32 (ucast ebx), edx)
   }"

section \<open>Numbers\<close>

text \<open>\<^verbatim>\<open>g_HexChars\<close>, the characters 0 to 9 and a to f.\<close>

definition g_HexChars :: "u8 list" where
  "g_HexChars = [48, 49, 50, 51, 52, 53, 54, 55, 56, 57, 97, 98, 99, 100, 101, 102]"

partial_function (option) digits_loop :: "u64 \<Rightarrow> u32 \<Rightarrow> u8 list \<Rightarrow> u8 list option" where
  "digits_loop number base10 buf =
     Option.bind (x86_div64_32 number base10) (\<lambda>(q, r).
       let buf' = buf @ [g_HexChars ! unat r]
       in if 0 < q then digits_loop q base10 buf' else Some buf')"

datatype plength = LengthDefault | LengthShortShort | LengthShort | LengthLong | LengthLongLong

type_synonym va_list = "nat \<Rightarrow> u32"

definition va_arg32 :: "va_list \<Rightarrow> u32 \<times> va_list" where
  "va_arg32 args = (args 0, \<lambda>i. args (i + 1))"

definition va_arg64 :: "va_list \<Rightarrow> u64 \<times> va_list" where
  "va_arg64 args = (ucast (args 0) OR push_bit 32 (ucast (args 1)), \<lambda>i. args (i + 2))"

text \<open>
  The number that is printed, and whether its sign is negative. \<^verbatim>\<open>int\<close> and \<^verbatim>\<open>long\<close> are
  32 bits wide; negating the least integer wraps around.
\<close>

definition fetch_number :: "plength \<Rightarrow> bool \<Rightarrow> va_list \<Rightarrow> u64 \<times> bool \<times> va_list" where
  "fetch_number len sign args =
     (if len = LengthLongLong then
        let (n, rest) = va_arg64 args
        in if sign \<and> n <s 0 then (- n, True, rest) else (n, False, rest)
      else
        let (n, rest) = va_arg32 args
        in if sign then if n <s 0 then (scast (- n), True, rest) else (scast n, False, rest)
           else (ucast n, False, rest))"

definition printf_number ::
    "va_list \<Rightarrow> plength \<Rightarrow> bool \<Rightarrow> u32 \<Rightarrow> 'a console_scheme \<Rightarrow> (va_list \<times> 'a console_scheme) option" where
  "printf_number args len sign base10 s =
     (case fetch_number len sign args of (number, negative, rest) \<Rightarrow>
        map_option (\<lambda>buf.
          let buf' = (if sign \<and> negative then buf @ [45] else buf)
          in (rest, fold putc (rev buf') s)) (digits_loop number base10 []))"

section \<open>kprintf\<close>

datatype pstate = StateNormal | StateLength | StateLengthShort | StateLengthLong | StateSpec

record kprintf_state =
  pf_state :: pstate
  pf_length :: plength
  pf_args :: va_list

definition start_state :: "va_list \<Rightarrow> kprintf_state" where
  "start_state args = \<lparr>pf_state = StateNormal, pf_length = LengthDefault, pf_args = args\<rparr>"

text \<open>The code at label \<^verbatim>\<open>PRINTF_STATE_SPEC_\<close>; afterwards the state is the initial one.\<close>

definition kprintf_spec ::
    "u8 \<Rightarrow> kprintf_state \<Rightarrow> 'a console_scheme \<Rightarrow> (kprintf_state \<times> 'a console_scheme) option" where
  "kprintf_spec c f s =
     map_option (\<lambda>(args, s'). (start_state args, s'))
       (if c = 99 then let (a, rest) = va_arg32 (pf_args f) in Some (rest, putc (ucast a) s)
        else if c = 115 then
          let (a, rest) = va_arg32 (pf_args f) in map_option (\<lambda>s'. (rest, s')) (puts a s)
        else if c = 37 then Some (pf_args f, putc 37 s)
        else if c = 100 \<or> c = 105 then printf_number (pf_args f) (pf_length f) True 10 s
        else if c = 117 then printf_number (pf_args f) (pf_length f) False 10 s
        else if c = 88 \<or> c = 120 \<or> c = 112 then printf_number (pf_args f) (pf_length f) False 16 s
        else if c = 111 then printf_number (pf_args f) (pf_length f) False 8 s
        else Some (pf_args f, s))"

definition kprintf_step ::
    "u8 \<Rightarrow> kprintf_state \<Rightarrow> 'a console_scheme \<Rightarrow> (kprintf_state \<times> 'a console_scheme) option" where
  "kprintf_step c f s =
     (case pf_state f of
        StateNormal \<Rightarrow>
          if c = 37 then Some (f\<lparr>pf_state := StateLength\<rparr>, s) else Some (f, putc c s)
      | StateLength \<Rightarrow>
          if c = 104 then Some (f\<lparr>pf_length := LengthShort, pf_state := StateLengthShort\<rparr>, s)
          else if c = 108 then Some (f\<lparr>pf_length := LengthLong, pf_state := StateLengthLong\<rparr>, s)
          else kprintf_spec c f s
      | StateLengthShort \<Rightarrow>
          if c = 104 then Some (f\<lparr>pf_length := LengthShortShort, pf_state := StateSpec\<rparr>, s)
          else kprintf_spec c f s
      | StateLengthLong \<Rightarrow>
          if c = 108 then Some (f\<lparr>pf_length := LengthLongLong, pf_state := StateSpec\<rparr>, s)
          else kprintf_spec c f s
      | StateSpec \<Rightarrow> kprintf_spec c f s)"

primrec kprintf_loop ::
    "u8 list \<Rightarrow> kprintf_state \<Rightarrow> 'a console_scheme \<Rightarrow> (kprintf_state \<times> 'a console_scheme) option" where
  "kprintf_loop [] f s = Some (f, s)"
| "kprintf_loop (c # cs) f s = Option.bind (kprintf_step c f s) (\<lambda>(f', s'). kprintf_loop cs f' s')"

definition kprintf :: "u8 list \<Rightarrow> va_list \<Rightarrow> 'a console_scheme \<Rightarrow> 'a console_scheme option" where
  "kprintf fmt args s = map_option snd (kprintf_loop fmt (start_state args) s)"

section \<open>The division routine divides\<close>

lemma x86_div64_32_correct:
  assumes d: "d \<noteq> 0"
  shows "x86_div64_32 n d = Some (n div ucast d, of_nat (unat n mod unat d))"
proof -
  define hi lo where hl: "hi = unat n div 2 ^ 32" "lo = unat n mod 2 ^ 32"
  define D where "D = unat d"
  have D: "0 < D" "D < 2 ^ 32" using d unat_less_32 [of d] by (simp_all add: D_def unat_gt_0 del: unat_less_32)
  have n: "unat n = hi * 2 ^ 32 + lo" by (simp add: hl)
  have n64: "unat n < 2 ^ 64" using unsigned_less [of n, where ?'a = nat] by simp
  then have hi: "hi < 2 ^ 32" and lo: "lo < 2 ^ 32" by (simp_all add: hl div_less_iff_less_mult)
  have whi: "unat (ucast (drop_bit 32 n) :: u32) = hi"
    using hi by (simp add: unat_ucast_mod drop_bit_eq_div unat_div hl)
  have wlo: "unat (ucast n :: u32) = lo" by (simp add: unat_ucast_mod hl)
  have hq: "hi div D < 2 ^ 32" using hi by (meson div_le_dividend order_le_less_trans)
  then have q1: "DIV 0 (ucast (drop_bit 32 n)) d = Some (of_nat (hi div D), of_nat (hi mod D))"
    using d by (simp add: DIV_def whi D_def [symmetric] Let_def)
  have hr: "hi mod D < D" using D by simp
  define r where "r = hi mod D * 2 ^ 32 + lo"
  have "r < D * 2 ^ 32"
  proof -
    have "(hi mod D + 1) * 2 ^ 32 \<le> D * 2 ^ 32" using hr by (intro mult_right_mono) simp_all
    then show ?thesis using lo by (simp add: r_def)
  qed
  then have rq: "r div D < 2 ^ 32" using D by (simp add: div_less_iff_less_mult mult.commute)
  have "unat (of_nat (hi mod D) :: u32) = hi mod D" using order_less_trans [OF hr D(2)] by (intro unat_of_nat32) simp
  then have q2: "DIV (of_nat (hi mod D)) (ucast n) d = Some (of_nat (r div D), of_nat (r mod D))"
    using d rq by (simp add: DIV_def wlo D_def [symmetric] r_def Let_def)
  have "hi * 2 ^ 32 = (hi div D * D + hi mod D) * 2 ^ 32" by (simp only: div_mult_mod_eq)
  then have "unat n = r + hi div D * 2 ^ 32 * D"
    unfolding n r_def by (simp only: add_mult_distrib mult.commute mult.left_commute add.commute add.left_commute)
  then have mod: "unat n mod D = r mod D" and quot: "unat n div D = hi div D * 2 ^ 32 + r div D"
    using D by simp_all
  have "(ucast (of_nat (r div D) :: u32) :: u64) OR push_bit 32 (ucast (of_nat (hi div D) :: u32)) = n div ucast d"
  proof -
    let ?a = "ucast (of_nat (r div D) :: u32) :: u64" and ?b = "ucast (of_nat (hi div D) :: u32) :: u64"
    have a: "unat ?a = r div D" and b: "unat ?b = hi div D"
      using rq hq by (simp_all add: unat_ucast_mod unat_of_nat)
    have "?a AND push_bit 32 ?b = 0"
      by (rule bit_word_eqI) (auto simp: bit_simps)
    then have "?a OR push_bit 32 ?b = ?a + push_bit 32 ?b" by (simp add: disjunctive_add_eq_or)
    moreover have "unat (push_bit 32 ?b) = hi div D * 2 ^ 32"
      using hq by (simp add: push_bit_eq_mult unat_word_ariths b)
    moreover have "unat (?a + push_bit 32 ?b) = unat ?a + unat (push_bit 32 ?b)"
      using calculation(2) a rq hq by (intro unat_add_no_wrap) simp
    ultimately have "unat (?a OR push_bit 32 ?b) = unat n div D" using a quot by simp
    moreover have "unat (n div ucast d) = unat n div D"
      using unat_less_32 [of d] by (simp add: unat_div D_def unat_ucast_mod del: unat_less_32)
    ultimately show ?thesis by (simp add: word_unat_eq_iff)
  qed
  then show ?thesis using q1 q2 mod by (simp add: x86_div64_32_def D_def [symmetric])
qed

text \<open>
  The two-step division returns quotient and remainder of the 64-bit number for every
  divisor but 0; the second \<^verbatim>\<open>DIV\<close> never overflows.
\<close>

lemma x86_div64_32_divides:
  assumes "d \<noteq> 0"
  shows "x86_div64_32 n d = Some (n div ucast d, of_nat (unat n mod unat d))"
  by (rule x86_div64_32_correct [OF assms])

lemma x86_div64_32_divides_witness:
  "x86_div64_32 0x123456789ABC 10 = Some (0x1D208A5A912, 8)"
  using x86_div64_32_divides [of 10 "0x123456789ABC"] by simp

section \<open>The digits\<close>

text \<open>The digits of a number in base \<open>b\<close>, most significant first, and the number they denote.\<close>

fun digits :: "nat \<Rightarrow> nat \<Rightarrow> nat list" where
  "digits b n = (if n < b \<or> b < 2 then [n] else digits b (n div b) @ [n mod b])"

declare digits.simps [simp del]

definition from_digits :: "nat \<Rightarrow> nat list \<Rightarrow> nat" where
  "from_digits b ds = foldl (\<lambda>a d. a * b + d) 0 ds"

lemma from_digits_digits: "from_digits b (digits b n) = n"
proof (induction b n rule: digits.induct)
  case (1 b n)
  show ?case
  proof (cases "n < b \<or> b < 2")
    case False
    then have "from_digits b (digits b (n div b)) = n div b" using 1 by simp
    then show ?thesis using False by (subst digits.simps) (simp add: from_digits_def)
  qed (simp add: digits.simps [of b n] from_digits_def)
qed

lemma digits_less: "2 \<le> b \<Longrightarrow> d \<in> set (digits b n) \<Longrightarrow> d < b"
proof (induction b n rule: digits.induct)
  case (1 b n)
  then show ?case by (cases "n < b") (auto simp: digits.simps [of b n])
qed

lemma digits_leading: "2 \<le> b \<Longrightarrow> length (digits b n) = 1 \<or> digits b n \<noteq> [] \<and> hd (digits b n) \<noteq> 0"
proof (induction b n rule: digits.induct)
  case (1 b n)
  show ?case
  proof (cases "n < b")
    case False
    then have step: "digits b n = digits b (n div b) @ [n mod b]" and pos: "0 < n div b"
      using 1(2) by (simp_all add: digits.simps [of b n] div_greater_zero_iff)
    show ?thesis
    proof (cases "length (digits b (n div b)) = 1")
      case True
      then obtain d where "digits b (n div b) = [d]" by (auto simp: length_Suc_conv)
      then show ?thesis using from_digits_digits [of b "n div b"] step pos by (simp add: from_digits_def)
    qed (use 1 False step in simp)
  qed (simp add: digits.simps)
qed

lemma digits_length: "2 \<le> b \<Longrightarrow> 0 < k \<Longrightarrow> n < b ^ k \<Longrightarrow> length (digits b n) \<le> k"
proof (induction k arbitrary: n)
  case (Suc k)
  show ?case
  proof (cases "n < b")
    case False
    then have "0 < k" using Suc.prems by (cases k) simp_all
    moreover have "n div b < b ^ k" using Suc.prems by (simp add: div_less_iff_less_mult mult.commute)
    ultimately show ?thesis using Suc False by (subst digits.simps) simp
  qed (simp add: digits.simps)
qed simp

text \<open>The text of a number: its digits in the alphabet of the code.\<close>

definition number_text :: "nat \<Rightarrow> nat \<Rightarrow> u8 list" where
  "number_text b n = map (\<lambda>d. g_HexChars ! d) (digits b n)"

lemma digits_loop_text:
  assumes b: "2 \<le> unat base"
  shows "digits_loop n base buf = Some (buf @ rev (number_text (unat base) (unat n)))"
proof (induction "unat n" arbitrary: n buf rule: less_induct)
  case less
  have nz: "base \<noteq> 0" using b by auto
  have q: "unat (n div ucast base) = unat n div unat base"
    using unat_less_32 [of base] by (simp add: unat_div unat_ucast_mod del: unat_less_32)
  have "unat n mod unat base < unat base" using b by simp
  also have "\<dots> < 2 ^ 32" using unat_less_32 [of base] by (simp del: unat_less_32)
  finally have "unat n mod unat base < 2 ^ 32" .
  then have r: "unat (of_nat (unat n mod unat base) :: u32) = unat n mod unat base"
    by (intro unat_of_nat32) simp
  have step: "digits_loop n base buf =
      (let buf' = buf @ [g_HexChars ! (unat n mod unat base)]
       in if 0 < n div ucast base then digits_loop (n div ucast base) base buf' else Some buf')"
    by (subst digits_loop.simps) (simp add: x86_div64_32_correct [OF nz] r Let_def)
  show ?case
  proof (cases "unat n < unat base")
    case True
    then have "unat (n div ucast base) = 0" using q by simp
    then have "\<not> 0 < n div ucast base" by (simp add: word_less_nat_alt)
    then show ?thesis using True by (simp add: step number_text_def digits.simps [of "unat base" "unat n"])
  next
    case False
    then have "0 < unat n div unat base" using b by (simp add: div_greater_zero_iff)
    then have "0 < n div ucast base" using q by (simp add: word_less_nat_alt)
    moreover have "unat (n div ucast base) < unat n" using q b False by simp
    ultimately show ?thesis
      using less [of "n div ucast base"] b False q
      by (simp add: step number_text_def digits.simps [of "unat base" "unat n"] Let_def)
  qed
qed

section \<open>What a number conversion prints\<close>

text \<open>The value of the argument, as the conversion reads it.\<close>

definition arg_value :: "plength \<Rightarrow> bool \<Rightarrow> va_list \<Rightarrow> int" where
  "arg_value len sign args =
     (if len = LengthLongLong then
        if sign then sint (fst (va_arg64 args)) else uint (fst (va_arg64 args))
      else if sign then sint (args 0) else uint (args 0))"

definition arg_rest :: "plength \<Rightarrow> va_list \<Rightarrow> va_list" where
  "arg_rest len args = (\<lambda>i. args (i + (if len = LengthLongLong then 2 else 1)))"

definition number_string :: "nat \<Rightarrow> int \<Rightarrow> u8 list" where
  "number_string base v = (if v < 0 then [45] else []) @ number_text base (nat \<bar>v\<bar>)"

lemma unat_of_int64: "0 \<le> k \<Longrightarrow> k < 2 ^ 64 \<Longrightarrow> unat (of_int k :: u64) = nat k"
  by (simp add: unat_eq_nat_uint uint_word_of_int)

lemma sint_minus32:
  assumes "sint (n :: u32) \<noteq> - (2 ^ 31)"
  shows "sint (- n) = - sint n"
proof -
  have "- (2 ^ 31) \<le> sint n" "sint n < 2 ^ 31" using sint_ge [of n] sint_lt [of n] by simp_all
  then have "signed_take_bit 31 (- sint n) = - sint n"
    using assms by (intro signed_take_bit_int_eq_self) simp_all
  then show ?thesis by (simp add: sint_word_minus)
qed

lemma fetch_number_value:
  assumes "\<not> (sign \<and> len \<noteq> LengthLongLong \<and> args 0 = 0x80000000)"
  shows "fetch_number len sign args =
    (of_int \<bar>arg_value len sign args\<bar>, arg_value len sign args < 0, arg_rest len args)"
proof (cases "len = LengthLongLong")
  case True
  then show ?thesis
    by (simp add: fetch_number_def arg_value_def arg_rest_def va_arg64_def Let_def word_sless_alt)
next
  case False
  have "sint (0x80000000 :: u32) = - (2 ^ 31)" by simp
  then have "sint (args 0) \<noteq> - (2 ^ 31)" if sign
    using assms False that by (metis signed_word_eqI)
  then have m: "sint (- args 0) = - sint (args 0)" if sign using sint_minus32 that by blast
  have s: "(scast w :: u64) = of_int (sint w)" for w :: u32 by simp
  have u: "(ucast w :: u64) = of_int (uint w)" for w :: u32 by simp
  show ?thesis
    using False m by (auto simp: fetch_number_def arg_value_def arg_rest_def va_arg32_def Let_def word_sless_alt s u
        simp del: of_int_sint of_int_uint)
qed

lemma arg_value_range: "\<bar>arg_value len sign args\<bar> < 2 ^ 64"
proof -
  have "\<bar>sint w\<bar> < 2 ^ 64" "\<bar>uint w\<bar> < 2 ^ 64" for w :: u64
    using sint_ge [of w] sint_lt [of w] unsigned_less [of w, where ?'a = int] by simp_all
  moreover have "\<bar>sint w\<bar> < 2 ^ 64" "\<bar>uint w\<bar> < 2 ^ 64" for w :: u32
    using sint_ge [of w] sint_lt [of w] unsigned_less [of w, where ?'a = int] by simp_all
  ultimately show ?thesis by (simp add: arg_value_def)
qed

lemma printf_number_string:
  assumes b: "2 \<le> unat base" and "\<not> (sign \<and> len \<noteq> LengthLongLong \<and> args 0 = 0x80000000)"
  shows "printf_number args len sign base s =
    Some (arg_rest len args, fold putc (number_string (unat base) (arg_value len sign args)) s)"
proof -
  let ?v = "arg_value len sign args"
  have u: "unat (of_int \<bar>?v\<bar> :: u64) = nat \<bar>?v\<bar>"
    using arg_value_range [of len sign args] by (intro unat_of_int64) simp_all
  have "sign" if "?v < 0" using that by (auto simp: arg_value_def split: if_splits)
  then show ?thesis
    using fetch_number_value [of sign len args, OF assms(2)] digits_loop_text [OF b, of "of_int \<bar>?v\<bar>" "[]"]
    by (auto simp: printf_number_def u number_string_def Let_def)
qed

text \<open>
  C11. Every number conversion in base 8, 10 or 16 returns and prints the sign and the digits
  of its argument: digits of the base that denote its absolute value and do not start with a zero
  unless there is one digit only, and for which the 32-byte buffer is large enough. The least
  \<^verbatim>\<open>int\<close> in a signed conversion without \<^verbatim>\<open>ll\<close> is excepted: the code prints another number for it.
\<close>

theorem printf_number_prints:
  assumes "base = 8 \<or> base = 10 \<or> base = 16"
    and "\<not> (sign \<and> len \<noteq> LengthLongLong \<and> args 0 = 0x80000000)"
  shows "\<exists>ds. printf_number args len sign base s =
      Some (arg_rest len args, fold putc ((if arg_value len sign args < 0 then [45] else []) @ map (\<lambda>d. g_HexChars ! d) ds) s) \<and>
    int (from_digits (unat base) ds) = \<bar>arg_value len sign args\<bar> \<and> (\<forall>d \<in> set ds. d < unat base) \<and>
    (length ds = 1 \<or> ds \<noteq> [] \<and> hd ds \<noteq> 0) \<and> length ds + 1 \<le> 23"
proof -
  let ?v = "arg_value len sign args"
  have b: "2 \<le> unat base" "8 \<le> unat base" using assms(1) by auto
  have "length (digits (unat base) (nat \<bar>?v\<bar>)) \<le> 22"
  proof -
    have "nat \<bar>?v\<bar> < 2 ^ 64" using arg_value_range [of len sign args] by (simp add: nat_less_iff)
    also have "(2 :: nat) ^ 64 \<le> 8 ^ 22" by simp
    also have "(8 :: nat) ^ 22 \<le> unat base ^ 22" using b(2) by (intro power_mono) simp_all
    finally show ?thesis using b by (intro digits_length) simp_all
  qed
  then show ?thesis
    using printf_number_string [OF b(1), of sign len args s, OF assms(2)] from_digits_digits [of "unat base" "nat \<bar>?v\<bar>"]
      digits_less [OF b(1)] digits_leading [OF b(1), of "nat \<bar>?v\<bar>"]
    by (intro exI [of _ "digits (unat base) (nat \<bar>?v\<bar>)"]) (auto simp: number_string_def number_text_def)
qed

theorem printf_number_prints_witness:
  "\<exists>ds rest. printf_number (\<lambda>_. 0xFFFFFFFE) LengthDefault True 10 example_console = Some (rest, fold putc (45 # map (\<lambda>d. g_HexChars ! d) ds) example_console) \<and>
     int (from_digits 10 ds) = 2"
proof -
  have "arg_value LengthDefault True (\<lambda>_. 0xFFFFFFFE) = - 2" by (simp add: arg_value_def)
  then show ?thesis
    using printf_number_prints [of 10 True LengthDefault "\<lambda>_. 0xFFFFFFFE" example_console] by auto
qed

text \<open>
  The least \<^verbatim>\<open>int\<close> is printed as the number that 64-bit sign extension makes of it.
\<close>

lemma printf_number_least_int:
  assumes "args 0 = 0x80000000" and "len \<noteq> LengthLongLong"
  shows "printf_number args len True 10 s =
    Some (arg_rest len args, fold putc (45 # number_text 10 18446744071562067968) s)"
proof -
  have "sint (0x80000000 :: u32) < 0" by simp
  then have "fetch_number len True args = (0xFFFFFFFF80000000, True, arg_rest len args)"
    using assms by (simp add: fetch_number_def va_arg32_def arg_rest_def Let_def word_sless_alt)
  then show ?thesis
    using digits_loop_text [of 10 "0xFFFFFFFF80000000" "[]"] by (simp add: printf_number_def Let_def)
qed

section \<open>What kprintf prints\<close>

text \<open>
  The grammar of the formats that the state machine recognizes, and the meaning of a format:
  a piece is a literal byte or a conversion with its length.
\<close>

datatype conversion = Signed | Unsigned | Hex | Octal

datatype piece = Literal u8 | Percent | Character | Text | Number plength conversion

fun length_bytes :: "plength \<Rightarrow> u8 list" where
  "length_bytes LengthDefault = []"
| "length_bytes LengthShort = [104]"
| "length_bytes LengthShortShort = [104, 104]"
| "length_bytes LengthLong = [108]"
| "length_bytes LengthLongLong = [108, 108]"

fun conversion_byte :: "conversion \<Rightarrow> u8" where
  "conversion_byte Signed = 100"
| "conversion_byte Unsigned = 117"
| "conversion_byte Hex = 120"
| "conversion_byte Octal = 111"

fun piece_bytes :: "piece \<Rightarrow> u8 list" where
  "piece_bytes (Literal c) = [c]"
| "piece_bytes Percent = [37, 37]"
| "piece_bytes Character = [37, 99]"
| "piece_bytes Text = [37, 115]"
| "piece_bytes (Number l k) = 37 # length_bytes l @ [conversion_byte k]"

fun conversion_base :: "conversion \<Rightarrow> u32" where
  "conversion_base Signed = 10"
| "conversion_base Unsigned = 10"
| "conversion_base Hex = 16"
| "conversion_base Octal = 8"

fun print_piece :: "piece \<Rightarrow> va_list \<Rightarrow> 'a console_scheme \<Rightarrow> (va_list \<times> 'a console_scheme) option" where
  "print_piece (Literal c) args s = Some (args, putc c s)"
| "print_piece Percent args s = Some (args, putc 37 s)"
| "print_piece Character args s = Some (\<lambda>i. args (i + 1), putc (ucast (args 0)) s)"
| "print_piece Text args s = map_option (\<lambda>s'. (\<lambda>i. args (i + 1), s')) (puts (args 0) s)"
| "print_piece (Number l k) args s = printf_number args l (k = Signed) (conversion_base k) s"

fun print_pieces :: "piece list \<Rightarrow> va_list \<Rightarrow> 'a console_scheme \<Rightarrow> 'a console_scheme option" where
  "print_pieces [] args s = Some s"
| "print_pieces (p # ps) args s = Option.bind (print_piece p args s) (\<lambda>(args', s'). print_pieces ps args' s')"

lemma kprintf_loop_append:
  "kprintf_loop (xs @ ys) f s = Option.bind (kprintf_loop xs f s) (\<lambda>(f', s'). kprintf_loop ys f' s')"
  by (induction xs arbitrary: f s) (auto split: Option.bind_splits)

lemma start_state_fields [simp]:
  "pf_state (start_state args) = StateNormal" "pf_length (start_state args) = LengthDefault"
  "pf_args (start_state args) = args"
  by (simp_all add: start_state_def)

lemma piece_step:
  assumes "p \<noteq> Literal 37"
  shows "kprintf_loop (piece_bytes p) (start_state args) s =
    map_option (\<lambda>(args', s'). (start_state args', s')) (print_piece p args s)"
proof (cases p)
  case (Number l k)
  then show ?thesis
    by (cases l; cases k)
      (auto simp: kprintf_step_def kprintf_spec_def map_option_case split: option.splits)
qed (use assms in \<open>auto simp: kprintf_step_def kprintf_spec_def va_arg32_def map_option_case split: option.splits\<close>)

text \<open>
  C12. \<open>kprintf\<close> on the text of a list of pieces prints the pieces one after the other, each
  taking its own arguments: the state machine parses every such format.
\<close>

theorem kprintf_prints_pieces:
  assumes "Literal 37 \<notin> set ps"
  shows "kprintf (concat (map piece_bytes ps)) args s = print_pieces ps args s"
proof -
  have "map_option snd (kprintf_loop (concat (map piece_bytes ps)) (start_state args) s) = print_pieces ps args s"
    using assms
  proof (induction ps arbitrary: args s)
    case (Cons p ps)
    then have "p \<noteq> Literal 37" by auto
    then have "kprintf_loop (piece_bytes p) (start_state args) s =
        map_option (\<lambda>(args', s'). (start_state args', s')) (print_piece p args s)"
      by (rule piece_step)
    with Cons show ?case by (cases "print_piece p args s") (auto simp: kprintf_loop_append)
  qed simp
  then show ?thesis by (simp add: kprintf_def)
qed

text \<open>The format \<^verbatim>\<open>"Max: %d, %llx"\<close>.\<close>

theorem kprintf_prints_pieces_witness:
  "kprintf [77, 97, 120, 58, 32, 37, 100, 44, 32, 37, 108, 108, 120] (\<lambda>_. 7) example_console =
     print_pieces [Literal 77, Literal 97, Literal 120, Literal 58, Literal 32, Number LengthDefault Signed,
       Literal 44, Literal 32, Number LengthLongLong Hex] (\<lambda>_. 7) example_console"
  using kprintf_prints_pieces [of "[Literal 77, Literal 97, Literal 120, Literal 58, Literal 32,
    Number LengthDefault Signed, Literal 44, Literal 32, Number LengthLongLong Hex]" "\<lambda>_. 7" example_console]
  by simp

end
