(* ===== verification/Smap.thy ===== *)
theory Smap
  imports Printf Pmm
begin

text \<open>
  The memory map that the boot loader leaves at 0xA000, and the two functions of
  \<^verbatim>\<open>kernel/stdio.c\<close> that print it; the first of them also releases the available regions
  to the physical memory manager, which is how the allocator gets its memory.
\<close>

section \<open>Entries\<close>

text \<open>\<^verbatim>\<open>SMAP_entry_t\<close>: 24 packed bytes.\<close>

record SMAP_entry =
  base_address :: u64
  region_length :: u64
  region_type :: u32
  acpi :: u32

definition load64 :: "memory \<Rightarrow> u32 \<Rightarrow> u64" where
  "load64 m a = ucast (load32 m a) OR push_bit 32 (ucast (load32 m (a + 4)))"

definition smap_entry :: "memory \<Rightarrow> u32 \<Rightarrow> SMAP_entry" where
  "smap_entry m a = \<lparr>base_address = load64 m a, region_length = load64 m (a + 8),
     region_type = load32 m (a + 16), acpi = load32 m (a + 20)\<rparr>"

section \<open>Printing\<close>

definition low_word :: "u64 \<Rightarrow> u32" where "low_word v = ucast v"
definition high_word :: "u64 \<Rightarrow> u32" where "high_word v = ucast (drop_bit 32 v)"

text \<open>The argument words of a call, in their order on the stack.\<close>

definition stack_words :: "u32 list \<Rightarrow> va_list" where
  "stack_words ws = (\<lambda>i. if i < length ws then ws ! i else 0)"

definition type_text :: "u32 \<Rightarrow> string" where
  "type_text t =
     (if t = 1 then '' (Available)'' else if t = 2 then '' (Reserved)''
      else if t = 3 then '' (ACPI Reclaim)'' else if t = 4 then '' (ACPI NVS Memory)''
      else '' (Reserved)'') @ [CHR 0x0D, CHR 0x0A]"

definition print_entry :: "u32 \<Rightarrow> SMAP_entry \<Rightarrow> 'a console_scheme \<Rightarrow> 'a console_scheme option" where
  "print_entry i e s = do {
     s1 \<leftarrow> kprintf (bytes ''Entry %u: base=0x%llx length=0x%llx type=%u'')
       (stack_words [i, low_word (base_address e), high_word (base_address e),
          low_word (region_length e), high_word (region_length e), region_type e]) s;
     kprintf (bytes (type_text (region_type e))) (stack_words []) s1
   }"

text \<open>The summary below the entries; \<open>entry\<close> is one past the last entry and is decremented.\<close>

definition print_totals :: "u32 \<Rightarrow> 'b pmm_scheme \<Rightarrow> 'a console_scheme \<Rightarrow> 'a console_scheme option" where
  "print_totals entry p s = do {
     s1 \<leftarrow> kprintf [13, 10] (stack_words []) s;
     s2 \<leftarrow> kprintf (bytes ''Total memory in bytes: '') (stack_words []) s1;
     let e = smap_entry (cmem s2) (entry - 24);
     let total_mem = base_address e + region_length e - 1;
     s3 \<leftarrow> kprintf (bytes ''0x%llx'' @ [13, 10]) (stack_words [low_word total_mem, high_word total_mem]) s2;
     s4 \<leftarrow> kprintf (bytes ''Maximum number of blocks: %d'' @ [13, 10]) (stack_words [max_blocks p]) s3;
     s5 \<leftarrow> kprintf (bytes ''Used blocks: %d'' @ [13, 10]) (stack_words [used_blocks p]) s4;
     kprintf (bytes ''Available blocks: %d'' @ [13, 10]) (stack_words [max_blocks p - used_blocks p]) s5
   }"

text \<open>The loops over the entries; \<open>k\<close> counts the entries still to come.\<close>

primrec physical_loop ::
    "nat \<Rightarrow> u32 \<Rightarrow> u32 \<Rightarrow> 'b pmm_scheme \<Rightarrow> 'a console_scheme \<Rightarrow> ('b pmm_scheme \<times> 'a console_scheme) option" where
  "physical_loop 0 i a p s = Some (p, s)"
| "physical_loop (Suc k) i a p s = do {
     let e = smap_entry (cmem s) a;
     s1 \<leftarrow> print_entry i e s;
     let p1 = (if region_type e = 1 then
                 initialize_memory_region (low_word (base_address e)) (low_word (region_length e)) p
               else p);
     physical_loop k (i + 1) (a + 24) p1 s1
   }"

definition print_physical_memory ::
    "'b pmm_scheme \<Rightarrow> 'a console_scheme \<Rightarrow> ('b pmm_scheme \<times> 'a console_scheme) option" where
  "print_physical_memory p s = do {
     let num = load32 (cmem s) 0xA000;
     (p1, s1) \<leftarrow> physical_loop (unat num) 0 0xA004 p s;
     s2 \<leftarrow> print_totals (0xA004 + 24 * num) p1 s1;
     Some (p1, s2)
   }"

primrec memmap_loop :: "nat \<Rightarrow> u32 \<Rightarrow> u32 \<Rightarrow> 'a console_scheme \<Rightarrow> 'a console_scheme option" where
  "memmap_loop 0 i a s = Some s"
| "memmap_loop (Suc k) i a s = Option.bind (print_entry i (smap_entry (cmem s) a) s) (memmap_loop k (i + 1) (a + 24))"

definition print_memmap_command :: "'b pmm_scheme \<Rightarrow> 'a console_scheme \<Rightarrow> 'a console_scheme option" where
  "print_memmap_command p s = do {
     let num = load32 (cmem s) 0xA000;
     s1 \<leftarrow> memmap_loop (unat num) 0 0xA004 s;
     print_totals (0xA004 + 24 * num) p s1
   }"

section \<open>Which regions become free\<close>

text \<open>
  Formats without string conversions: printing them returns, whatever the arguments, and
  leaves everything outside the screen's memory alone. \<open>no_text\<close> runs the format through the
  states of \<open>kprintf\<close>.
\<close>

fun next_pstate :: "u8 \<Rightarrow> pstate \<Rightarrow> pstate" where
  "next_pstate c StateNormal = (if c = 37 then StateLength else StateNormal)"
| "next_pstate c StateLength = (if c = 104 then StateLengthShort else if c = 108 then StateLengthLong else StateNormal)"
| "next_pstate c StateLengthShort = (if c = 104 then StateSpec else StateNormal)"
| "next_pstate c StateLengthLong = (if c = 108 then StateSpec else StateNormal)"
| "next_pstate c StateSpec = StateNormal"

fun no_text :: "pstate \<Rightarrow> u8 list \<Rightarrow> bool" where
  "no_text st [] = True"
| "no_text st (c # cs) \<longleftrightarrow> (st = StateNormal \<or> c \<noteq> 115) \<and> no_text (next_pstate c st) cs"

definition printed :: "'a console_scheme \<Rightarrow> 'a console_scheme \<Rightarrow> bool" where
  "printed s s' \<longleftrightarrow> screen_ok s' \<and> outside_kept s s'"

lemma printed_refl: "screen_ok s \<Longrightarrow> printed s s"
  by (simp add: printed_def)

lemma printed_trans: "printed s t \<Longrightarrow> printed t u \<Longrightarrow> printed s u"
  using outside_kept_trans by (auto simp: printed_def)

lemma printed_putc: "screen_ok s \<Longrightarrow> printed s (putc c s)"
  by (simp add: printed_def putc_term)

lemma printed_fold: "screen_ok s \<Longrightarrow> printed s (fold putc cs s)"
proof (induction cs arbitrary: s)
  case (Cons c cs)
  then have "printed s (putc c s)" "printed (putc c s) (fold putc cs (putc c s))"
    by (simp_all add: printed_putc putc_term)
  then show ?case using printed_trans by simp
qed (simp add: printed_refl)

lemma printed_number:
  assumes "screen_ok s" and "2 \<le> unat base"
  shows "\<exists>rest s'. printf_number args len sign base s = Some (rest, s') \<and> printed s s'"
proof -
  obtain n neg rest where f: "fetch_number len sign args = (n, neg, rest)" by (cases "fetch_number len sign args")
  show ?thesis
    using digits_loop_text [OF assms(2), of n "[]"] printed_fold [OF assms(1)]
    by (auto simp: printf_number_def f Let_def)
qed

lemma kprintf_spec_printed:
  assumes "screen_ok s" and "c \<noteq> 115"
  shows "\<exists>f' s'. kprintf_spec c f s = Some (f', s') \<and> pf_state f' = StateNormal \<and> printed s s'"
proof -
  have n: "\<exists>rest s'. printf_number (pf_args f) (pf_length f) sg base s = Some (rest, s') \<and> printed s s'"
    if "base = 8 \<or> base = 10 \<or> base = 16" for sg base
    using printed_number [OF assms(1)] that by auto
  show ?thesis
    using n [of 10 True] n [of 10 False] n [of 16 False] n [of 8 False] assms printed_putc [OF assms(1)] printed_refl [OF assms(1)]
    by (auto simp: kprintf_spec_def va_arg32_def)
qed

lemma kprintf_step_printed:
  assumes "screen_ok s" and "pf_state f = StateNormal \<or> c \<noteq> 115"
  shows "\<exists>f' s'. kprintf_step c f s = Some (f', s') \<and> pf_state f' = next_pstate c (pf_state f) \<and> printed s s'"
  using kprintf_spec_printed [OF assms(1), of c f] assms printed_putc [OF assms(1)] printed_refl [OF assms(1)]
  by (cases "pf_state f") (auto simp: kprintf_step_def)

lemma kprintf_loop_printed:
  "screen_ok s \<Longrightarrow> no_text (pf_state f) cs \<Longrightarrow> \<exists>f' s'. kprintf_loop cs f s = Some (f', s') \<and> printed s s'"
proof (induction cs arbitrary: f s)
  case (Cons c cs)
  have ex: "\<exists>f' s'. kprintf_step c f s = Some (f', s') \<and> pf_state f' = next_pstate c (pf_state f) \<and> printed s s'"
    using Cons.prems by (intro kprintf_step_printed) auto
  then obtain f1 s1 where st: "kprintf_step c f s = Some (f1, s1)" "pf_state f1 = next_pstate c (pf_state f)" "printed s s1"
    by blast
  then have "\<exists>f' s'. kprintf_loop cs f1 s1 = Some (f', s') \<and> printed s1 s'"
    using Cons by (auto simp: printed_def)
  then show ?case using st printed_trans by auto
qed (simp add: printed_refl)

lemma kprintf_printed:
  assumes "no_text StateNormal fmt" and "screen_ok s"
  shows "\<exists>s'. kprintf fmt args s = Some s' \<and> printed s s'"
  using kprintf_loop_printed [OF assms(2), of "start_state args" fmt] assms(1) by (auto simp: kprintf_def)

lemma entry_formats:
  "no_text StateNormal (bytes ''Entry %u: base=0x%llx length=0x%llx type=%u'')"
  "no_text StateNormal (bytes (type_text t))"
  "no_text StateNormal (bytes ''Total memory in bytes: '')"
  "no_text StateNormal (bytes ''0x%llx'' @ [13, 10])"
  "no_text StateNormal (bytes ''Maximum number of blocks: %d'' @ [13, 10])"
  "no_text StateNormal (bytes ''Used blocks: %d'' @ [13, 10])"
  "no_text StateNormal (bytes ''Available blocks: %d'' @ [13, 10])"
  "no_text StateNormal [13, 10]"
  by (simp_all add: bytes_def type_text_def of_char_def)

lemma print_entry_printed:
  assumes "screen_ok s"
  shows "\<exists>s'. print_entry i e s = Some s' \<and> printed s s'"
proof -
  obtain s1 where s1: "kprintf (bytes ''Entry %u: base=0x%llx length=0x%llx type=%u'')
       (stack_words [i, low_word (base_address e), high_word (base_address e),
          low_word (region_length e), high_word (region_length e), region_type e]) s = Some s1" "printed s s1"
    using kprintf_printed [OF entry_formats(1) assms] by blast
  then obtain s2 where "kprintf (bytes (type_text (region_type e))) (stack_words []) s1 = Some s2" "printed s1 s2"
    using kprintf_printed [OF entry_formats(2)] unfolding printed_def by blast
  then show ?thesis using s1 printed_trans by (auto simp: print_entry_def)
qed

lemma print_totals_printed:
  assumes "screen_ok s"
  shows "\<exists>s'. print_totals a p s = Some s' \<and> printed s s'"
proof -
  have step: "\<exists>s2. kprintf fmt args s1 = Some s2 \<and> printed s s2"
    if "no_text StateNormal fmt" "printed s s1" for fmt args s1
    using kprintf_printed [OF that(1)] that(2) printed_trans unfolding printed_def by blast
  obtain s1 where s1: "kprintf [13, 10] (stack_words []) s = Some s1" "printed s s1"
    using step [OF entry_formats(8) printed_refl [OF assms]] by blast
  obtain s2 where s2: "kprintf (bytes ''Total memory in bytes: '') (stack_words []) s1 = Some s2" "printed s s2"
    using step [OF entry_formats(3) s1(2)] by blast
  define e where "e = smap_entry (cmem s2) (a - 24)"
  define t where "t = base_address e + region_length e - 1"
  obtain s3 where s3: "kprintf (bytes ''0x%llx'' @ [13, 10]) (stack_words [low_word t, high_word t]) s2 = Some s3" "printed s s3"
    using step [OF entry_formats(4) s2(2)] by blast
  obtain s4 where s4: "kprintf (bytes ''Maximum number of blocks: %d'' @ [13, 10]) (stack_words [max_blocks p]) s3 = Some s4" "printed s s4"
    using step [OF entry_formats(5) s3(2)] by blast
  obtain s5 where s5: "kprintf (bytes ''Used blocks: %d'' @ [13, 10]) (stack_words [used_blocks p]) s4 = Some s5" "printed s s5"
    using step [OF entry_formats(6) s4(2)] by blast
  obtain s6 where s6: "kprintf (bytes ''Available blocks: %d'' @ [13, 10]) (stack_words [max_blocks p - used_blocks p]) s5 = Some s6" "printed s s6"
    using step [OF entry_formats(7) s5(2)] by blast
  show ?thesis
    using s1(1) s2(1) s3(1) s4(1) s5(1) s6 unfolding print_totals_def e_def t_def by (simp add: Let_def)
qed

section \<open>Which regions become free\<close>

text \<open>The effect of the map on the allocator, without the printing.\<close>

definition release_entry :: "SMAP_entry \<Rightarrow> 'b pmm_scheme \<Rightarrow> 'b pmm_scheme" where
  "release_entry e p =
     (if region_type e = 1 then initialize_memory_region (ucast (base_address e)) (ucast (region_length e)) p else p)"

definition smap_entries :: "memory \<Rightarrow> u32 \<Rightarrow> nat \<Rightarrow> SMAP_entry list" where
  "smap_entries m a k = map (\<lambda>i. smap_entry m (a + 24 * of_nat i)) [0..<k]"

definition entry_outside :: "u32 \<Rightarrow> bool" where
  "entry_outside a \<longleftrightarrow> (\<forall>k < 24. \<not> in_vga (a + k))"

lemma load32_printed:
  assumes "printed s s'" and "\<And>k. k < 4 \<Longrightarrow> \<not> in_vga (a + k)"
  shows "load32 (cmem s') a = load32 (cmem s) a"
  using assms by (intro load32_cong) (simp add: printed_def outside_kept_def)

lemma smap_entry_printed:
  assumes "printed s s'" and "entry_outside a"
  shows "smap_entry (cmem s') a = smap_entry (cmem s) a"
proof -
  have "load32 (cmem s') (a + d) = load32 (cmem s) (a + d)" if "d \<le> 20" for d
  proof (rule load32_printed [OF assms(1)])
    fix k :: u32 assume "k < 4"
    then have "d + k < 24" using that by (simp add: word_less_nat_alt word_le_nat_alt unat_add_no_wrap)
    then show "\<not> in_vga (a + d + k)" using assms(2) by (simp add: entry_outside_def add.assoc)
  qed
  from this [of 0] this [of 4] this [of 8] this [of 12] this [of 16] this [of 20]
  show ?thesis by (simp add: smap_entry_def load64_def add.assoc)
qed

lemma physical_loop_releases:
  assumes "screen_ok s" and "\<And>i. i < k \<Longrightarrow> entry_outside (a + 24 * of_nat i)"
  shows "\<exists>s'. physical_loop k n a p s = Some (fold release_entry (smap_entries (cmem s) a k) p, s') \<and> printed s s'"
  using assms
proof (induction k arbitrary: n a p s)
  case (Suc k)
  let ?e = "smap_entry (cmem s) a"
  obtain s1 where s1: "print_entry n ?e s = Some s1" "printed s s1"
    using print_entry_printed [OF Suc.prems(1)] by blast
  have out: "entry_outside (a + 24 + 24 * of_nat i)" if "i < k" for i
    using Suc.prems(2) [of "Suc i"] that by (simp add: algebra_simps)
  have "screen_ok s1" using s1(2) by (simp add: printed_def)
  then obtain s2 where s2: "physical_loop k (n + 1) (a + 24) (release_entry ?e p) s1 =
      Some (fold release_entry (smap_entries (cmem s1) (a + 24) k) (release_entry ?e p), s2)" "printed s1 s2"
    using Suc.IH out by blast
  have "smap_entries (cmem s1) (a + 24) k = smap_entries (cmem s) (a + 24) k"
    using smap_entry_printed [OF s1(2)] out by (simp add: smap_entries_def)
  moreover have "smap_entries (cmem s) a (Suc k) = ?e # smap_entries (cmem s) (a + 24) k"
    unfolding smap_entries_def upt_conv_Cons [OF zero_less_Suc] map_Suc_upt [symmetric]
    by (simp add: algebra_simps)
  moreover have "(if region_type ?e = 1 then
      initialize_memory_region (low_word (base_address ?e)) (low_word (region_length ?e)) p else p) = release_entry ?e p"
    by (simp add: release_entry_def low_word_def)
  ultimately show ?case using s1 s2 printed_trans [OF s1(2) s2(2)] by (simp add: Let_def)
qed (simp add: smap_entries_def printed_refl)

text \<open>
  \<open>print_physical_memory\<close> returns and, whatever it prints, gives the allocator exactly the
  available entries of the map, in order, with base and length cut to 32 bits; memory outside
  the screen is unchanged.
\<close>

lemma print_physical_memory_releases:
  assumes "screen_ok s" and "num = unat (load32 (cmem s) 0xA000)"
    and "\<And>i. i < num \<Longrightarrow> entry_outside (0xA004 + 24 * of_nat i)"
  shows "\<exists>s'. print_physical_memory p s = Some (fold release_entry (smap_entries (cmem s) 0xA004 num) p, s') \<and>
    screen_ok s' \<and> outside_kept s s'"
proof -
  obtain s1 where s1: "physical_loop num 0 0xA004 p s = Some (fold release_entry (smap_entries (cmem s) 0xA004 num) p, s1)"
      "printed s s1"
    using physical_loop_releases [of s num "0xA004" 0 p] assms by blast
  then obtain s2 where "print_totals (0xA004 + 24 * load32 (cmem s) 0xA000)
      (fold release_entry (smap_entries (cmem s) 0xA004 num) p) s1 = Some s2" "printed s1 s2"
    using print_totals_printed unfolding printed_def by blast
  then show ?thesis
    using s1 assms(2) printed_trans [OF s1(2)] by (auto simp: print_physical_memory_def Let_def printed_def)
qed

text \<open>A map with one available page at 0x100000.\<close>

definition example_map :: console where
  "example_map = example_console\<lparr>cmem := (\<lambda>_. 0)(0xA000 := 1, 0xA006 := 0x10, 0xA00D := 0x10, 0xA014 := 1)\<rparr>"

lemma print_physical_memory_releases_witness:
  "\<exists>s'. print_physical_memory example_pmm example_map = Some (initialize_memory_region 0x100000 0x1000 example_pmm, s') \<and> screen_ok s'"
proof -
  have ok: "screen_ok example_map" using example_console_ok by (simp add: example_map_def screen_ok_def)
  have n: "1 = unat (load32 (cmem example_map) 0xA000)" by (simp add: example_map_def load32_def)
  have "entry_outside 0xA004"
    unfolding entry_outside_def
  proof (intro allI impI)
    fix k :: u32 assume "k < 24"
    then have "unat (0xA004 + k) < 0xB8000" by (simp add: unat_add_no_wrap word_less_nat_alt)
    then show "\<not> in_vga (0xA004 + k)" by (simp add: in_vga_def word_le_nat_alt)
  qed
  then obtain s' where s': "print_physical_memory example_pmm example_map =
      Some (fold release_entry (smap_entries (cmem example_map) 0xA004 1) example_pmm, s')" "screen_ok s'"
    using print_physical_memory_releases [OF ok n, of example_pmm] by auto
  have "smap_entry (cmem example_map) 0xA004 =
      \<lparr>base_address = 0x100000, region_length = 0x1000, region_type = 1, acpi = 0\<rparr>"
    by (simp add: smap_entry_def load64_def load32_def example_map_def)
  then show ?thesis using s' by (simp add: smap_entries_def release_entry_def)
qed

end
