(* ===== verification/Pic.thy ===== *)
theory Pic
  imports Ports
begin

text \<open>
  The interrupt controllers and the timer, \<^verbatim>\<open>kernel/interrupts/pic.c\<close>. The two 8259
  chips are devices behind ports: \<open>chip_step\<close> is the part of their documented behaviour that
  the code relies on (the initialization sequence and the mask register), and the properties
  assume that reads of the data ports return the mask register.
\<close>

section \<open>Operations\<close>

definition PIC1_COMMAND :: u16 where "PIC1_COMMAND = 0x20"
definition PIC1_DATA :: u16 where "PIC1_DATA = 0x21"
definition PIC2_COMMAND :: u16 where "PIC2_COMMAND = 0xA0"
definition PIC2_DATA :: u16 where "PIC2_DATA = 0xA1"
definition PIC_EOI :: u8 where "PIC_EOI = 0x20"
definition ICW1_ICW4 :: u8 where "ICW1_ICW4 = 1"
definition ICW1_INIT :: u8 where "ICW1_INIT = 0x10"
definition ICW4_8086 :: u8 where "ICW4_8086 = 1"

lemmas pic_constants = PIC1_COMMAND_def PIC1_DATA_def PIC2_COMMAND_def PIC2_DATA_def PIC_EOI_def
  ICW1_ICW4_def ICW1_INIT_def ICW4_8086_def

definition PIC_sendEOI :: "u8 \<Rightarrow> 'a ports_scheme \<Rightarrow> 'a ports_scheme" where
  "PIC_sendEOI irq s =
     (let s1 = (if 8 \<le> irq then outb PIC2_COMMAND PIC_EOI s else s) in outb PIC1_COMMAND PIC_EOI s1)"

definition PIC_remap :: "device \<Rightarrow> u8 \<Rightarrow> 'a ports_scheme \<Rightarrow> 'a ports_scheme" where
  "PIC_remap dev offset1 s =
     (let (master_mask, s1) = inb dev PIC1_DATA s;
          (slave_mask, s2) = inb dev PIC2_DATA s1;
          s3 = outb PIC1_COMMAND (ICW1_INIT OR ICW1_ICW4) s2;
          s4 = outb PIC2_COMMAND (ICW1_INIT OR ICW1_ICW4) s3;
          s5 = outb PIC1_DATA offset1 s4;
          s6 = outb PIC2_DATA (offset1 + 8) s5;
          s7 = outb PIC1_DATA 4 s6;
          s8 = outb PIC2_DATA 2 s7;
          s9 = outb PIC1_DATA ICW4_8086 s8;
          s10 = outb PIC2_DATA ICW4_8086 s9;
          s11 = outb PIC1_DATA master_mask s10
      in outb PIC2_DATA slave_mask s11)"

definition pic_disable :: "'a ports_scheme \<Rightarrow> 'a ports_scheme" where
  "pic_disable s = outb PIC2_DATA 0xFF (outb PIC1_DATA 0xFF s)"

text \<open>\<^verbatim>\<open>1 << IRQline\<close> is a shift of an \<^verbatim>\<open>int\<close>, cut to a byte when it is stored.\<close>

definition irq_port :: "u8 \<Rightarrow> u16 \<times> u8" where
  "irq_port irq = (if irq < 8 then (PIC1_DATA, irq) else (PIC2_DATA, irq - 8))"

definition IRQ_set_mask :: "device \<Rightarrow> u8 \<Rightarrow> 'a ports_scheme \<Rightarrow> 'a ports_scheme" where
  "IRQ_set_mask dev irq s =
     (let (p, line) = irq_port irq;
          (v, s1) = inb dev p s
      in outb p (ucast (ucast v OR (push_bit (unat line) 1 :: u32))) s1)"

definition IRQ_clear_mask :: "device \<Rightarrow> u8 \<Rightarrow> 'a ports_scheme \<Rightarrow> 'a ports_scheme" where
  "IRQ_clear_mask dev irq s =
     (let (p, line) = irq_port irq;
          (v, s1) = inb dev p s
      in outb p (ucast (ucast v AND NOT (push_bit (unat line) 1 :: u32))) s1)"

definition pic_get_irq_reg :: "device \<Rightarrow> u8 \<Rightarrow> 'a ports_scheme \<Rightarrow> u16 \<times> 'a ports_scheme" where
  "pic_get_irq_reg dev ocw3 s =
     (let s1 = outb PIC2_COMMAND ocw3 (outb PIC1_COMMAND ocw3 s);
          (hi, s2) = inb dev PIC2_COMMAND s1;
          (lo, s3) = inb dev PIC1_COMMAND s2
      in (push_bit 8 (ucast hi) OR ucast lo, s3))"

definition pic_get_irr :: "device \<Rightarrow> 'a ports_scheme \<Rightarrow> u16 \<times> 'a ports_scheme" where
  "pic_get_irr dev s = pic_get_irq_reg dev 0x0A s"

definition pic_get_isr :: "device \<Rightarrow> 'a ports_scheme \<Rightarrow> u16 \<times> 'a ports_scheme" where
  "pic_get_isr dev s = pic_get_irq_reg dev 0x0B s"

definition set_PIT :: "u8 \<Rightarrow> u8 \<Rightarrow> u16 \<Rightarrow> 'a ports_scheme \<Rightarrow> 'a ports_scheme" where
  "set_PIT channel operating_mode frequency s =
     (if 2 < channel then s
      else outb (0x40 + ucast channel) (ucast (drop_bit 8 frequency))
             (outb (0x40 + ucast channel) (ucast frequency)
               (outb 0x43 (push_bit 6 channel OR push_bit 4 3 OR push_bit 1 operating_mode) s)))"

text \<open>The four ports differ.\<close>

lemma port_numbers [simp]:
  "PIC1_DATA \<noteq> PIC1_COMMAND" "PIC2_DATA \<noteq> PIC1_COMMAND" "PIC2_COMMAND \<noteq> PIC1_COMMAND"
  "PIC2_DATA \<noteq> PIC2_COMMAND" "PIC1_DATA \<noteq> PIC2_COMMAND" "PIC1_COMMAND \<noteq> PIC2_COMMAND"
  "PIC1_DATA \<noteq> PIC2_DATA" "PIC2_DATA \<noteq> PIC1_DATA" "PIC1_COMMAND \<noteq> PIC1_DATA" "PIC1_COMMAND \<noteq> PIC2_DATA"
  "PIC2_COMMAND \<noteq> PIC1_DATA" "PIC2_COMMAND \<noteq> PIC2_DATA"
  by (simp_all add: pic_constants)

section \<open>The chips\<close>

text \<open>
  One 8259: how many initialization words it still expects, the vector base and the mask.
  Bit 4 of a command byte starts the initialization; the first of the three words that
  follow on the data port is the vector base, and any other data byte is the mask.
\<close>

record chip =
  expects :: nat
  vector_base :: u8
  mask_register :: u8

fun chip_step :: "u16 \<Rightarrow> u16 \<Rightarrow> io_event \<Rightarrow> chip \<Rightarrow> chip" where
  "chip_step cmd dat (Outb p v) c =
     (if p = cmd then if bit v 4 then c\<lparr>expects := 3, mask_register := 0\<rparr> else c
      else if p = dat then
        if expects c = 0 then c\<lparr>mask_register := v\<rparr>
        else if expects c = 3 then c\<lparr>expects := 2, vector_base := v\<rparr>
        else c\<lparr>expects := expects c - 1\<rparr>
      else c)"
| "chip_step cmd dat e c = c"

definition chip1 :: "chip \<Rightarrow> io_event list \<Rightarrow> chip" where
  "chip1 c log = fold (chip_step PIC1_COMMAND PIC1_DATA) log c"

definition chip2 :: "chip \<Rightarrow> io_event list \<Rightarrow> chip" where
  "chip2 c log = fold (chip_step PIC2_COMMAND PIC2_DATA) log c"

text \<open>The device reports the masks of the two chips, which were in states \<open>a\<close> and \<open>b\<close> at first.\<close>

definition reports_masks :: "chip \<Rightarrow> chip \<Rightarrow> device \<Rightarrow> bool" where
  "reports_masks a b dev \<longleftrightarrow>
     (\<forall>log. dev log PIC1_DATA = ucast (mask_register (chip1 a log)) \<and>
            dev log PIC2_DATA = ucast (mask_register (chip2 b log)))"

lemma chips_append [simp]:
  "chip1 c (log @ es) = fold (chip_step PIC1_COMMAND PIC1_DATA) es (chip1 c log)"
  "chip2 c (log @ es) = fold (chip_step PIC2_COMMAND PIC2_DATA) es (chip2 c log)"
  by (simp_all add: chip1_def chip2_def)

lemma byte_word_byte [simp]: "ucast (ucast (v :: u8) :: u16) = v"
  by (rule bit_word_eqI) (simp add: bit_simps)

text \<open>What a read of a data port returns, and what it logs.\<close>

lemma inb_mask:
  assumes "reports_masks a b dev"
  shows "inb dev PIC1_DATA s = (mask_register (chip1 a (io_log s)), s\<lparr>io_log := io_log s @ [Inb PIC1_DATA]\<rparr>)"
    and "inb dev PIC2_DATA s = (mask_register (chip2 b (io_log s)), s\<lparr>io_log := io_log s @ [Inb PIC2_DATA]\<rparr>)"
  using assms by (simp_all add: inb_def reports_masks_def)

text \<open>
  C13. Whatever state the chips are in, \<open>PIC_remap\<close> leaves both initialized, with the vector
  bases \<open>offset1\<close> and \<open>offset1 + 8\<close> and the masks they had before.
\<close>

theorem PIC_remap_remaps:
  assumes "reports_masks a b dev"
  shows "chip1 a (io_log (PIC_remap dev offset1 s)) =
      \<lparr>expects = 0, vector_base = offset1, mask_register = mask_register (chip1 a (io_log s))\<rparr> \<and>
    chip2 b (io_log (PIC_remap dev offset1 s)) =
      \<lparr>expects = 0, vector_base = offset1 + 8, mask_register = mask_register (chip2 b (io_log s))\<rparr>"
proof -
  have init: "bit (0x11 :: u8) 4" by simp
  show ?thesis
    using init by (auto simp: PIC_remap_def inb_mask [OF assms] Let_def PIC_EOI_def ICW1_ICW4_def ICW1_INIT_def ICW4_8086_def
        intro!: chip.equality)
qed

text \<open>The lines that are masked, 0 to 7 on the first chip and 8 to 15 on the second.\<close>

definition irq_masked :: "chip \<Rightarrow> chip \<Rightarrow> 'a ports_scheme \<Rightarrow> nat \<Rightarrow> bool" where
  "irq_masked a b s i \<longleftrightarrow>
     (if i < 8 then bit (mask_register (chip1 a (io_log s))) i
      else i < 16 \<and> bit (mask_register (chip2 b (io_log s))) (i - 8))"

definition chips_ready :: "chip \<Rightarrow> chip \<Rightarrow> 'a ports_scheme \<Rightarrow> bool" where
  "chips_ready a b s \<longleftrightarrow> expects (chip1 a (io_log s)) = 0 \<and> expects (chip2 b (io_log s)) = 0"

lemma mask_bits:
  "k < 8 \<Longrightarrow> bit (ucast (ucast (v :: u8) OR (push_bit k 1 :: u32)) :: u8) n \<longleftrightarrow> n = k \<or> bit v n"
  "k < 8 \<Longrightarrow> bit (ucast (ucast (v :: u8) AND NOT (push_bit k 1 :: u32)) :: u8) n \<longleftrightarrow> n \<noteq> k \<and> bit v n"
  by (auto simp: bit_simps dest: bit_imp_le_length)

text \<open>
  On initialized chips, \<open>IRQ_set_mask\<close> masks exactly the given line of the sixteen and
  \<open>IRQ_clear_mask\<close> unmasks exactly that line.
\<close>

lemma IRQ_mask_lines:
  assumes "reports_masks a b dev" and "chips_ready a b s" and "irq < 16"
  shows "(\<forall>i < 16. irq_masked a b (IRQ_set_mask dev irq s) i \<longleftrightarrow> i = unat irq \<or> irq_masked a b s i) \<and>
    (\<forall>i < 16. irq_masked a b (IRQ_clear_mask dev irq s) i \<longleftrightarrow> i \<noteq> unat irq \<and> irq_masked a b s i)"
proof (cases "irq < 8")
  case True
  then have k: "unat irq < 8" by (simp add: word_less_nat_alt)
  show ?thesis
    using assms True k mask_bits [OF k]
    by (auto simp: IRQ_set_mask_def IRQ_clear_mask_def irq_port_def inb_mask [OF assms(1)] chips_ready_def
        irq_masked_def port_numbers Let_def)
next
  case False
  then have u: "unat (irq - 8) = unat irq - 8" "8 \<le> unat irq" "unat irq < 16"
    using assms(3) by (simp_all add: unat_sub word_less_nat_alt word_le_nat_alt not_less)
  then have k: "unat (irq - 8) < 8" by simp
  show ?thesis
    using assms False u mask_bits [OF k]
    by (auto simp: IRQ_set_mask_def IRQ_clear_mask_def irq_port_def inb_mask [OF assms(1)] chips_ready_def
        irq_masked_def port_numbers Let_def)
qed

section \<open>A concrete pair of chips\<close>

definition example_chip :: chip where
  "example_chip = \<lparr>expects = 0, vector_base = 0, mask_register = 0xB8\<rparr>"

definition example_device :: device where
  "example_device log p =
     (if p = PIC1_DATA then ucast (mask_register (chip1 example_chip log))
      else ucast (mask_register (chip2 example_chip log)))"

lemma example_reports: "reports_masks example_chip example_chip example_device"
  by (simp add: reports_masks_def example_device_def pic_constants)

theorem PIC_remap_remaps_witness:
  "vector_base (chip1 example_chip (io_log (PIC_remap example_device 0x20 \<lparr>io_log = []\<rparr>))) = 0x20 \<and>
   mask_register (chip1 example_chip (io_log (PIC_remap example_device 0x20 \<lparr>io_log = []\<rparr>))) = 0xB8"
  using PIC_remap_remaps [OF example_reports, of "0x20" "\<lparr>io_log = []\<rparr>"]
  by (simp add: chip1_def example_chip_def)

lemma IRQ_mask_lines_witness:
  "\<not> irq_masked example_chip example_chip (IRQ_clear_mask example_device 3 \<lparr>io_log = []\<rparr>) 3"
proof -
  have "chips_ready example_chip example_chip \<lparr>io_log = []\<rparr>"
    by (simp add: chips_ready_def chip1_def chip2_def example_chip_def)
  then show ?thesis using IRQ_mask_lines [OF example_reports, of "\<lparr>io_log = []\<rparr>" 3] by simp
qed

end
