(* ===== verification/Keyboard.thy ===== *)
theory Keyboard
  imports Printf Pic
begin

text \<open>
  The keyboard interrupt handler of \<^verbatim>\<open>kernel/interrupts/exceptions.c\<close> with its key table
  \<^verbatim>\<open>keyboard.h\<close>, and \<^verbatim>\<open>readline\<close> of \<^verbatim>\<open>kernel/stdio.c\<close>, which resets the
  buffer and then polls. The buffer of 256 bytes is a function from indices: the code checks
  no bound, and index 256 and above is the memory behind the array.

  The specification is a line editor on lists; \<open>kbd_step\<close> is the step relation of key events
  and \<open>readline\<close> calls.
\<close>

section \<open>State\<close>

record keyboard = console +
  input_buffer :: "nat \<Rightarrow> u8"
  input_pos :: u32
  input_ready :: bool
  key_shift :: bool
  key_ctrl :: bool
  key_caps :: bool
  key_e0 :: bool
  ticks :: u64

definition INPUT_BUFFER_SIZE :: nat where "INPUT_BUFFER_SIZE = 256"

section \<open>Keys\<close>

definition num_row_shifts :: "u8 list" where
  "num_row_shifts = [41, 33, 64, 35, 36, 37, 94, 38, 42, 40]"

definition keymap :: "u8 list" where
  "keymap =
     [0, 27, 49, 50, 51, 52, 53, 54, 55, 56, 57, 48, 45, 61, 8, 9,
      113, 119, 101, 114, 116, 121, 117, 105, 111, 112, 91, 93, 10, 0,
      97, 115, 100, 102, 103, 104, 106, 107, 108, 59, 39, 96, 0, 92,
      122, 120, 99, 118, 98, 110, 109, 44, 46, 47, 0, 42, 0, 32, 0] @ replicate 69 0"

definition update_modifiers :: "u8 \<Rightarrow> 'a keyboard_scheme \<Rightarrow> 'a keyboard_scheme" where
  "update_modifiers key s =
     (if key = 0x2A \<or> key = 0x36 then s\<lparr>key_shift := True\<rparr>
      else if key = 0xAA \<or> key = 0xB6 then s\<lparr>key_shift := False\<rparr>
      else if key = 0x1D then s\<lparr>key_ctrl := True\<rparr>
      else if key = 0x9D then s\<lparr>key_ctrl := False\<rparr>
      else if key = 0x3A \<and> key_caps s then s\<lparr>key_caps := False\<rparr>
      else if key = 0x3A \<and> \<not> key_caps s then s\<lparr>key_caps := True\<rparr>
      else if key = 0xE0 then s\<lparr>key_e0 := True\<rparr>
      else s)"

definition key_char :: "bool \<Rightarrow> u8 \<Rightarrow> u8" where
  "key_char shifted key =
     (let c = keymap ! unat key
      in if shifted then
           if 97 \<le> c \<and> c \<le> 122 then c - 0x20
           else if 48 \<le> c \<and> c \<le> 57 then num_row_shifts ! unat (c - 0x30)
           else
             let c1 = (if c = 61 then 43 else c)
             in if c1 = 47 then 63 else c1
         else c)"

text \<open>What the handler does with a character; \<^verbatim>\<open>input_buffer[input_pos] = ...\<close> is unchecked.\<close>

definition key_input :: "u8 \<Rightarrow> 'a keyboard_scheme \<Rightarrow> 'a keyboard_scheme option" where
  "key_input c s =
     (if c = 8 then
        if 0 < input_pos s then
          let s1 = s\<lparr>input_pos := input_pos s - 1\<rparr>;
              s2 = s1\<lparr>input_buffer := (input_buffer s1)(unat (input_pos s1) := 0)\<rparr>
          in kprintf [8] (\<lambda>_. 0) s2
        else Some s
      else if c = 10 then
        map_option (\<lambda>s'. s'\<lparr>input_pos := 0\<rparr>) (kprintf [10] (\<lambda>_. 0) (s\<lparr>input_ready := True\<rparr>))
      else
        let s1 = s\<lparr>input_buffer := (input_buffer s)(unat (input_pos s) := c)\<rparr>;
            s2 = s1\<lparr>input_pos := input_pos s1 + 1\<rparr>;
            s3 = s2\<lparr>input_buffer := (input_buffer s2)(unat (input_pos s2) := 0)\<rparr>
        in kprintf [37, 99] (\<lambda>_. ucast c) s3)"

definition handle_key :: "u8 \<Rightarrow> 'a keyboard_scheme \<Rightarrow> 'a keyboard_scheme option" where
  "handle_key key s =
     (if key = 0 then Some s
      else
        let s1 = update_modifiers key s
        in map_option (\<lambda>s2. if key_e0 s2 then s2\<lparr>key_e0 := False\<rparr> else s2)
             (if key AND 0x80 = 0 then
                if \<not> key_e0 s1 \<and> key < 128 then
                  let c = key_char (key_shift s1 \<or> key_caps s1) key
                  in if c \<noteq> 0 then key_input c s1 else Some s1
                else Some s1
              else Some s1))"

definition keyboard_handler :: "device \<Rightarrow> 'a keyboard_scheme \<Rightarrow> 'a keyboard_scheme option" where
  "keyboard_handler dev s =
     (let (key, s1) = inb dev 0x60 s in map_option (PIC_sendEOI 1) (handle_key key s1))"

definition PIT_handler :: "'a keyboard_scheme \<Rightarrow> 'a keyboard_scheme" where
  "PIT_handler s = PIC_sendEOI 0 (s\<lparr>ticks := ticks s + 1\<rparr>)"

text \<open>
  \<open>readline\<close>: the reset, and the polling loop, which ends with the buffer when a key event has
  set \<open>input_ready\<close>; \<open>events\<close> are the devices of the keyboard interrupts that arrive while
  it waits, and \<open>None\<close> is "still waiting".
\<close>

definition readline_start :: "'a keyboard_scheme \<Rightarrow> 'a keyboard_scheme" where
  "readline_start s = s\<lparr>input_pos := 0, input_buffer := (input_buffer s)(0 := 0), input_ready := False\<rparr>"

fun readline_wait :: "device list \<Rightarrow> 'a keyboard_scheme \<Rightarrow> 'a keyboard_scheme option" where
  "readline_wait events s =
     (if input_ready s then Some s
      else case events of [] \<Rightarrow> None | e # es \<Rightarrow> Option.bind (keyboard_handler e s) (readline_wait es))"

definition readline :: "device list \<Rightarrow> 'a keyboard_scheme \<Rightarrow> 'a keyboard_scheme option" where
  "readline events s = readline_wait events (readline_start s)"

section \<open>The line editor\<close>

definition line_of :: "'a keyboard_scheme \<Rightarrow> u8 list" where
  "line_of s = map (input_buffer s) [0..<unat (input_pos s)]"

definition edit :: "u8 \<Rightarrow> u8 list \<Rightarrow> u8 list" where
  "edit c l = (if c = 8 then butlast l else if c = 10 then [] else l @ [c])"

text \<open>What printing one character keeps: everything but screen, cursor and ports.\<close>

lemma putc_more:
  assumes "screen_ok s"
  shows "console.more (putc c s) = console.more s"
  using putc_term(3) [OF assms] by (simp add: outside_kept_def)

lemma keyboard_more:
  assumes "console.more s' = console.more s"
  shows "input_buffer s' = input_buffer s \<and> input_pos s' = input_pos s \<and> input_ready s' = input_ready s \<and>
    key_shift s' = key_shift s \<and> key_ctrl s' = key_ctrl s \<and> key_caps s' = key_caps s \<and> key_e0 s' = key_e0 s \<and>
    ticks s' = ticks s"
  using assms by (cases s; cases s') simp

lemma kprintf_char:
  "c \<noteq> 37 \<Longrightarrow> kprintf [c] args s = Some (putc c s)"
  "kprintf [37, 99] args s = Some (putc (ucast (args 0)) s)"
  by (simp_all add: kprintf_def kprintf_step_def kprintf_spec_def va_arg32_def)

lemma byte_u32_byte [simp]: "ucast (ucast (c :: u8) :: u32) = c"
  by (rule bit_word_eqI) (simp add: bit_simps)

definition kbd_ok :: "'a keyboard_scheme \<Rightarrow> bool" where
  "kbd_ok s \<longleftrightarrow> screen_ok s \<and> \<not> key_e0 s \<and>
     (\<forall>i < unat (input_pos s). input_buffer s i \<noteq> 0) \<and>
     (0 < input_pos s \<or> \<not> input_ready s \<longrightarrow> input_buffer s (unat (input_pos s)) = 0)"

definition mods_of :: "'a keyboard_scheme \<Rightarrow> bool \<times> bool" where
  "mods_of s = (key_shift s, key_caps s)"

text \<open>What else a character event keeps: the memory outside the screen, and a terminator in the buffer.\<close>

definition key_kept :: "'a keyboard_scheme \<Rightarrow> 'a keyboard_scheme \<Rightarrow> bool" where
  "key_kept s s' \<longleftrightarrow> (\<forall>x. \<not> in_vga x \<longrightarrow> cmem s' x = cmem s x) \<and>
     (input_buffer s' = input_buffer s \<or> input_buffer s' (unat (input_pos s')) = 0)"

text \<open>A character event with room in the buffer.\<close>

lemma key_input_edit:
  assumes ok: "kbd_ok s" and room: "unat (input_pos s) < 255" and c: "c \<noteq> 0"
  shows "\<exists>s'. key_input c s = Some s' \<and> kbd_ok s' \<and> line_of s' = edit c (line_of s) \<and>
    (input_ready s' \<longleftrightarrow> input_ready s \<or> c = 10) \<and> unat (input_pos s') \<le> 255 \<and>
    (\<forall>i \<ge> INPUT_BUFFER_SIZE. input_buffer s' i = input_buffer s i) \<and>
    (c = 10 \<longrightarrow> input_buffer s' = input_buffer s) \<and> mods_of s' = mods_of s \<and> key_kept s s'"
proof -
  have scr: "screen_ok s" using ok by (simp add: kbd_ok_def)
  have upd: "screen_ok (s\<lparr>input_pos := p, input_buffer := b\<rparr>)"
    "screen_ok (s\<lparr>input_ready := r\<rparr>)" for p b r
    using scr by (simp_all add: screen_ok_def)
  have kept: "screen_ok t \<Longrightarrow> \<not> in_vga x \<Longrightarrow> cmem (putc d t) x = cmem t x" for t :: "'a keyboard_scheme" and d x
    using putc_term(3) [of t d] by (simp add: outside_kept_def)
  consider "c = 8" "0 < input_pos s" | "c = 8" "input_pos s = 0" | "c = 10" | "c \<noteq> 8" "c \<noteq> 10"
    by (cases "input_pos s = 0") (auto simp: word_neq_0_conv)
  then show ?thesis
  proof cases
    case 1
    define p where "p = input_pos s - 1"
    define t where "t = s\<lparr>input_pos := p, input_buffer := (input_buffer s)(unat p := 0)\<rparr>"
    have r: "key_input c s = Some (putc 8 t)" using 1 by (simp add: key_input_def kprintf_char t_def p_def)
    have t: "screen_ok t" "input_pos t = p" "input_buffer t = (input_buffer s)(unat p := 0)"
      "input_ready t = input_ready s" "key_e0 t = key_e0 s" "cmem t = cmem s"
      "key_shift t = key_shift s" "key_caps t = key_caps s"
      using upd(1) by (simp_all add: t_def)
    note k = keyboard_more [OF putc_more [OF t(1)], of 8]
    have p: "unat (input_pos s) = Suc (unat p)"
      using 1(2) by (simp add: p_def word_less_nat_alt unat_sub word_le_nat_alt Suc_le_eq)
    have l: "line_of (putc 8 t) = butlast (line_of s)" by (simp add: line_of_def k t p)
    show ?thesis
      using r l ok 1 p room putc_term(2) [OF t(1)] kept [OF t(1)]
      by (intro exI [of _ "putc 8 t"]) (auto simp: kbd_ok_def k t edit_def INPUT_BUFFER_SIZE_def mods_of_def key_kept_def)
  next
    case 2
    then show ?thesis using ok room by (auto simp: key_input_def edit_def line_of_def mods_of_def key_kept_def)
  next
    case 3
    define t where "t = s\<lparr>input_ready := True\<rparr>"
    have t: "screen_ok t" "input_buffer t = input_buffer s" "input_ready t" "key_e0 t = key_e0 s" "cmem t = cmem s"
      "key_shift t = key_shift s" "key_caps t = key_caps s"
      using upd(2) by (simp_all add: t_def)
    note k = keyboard_more [OF putc_more [OF t(1)], of 10]
    let ?t = "(putc 10 t)\<lparr>input_pos := 0\<rparr>"
    have r: "key_input c s = Some ?t" using 3 by (simp add: key_input_def kprintf_char t_def)
    have "screen_ok ?t" using putc_term(2) [OF t(1)] by (simp add: screen_ok_def)
    then show ?thesis
      using r ok 3 kept [OF t(1)]
      by (intro exI [of _ ?t]) (auto simp: kbd_ok_def k t edit_def line_of_def mods_of_def key_kept_def)
  next
    case 4
    define p where "p = input_pos s + 1"
    define b where "b = ((input_buffer s)(unat (input_pos s) := c))(unat p := 0)"
    define t where "t = s\<lparr>input_pos := p, input_buffer := b\<rparr>"
    have r: "key_input c s = Some (putc c t)" using 4 by (simp add: key_input_def kprintf_char t_def b_def p_def)
    have t: "screen_ok t" "input_pos t = p" "input_buffer t = b" "input_ready t = input_ready s" "key_e0 t = key_e0 s" "cmem t = cmem s"
      "key_shift t = key_shift s" "key_caps t = key_caps s"
      using upd(1) by (simp_all add: t_def)
    note k = keyboard_more [OF putc_more [OF t(1)], of c]
    have p: "unat p = Suc (unat (input_pos s))" using room by (simp add: p_def unat_add_no_wrap)
    have l: "line_of (putc c t) = line_of s @ [c]" by (simp add: line_of_def k t p b_def)
    show ?thesis
      using r l ok 4 p c room putc_term(2) [OF t(1)] kept [OF t(1)]
      by (intro exI [of _ "putc c t"]) (auto simp: kbd_ok_def k t b_def edit_def INPUT_BUFFER_SIZE_def less_Suc_eq mods_of_def key_kept_def)
  qed
qed

section \<open>Key events as editor commands\<close>

text \<open>The modifiers after a key, and the character that a key types, if any.\<close>

definition mods_step :: "u8 \<Rightarrow> bool \<times> bool \<Rightarrow> bool \<times> bool" where
  "mods_step key m =
     (if key = 0x2A \<or> key = 0x36 then (True, snd m)
      else if key = 0xAA \<or> key = 0xB6 then (False, snd m)
      else if key = 0x3A then (fst m, \<not> snd m) else m)"

definition typed :: "u8 \<Rightarrow> bool \<times> bool \<Rightarrow> u8 option" where
  "typed key m =
     (let m' = mods_step key m; c = key_char (fst m' \<or> snd m') key
      in if key = 0 \<or> key AND 0x80 \<noteq> 0 \<or> c = 0 then None else Some c)"

fun edit_option :: "u8 option \<Rightarrow> u8 list \<Rightarrow> u8 list" where
  "edit_option None l = l"
| "edit_option (Some c) l = edit c l"

lemma make_code: "key AND 0x80 = 0 \<Longrightarrow> key < (0x80 :: u8)"
proof -
  assume "key AND 0x80 = 0"
  then have "key AND 2 ^ 7 = 0" by simp
  then have no7: "\<not> bit key 7" by (simp only: and_exp_eq_0) simp
  have "take_bit 7 key = key"
  proof (rule bit_word_eqI)
    fix n assume "n < LENGTH(8)"
    then have "n < 7 \<or> n = 7" by simp linarith
    then show "bit (take_bit 7 key) n = bit key n" using no7 by (auto simp: bit_take_bit_iff)
  qed
  then have "unat (key mod 128) = unat key" by (simp add: take_bit_eq_mod)
  then have "unat key mod 128 = unat key" by (simp add: unat_mod)
  then have "unat key < 128" by (metis mod_less_divisor zero_less_numeral)
  then show ?thesis by (simp add: word_less_nat_alt)
qed

lemma update_modifiers_ok:
  "kbd_ok s \<Longrightarrow> kbd_ok (update_modifiers key s) \<or> key = 0xE0"
  "mods_of (update_modifiers key s) = mods_step key (mods_of s)"
  "line_of (update_modifiers key s) = line_of s" "input_pos (update_modifiers key s) = input_pos s"
  "input_buffer (update_modifiers key s) = input_buffer s" "input_ready (update_modifiers key s) = input_ready s"
  "update_modifiers 0xE0 s = s\<lparr>key_e0 := True\<rparr>" "cmem (update_modifiers key s) = cmem s"
  by (auto simp: update_modifiers_def kbd_ok_def screen_ok_def mods_of_def mods_step_def line_of_def)

definition key_effect :: "u8 \<Rightarrow> 'a keyboard_scheme \<Rightarrow> 'a keyboard_scheme \<Rightarrow> bool" where
  "key_effect key s s' \<longleftrightarrow>
     kbd_ok s' \<and> mods_of s' = mods_step key (mods_of s) \<and>
     line_of s' = edit_option (typed key (mods_of s)) (line_of s) \<and>
     (input_ready s' \<longleftrightarrow> input_ready s \<or> typed key (mods_of s) = Some 10) \<and> unat (input_pos s') \<le> 255 \<and>
     (\<forall>i \<ge> INPUT_BUFFER_SIZE. input_buffer s' i = input_buffer s i) \<and>
     (typed key (mods_of s) = Some 10 \<longrightarrow> input_buffer s' = input_buffer s) \<and> key_kept s s'"

lemma handle_key_effect:
  assumes ok: "kbd_ok s" and room: "unat (input_pos s) < 255"
  shows "\<exists>s'. handle_key key s = Some s' \<and> key_effect key s s'"
proof (cases "key = 0")
  case True
  then show ?thesis using ok room by (auto simp: handle_key_def key_effect_def mods_step_def typed_def key_kept_def)
next
  case key: False
  define s1 where "s1 = update_modifiers key s"
  show ?thesis
  proof (cases "key = 0xE0")
    case True
    then have "handle_key key s = Some s"
      using ok by (simp add: handle_key_def update_modifiers_ok(7) kbd_ok_def)
    then show ?thesis using True ok room
      by (auto simp: key_effect_def mods_step_def typed_def key_kept_def)
  next
    case False
    then have ok1: "kbd_ok s1" using update_modifiers_ok(1) [OF ok, of key] by (simp add: s1_def)
    then have e0: "\<not> key_e0 s1" by (simp add: kbd_ok_def)
    define c where "c = key_char (key_shift s1 \<or> key_caps s1) key"
    have m: "mods_of s1 = mods_step key (mods_of s)" "line_of s1 = line_of s" "input_pos s1 = input_pos s"
      "input_buffer s1 = input_buffer s" "input_ready s1 = input_ready s" "cmem s1 = cmem s"
      by (simp_all add: s1_def update_modifiers_ok)
    have t: "typed key (mods_of s) = (if key AND 0x80 \<noteq> 0 \<or> c = 0 then None else Some c)"
      using key by (simp add: typed_def Let_def flip: m(1)) (simp add: mods_of_def c_def)
    show ?thesis
    proof (cases "key AND 0x80 \<noteq> 0 \<or> c = 0")
      case True
      then have "handle_key key s = Some s1"
        using key e0 by (auto simp: handle_key_def s1_def [symmetric] c_def [symmetric] Let_def)
      then show ?thesis using ok1 m t True room by (auto simp: key_effect_def key_kept_def)
    next
      case False
      then obtain s2 where s2: "key_input c s1 = Some s2" "kbd_ok s2" "line_of s2 = edit c (line_of s1)"
        "input_ready s2 \<longleftrightarrow> input_ready s1 \<or> c = 10" "unat (input_pos s2) \<le> 255"
        "\<forall>i \<ge> INPUT_BUFFER_SIZE. input_buffer s2 i = input_buffer s1 i"
        "c = 10 \<longrightarrow> input_buffer s2 = input_buffer s1" "mods_of s2 = mods_of s1" "key_kept s1 s2"
        using key_input_edit [OF ok1, of c] room m(3) by auto
      have "handle_key key s = Some s2"
        using key e0 False s2(1,2) make_code [of key]
        by (auto simp: handle_key_def s1_def [symmetric] c_def [symmetric] Let_def kbd_ok_def)
      then show ?thesis using s2 m t False by (auto simp: key_effect_def key_kept_def)
    qed
  qed
qed

section \<open>The handler\<close>

lemma ports_update [simp]:
  "kbd_ok (s\<lparr>io_log := l\<rparr>) = kbd_ok s" "mods_of (s\<lparr>io_log := l\<rparr>) = mods_of s" "line_of (s\<lparr>io_log := l\<rparr>) = line_of s"
  by (simp_all add: kbd_ok_def mods_of_def line_of_def screen_ok_def)

lemma PIC_sendEOI_log: "PIC_sendEOI irq s = s\<lparr>io_log := io_log (PIC_sendEOI irq s)\<rparr>"
  by (simp add: PIC_sendEOI_def outb_def Let_def)

lemma keyboard_handler_effect:
  assumes "kbd_ok s" and "unat (input_pos s) < 255"
  shows "\<exists>s'. keyboard_handler dev s = Some s' \<and> key_effect (ucast (dev (io_log s) 0x60)) s s'"
proof -
  let ?key = "ucast (dev (io_log s) 0x60) :: u8" and ?s1 = "s\<lparr>io_log := io_log s @ [Inb 0x60]\<rparr>"
  obtain s2 where s2: "handle_key ?key ?s1 = Some s2" "key_effect ?key ?s1 s2"
    using handle_key_effect [of ?s1 ?key] assms by auto
  have "key_effect ?key s (PIC_sendEOI 1 s2)"
    using s2(2) by (subst PIC_sendEOI_log) (simp add: key_effect_def key_kept_def)
  then show ?thesis using s2(1) by (simp add: keyboard_handler_def inb_def)
qed

text \<open>
  C14. With room in the buffer, the keyboard interrupt returns and is one command of the line
  editor: it appends the character that the key types under the current modifiers, removes
  the last one, or completes the line; it keeps the state well formed and writes nothing
  behind the buffer.
\<close>

theorem keyboard_refines_editor:
  assumes "kbd_ok s" and "unat (input_pos s) < 255" and "key = ucast (dev (io_log s) 0x60)"
  shows "\<exists>s'. keyboard_handler dev s = Some s' \<and> kbd_ok s' \<and>
    mods_of s' = mods_step key (mods_of s) \<and>
    line_of s' = edit_option (typed key (mods_of s)) (line_of s) \<and>
    (input_ready s' \<longleftrightarrow> input_ready s \<or> typed key (mods_of s) = Some 10) \<and>
    (\<forall>i \<ge> INPUT_BUFFER_SIZE. input_buffer s' i = input_buffer s i)"
  using keyboard_handler_effect [OF assms(1,2), of dev] assms(3) by (auto simp: key_effect_def)

text \<open>
  The events of the running system: key interrupts, timer interrupts and calls of \<open>readline\<close>.
  A key event of this relation finds room in the buffer.
\<close>

inductive kbd_step :: "'a keyboard_scheme \<Rightarrow> 'a keyboard_scheme \<Rightarrow> bool" where
  key: "keyboard_handler dev s = Some s' \<Longrightarrow> unat (input_pos s) < 255 \<Longrightarrow> kbd_step s s'"
| tick: "kbd_step s (PIT_handler s)"
| line: "kbd_step s (readline_start s)"

inductive_cases kbd_step_cases: "kbd_step s s'"





lemma overflow_input:
  assumes "screen_ok s" and "c \<noteq> 8" and "c \<noteq> 10" and "unat (input_pos s) + 1 < 2 ^ 32"
  shows "\<exists>s'. key_input c s = Some s' \<and> unat (input_pos s') = unat (input_pos s) + 1 \<and>
    input_buffer s' (unat (input_pos s) + 1) = 0 \<and> input_buffer s' (unat (input_pos s)) = c"
proof -
  define p where "p = input_pos s + 1"
  define t where "t = s\<lparr>input_pos := p, input_buffer := ((input_buffer s)(unat (input_pos s) := c))(unat p := 0)\<rparr>"
  have t: "screen_ok t" "input_pos t = p" "input_buffer t = ((input_buffer s)(unat (input_pos s) := c))(unat p := 0)"
    using assms(1) by (simp_all add: t_def screen_ok_def)
  note k = keyboard_more [OF putc_more [OF t(1)], of c]
  have r: "key_input c s = Some (putc c t)" using assms(2,3) by (simp add: key_input_def kprintf_char t_def p_def)
  have "unat p = unat (input_pos s) + 1" using assms(4) by (simp add: p_def unat_add_no_wrap)
  then show ?thesis using r by (simp add: k t)
qed

text \<open>
  C16. Without room the handler writes outside its buffer: a character typed at position
  \<open>p \<ge> 255\<close> puts the new terminator at index \<open>p + 1\<close>, behind the 256 bytes.
\<close>

theorem keyboard_overflows_buffer:
  assumes "kbd_ok s" and "255 \<le> unat (input_pos s)" and "unat (input_pos s) + 1 < 2 ^ 32"
    and "typed key (mods_of s) = Some c" and "c \<noteq> 8" and "c \<noteq> 10"
  shows "\<exists>s'. handle_key key s = Some s' \<and> INPUT_BUFFER_SIZE \<le> unat (input_pos s') \<and>
    input_buffer s' (unat (input_pos s')) = 0 \<and> input_buffer s' (unat (input_pos s)) = c"
proof -
  define s1 where "s1 = update_modifiers key s"
  have key: "key \<noteq> 0" "key AND 0x80 = 0" using assms(4) by (auto simp: typed_def Let_def split: if_splits)
  have "key \<noteq> 0xE0" using key(2) by auto
  then have ok1: "kbd_ok s1" using update_modifiers_ok(1) [OF assms(1), of key] by (simp add: s1_def)
  have m: "mods_of s1 = mods_step key (mods_of s)" "input_pos s1 = input_pos s"
    by (simp_all add: s1_def update_modifiers_ok)
  have c: "key_char (key_shift s1 \<or> key_caps s1) key = c" "c \<noteq> 0"
    using assms(4) by (simp_all add: typed_def Let_def flip: m(1) split: if_splits) (simp_all add: mods_of_def)
  have scr: "screen_ok s1" using ok1 by (simp add: kbd_ok_def)
  obtain s2 where s2: "key_input c s1 = Some s2" "unat (input_pos s2) = unat (input_pos s) + 1"
    "input_buffer s2 (unat (input_pos s) + 1) = 0" "input_buffer s2 (unat (input_pos s)) = c"
    using overflow_input [OF scr assms(5,6)] assms(3) m(2) by auto
  have "handle_key key s = Some (if key_e0 s2 then s2\<lparr>key_e0 := False\<rparr> else s2)"
    using key ok1 s2(1) c make_code [OF key(2)]
    by (simp add: handle_key_def s1_def [symmetric] Let_def kbd_ok_def)
  then show ?thesis using s2 assms(2) by (auto simp: INPUT_BUFFER_SIZE_def)
qed

section \<open>A line is read\<close>

text \<open>A device that delivers one scan code, and the editor's run over a list of them.\<close>

definition key_device :: "u8 \<Rightarrow> device" where
  "key_device k = (\<lambda>log p. ucast k)"

primrec editor :: "u8 list \<Rightarrow> bool \<times> bool \<Rightarrow> u8 list \<Rightarrow> u8 list" where
  "editor [] m l = l"
| "editor (k # ks) m l = editor ks (mods_step k m) (edit_option (typed k m) l)"

primrec no_enter :: "u8 list \<Rightarrow> bool \<times> bool \<Rightarrow> bool" where
  "no_enter [] m = True"
| "no_enter (k # ks) m \<longleftrightarrow> typed k m \<noteq> Some 10 \<and> no_enter ks (mods_step k m)"

lemma key_device_effect:
  "kbd_ok s \<Longrightarrow> unat (input_pos s) < 255 \<Longrightarrow> \<exists>s'. keyboard_handler (key_device k) s = Some s' \<and> key_effect k s s'"
  using keyboard_handler_effect [of s "key_device k"] by (simp add: key_device_def)

lemma length_line [simp]: "length (line_of s) = unat (input_pos s)"
  by (simp add: line_of_def)

lemma length_edit_option: "length (edit_option c l) \<le> Suc (length l)"
  by (cases c) (auto simp: edit_def)

lemma readline_wait_line:
  assumes "kbd_ok s" and "\<not> input_ready s" and "unat (input_pos s) + length ks < 255"
    and "no_enter ks (mods_of s)" and "typed e (foldl (\<lambda>m k. mods_step k m) (mods_of s) ks) = Some 10"
  shows "\<exists>s'. readline_wait (map key_device (ks @ [e])) s = Some s' \<and>
    map (input_buffer s') [0..<length (editor ks (mods_of s) (line_of s))] = editor ks (mods_of s) (line_of s) \<and>
    input_buffer s' (length (editor ks (mods_of s) (line_of s))) = 0"
  using assms
proof (induction ks arbitrary: s)
  case Nil
  obtain s' where s': "keyboard_handler (key_device e) s = Some s'" "key_effect e s s'"
    using key_device_effect [OF Nil.prems(1)] Nil.prems(3) by fastforce
  have "input_ready s'" "input_buffer s' = input_buffer s"
    using s'(2) Nil.prems(5) by (simp_all add: key_effect_def)
  moreover have "input_buffer s (unat (input_pos s)) = 0" using Nil.prems(1,2) by (simp add: kbd_ok_def)
  ultimately show ?case using s'(1) Nil.prems(2) by (simp add: line_of_def)
next
  case (Cons k ks)
  obtain s1 where s1: "keyboard_handler (key_device k) s = Some s1" "key_effect k s s1"
    using key_device_effect [OF Cons.prems(1)] Cons.prems(3) by fastforce
  have e: "kbd_ok s1" "mods_of s1 = mods_step k (mods_of s)"
    "line_of s1 = edit_option (typed k (mods_of s)) (line_of s)" "\<not> input_ready s1"
    using s1(2) Cons.prems(2,4) by (simp_all add: key_effect_def)
  have "unat (input_pos s1) \<le> Suc (unat (input_pos s))"
    using length_edit_option [of "typed k (mods_of s)" "line_of s"] length_line [of s1] unfolding e(3) by simp
  then have "unat (input_pos s1) + length ks < 255" using Cons.prems(3) by simp
  from Cons.IH [OF e(1,4) this] Cons.prems(4,5)
  show ?case using s1(1) Cons.prems(2) by (simp add: e)
qed

text \<open>
  C17. \<open>readline\<close> returns as soon as a key completes the line, if fewer than 255 key events
  precede it, and the buffer then holds, with its terminator, the line that the editor makes
  of those events.
\<close>

theorem readline_returns_line:
  assumes "screen_ok s" and "\<not> key_e0 s" and "length ks < 255"
    and "no_enter ks (mods_of s)" and "typed e (foldl (\<lambda>m k. mods_step k m) (mods_of s) ks) = Some 10"
  shows "\<exists>s'. readline (map key_device (ks @ [e])) s = Some s' \<and>
    map (input_buffer s') [0..<length (editor ks (mods_of s) [])] = editor ks (mods_of s) [] \<and>
    input_buffer s' (length (editor ks (mods_of s) [])) = 0"
proof -
  let ?s = "readline_start s"
  have "kbd_ok ?s" "\<not> input_ready ?s" "unat (input_pos ?s) + length ks < 255" "mods_of ?s = mods_of s" "line_of ?s = []"
    using assms(1-3) by (simp_all add: readline_start_def kbd_ok_def screen_ok_def mods_of_def line_of_def)
  then show ?thesis using readline_wait_line [of ?s ks e] assms(4,5) by (simp add: readline_def)
qed

section \<open>A concrete keyboard\<close>

definition example_keyboard :: keyboard where
  "example_keyboard = \<lparr>io_log = [], cmem = (\<lambda>_. 0), g_ScreenX = 0, g_ScreenY = 0,
     input_buffer = (\<lambda>_. 0), input_pos = 0, input_ready = False,
     key_shift = False, key_ctrl = False, key_caps = False, key_e0 = False, ticks = 0\<rparr>"

lemma example_keyboard_ok: "kbd_ok example_keyboard"
  by (simp add: example_keyboard_def kbd_ok_def screen_ok_def on_screen_def)

lemma example_mods: "mods_of example_keyboard = (False, False)"
  by (simp add: example_keyboard_def mods_of_def)

lemma example_typed:
  "typed 0x23 (True, False) = Some 72" "typed 0x17 (False, False) = Some 105" "typed 0x1C (False, False) = Some 10"
  "typed 0x2A (False, False) = None" "typed 0xAA (True, False) = None"
  by code_simp+

theorem keyboard_refines_editor_witness:
  "\<exists>s'. keyboard_handler (key_device 0x17) example_keyboard = Some s' \<and> line_of s' = [105]"
proof -
  have "line_of example_keyboard = []" "unat (input_pos example_keyboard) < 255"
    by (simp_all add: line_of_def example_keyboard_def)
  moreover have "0x17 = (ucast (key_device 0x17 (io_log example_keyboard) 0x60) :: u8)"
    by (simp add: key_device_def)
  ultimately show ?thesis
    using keyboard_refines_editor [OF example_keyboard_ok, of "0x17" "key_device 0x17"]
    by (auto simp: example_mods example_typed edit_def)
qed


theorem keyboard_overflows_buffer_witness:
  "\<exists>s'. handle_key 0x17 (example_keyboard\<lparr>input_pos := 255, input_buffer := \<lambda>i. if i < 255 then 97 else 0\<rparr>) = Some s' \<and>
     256 \<le> unat (input_pos s') \<and> input_buffer s' (unat (input_pos s')) = 0"
proof -
  let ?s = "example_keyboard\<lparr>input_pos := 255, input_buffer := \<lambda>i. if i < 255 then 97 else 0\<rparr>"
  have "kbd_ok ?s" "mods_of ?s = (False, False)"
    using example_keyboard_ok by (simp_all add: kbd_ok_def screen_ok_def mods_of_def example_keyboard_def)
  then show ?thesis
    using keyboard_overflows_buffer [of ?s "0x17" 105] example_typed by (auto simp: INPUT_BUFFER_SIZE_def)
qed

text \<open>Shift down, h, shift up, i, enter.\<close>

theorem readline_returns_line_witness:
  "\<exists>s'. readline (map key_device ([0x2A, 0x23, 0xAA, 0x17] @ [0x1C])) example_keyboard = Some s' \<and>
     map (input_buffer s') [0..<2] = [72, 105] \<and> input_buffer s' 2 = 0"
proof -
  have ks: "editor [0x2A, 0x23, 0xAA, 0x17] (False, False) [] = [72, 105]"
    "no_enter [0x2A, 0x23, 0xAA, 0x17] (False, False)"
    "typed 0x1C (foldl (\<lambda>m k. mods_step k m) (False, False) [0x2A, 0x23, 0xAA, 0x17]) = Some 10"
    by code_simp+
  have "screen_ok example_keyboard" "\<not> key_e0 example_keyboard"
    using example_keyboard_ok by (simp_all add: kbd_ok_def)
  from readline_returns_line [OF this, of "[0x2A, 0x23, 0xAA, 0x17]" "0x1C", unfolded example_mods ks(1)]
  show ?thesis using ks(2,3) by (simp del: upt_Suc) (metis One_nat_def Suc_1 length_Cons list.size(3))
qed

end
