(* ===== verification/Exceptions.thy ===== *)
theory Exceptions
  imports Printf Vmm
begin

text \<open>
  The exception handlers of \<^verbatim>\<open>kernel/interrupts/exceptions.c\<close> besides the keyboard and the
  timer. The faults that halt print a message; the page fault maps a fresh block.
\<close>

definition div_by_0_handler :: "'a console_scheme \<Rightarrow> 'a console_scheme option" where
  "div_by_0_handler s = kprintf (bytes ''DIVIDE BY 0 ERROR'' @ [13, 10]) (\<lambda>_. 0) s"

definition gpf_handler :: "u32 \<Rightarrow> 'a console_scheme \<Rightarrow> 'a console_scheme option" where
  "gpf_handler error_code s =
     kprintf (bytes ''GENERAL PROTECTION FAULT. Error Code: 0x%x'' @ [10]) (\<lambda>_. error_code) s"






end
