(* ===== verification/Idt.thy ===== *)
theory Idt
  imports Printf
begin

text \<open>
  The interrupt descriptor table, \<^verbatim>\<open>kernel/interrupts/idt.c\<close> with the stub table of
  \<^verbatim>\<open>idt.s\<close>. The stub table is an array of 32 addresses; \<open>initIDT\<close> reads 256 of them,
  so its contents and what lies behind it are one function from indices to words.
\<close>

section \<open>Descriptors\<close>

record idt_entry =
  base_low :: u16
  segsel :: u16
  donottouch :: u8
  attributes :: u8
  base_high :: u16

record idtr =
  limit :: u16
  base :: u32

record idt_state =
  idt :: "u8 \<Rightarrow> idt_entry"
  vectors :: "u8 \<Rightarrow> bool"
  idt_register :: idtr
  interrupts_on :: bool

definition idt_set_descriptor :: "u8 \<Rightarrow> u32 \<Rightarrow> u8 \<Rightarrow> 'a idt_state_scheme \<Rightarrow> 'a idt_state_scheme" where
  "idt_set_descriptor vector isr flags s =
     s\<lparr>idt := (idt s)(vector :=
       \<lparr>base_low = ucast (isr AND 0xFFFF), segsel = 0x08, donottouch = 0, attributes = flags,
        base_high = ucast (drop_bit 16 isr)\<rparr>)\<rparr>"

text \<open>The three loops run over consecutive ranges of vectors, with the same body.\<close>

definition init_vectors :: "nat list \<Rightarrow> (nat \<Rightarrow> u32) \<Rightarrow> 'a idt_state_scheme \<Rightarrow> 'a idt_state_scheme" where
  "init_vectors vs isr_stub_table s =
     fold (\<lambda>v s. let s1 = idt_set_descriptor (of_nat v) (isr_stub_table v) 0x8E s
                 in s1\<lparr>vectors := (vectors s1)(of_nat v := True)\<rparr>) vs s"

definition initIDT :: "u32 \<Rightarrow> (nat \<Rightarrow> u32) \<Rightarrow> 'a idt_state_scheme \<Rightarrow> 'a idt_state_scheme" where
  "initIDT idt_address isr_stub_table s =
     (let s1 = s\<lparr>idt_register := \<lparr>limit = 8 * 256 - 1, base = idt_address\<rparr>\<rparr>;
          s2 = init_vectors [0..<32] isr_stub_table s1;
          s3 = init_vectors [32..<48] isr_stub_table s2;
          s4 = init_vectors [48..<256] isr_stub_table s3
      in s4\<lparr>interrupts_on := True\<rparr>)"

text \<open>The default handlers print and halt the machine: what is modelled is what they print.\<close>

definition exception_handler :: "u32 \<Rightarrow> 'a console_scheme \<Rightarrow> 'a console_scheme option" where
  "exception_handler vector_number s =
     kprintf (bytes ''Interrupt %u'' @ [13, 10]) (\<lambda>_. vector_number) s"

definition exception_handler_error :: "u32 \<Rightarrow> u32 \<Rightarrow> 'a console_scheme \<Rightarrow> 'a console_scheme option" where
  "exception_handler_error vector_number error_code s =
     kprintf (bytes ''Interrupt %u (with error code: 0x%x)'' @ [13, 10])
       (\<lambda>i. if i = 0 then vector_number else error_code) s"

section \<open>What the processor finds in the table\<close>

text \<open>The offset the processor assembles from a descriptor.\<close>

definition gate_offset :: "idt_entry \<Rightarrow> u32" where
  "gate_offset e = ucast (base_low e) OR push_bit 16 (ucast (base_high e))"

lemma gate_offset_set: "gate_offset (idt (idt_set_descriptor v isr flags s) v) = isr"
proof (rule bit_word_eqI)
  fix n assume "n < LENGTH(32)"
  have m: "(0xFFFF :: u32) = mask 16" by (simp add: mask_eq_exp_minus_1)
  show "bit (gate_offset (idt (idt_set_descriptor v isr flags s) v)) n = bit isr n"
    unfolding gate_offset_def idt_set_descriptor_def m
    using \<open>n < LENGTH(32)\<close> by (auto simp: bit_simps)
qed

lemma init_vectors_entry:
  assumes "distinct vs" and "\<And>v. v \<in> set vs \<Longrightarrow> v < 256" and "v < 256"
  shows "idt (init_vectors vs table s) (of_nat v) =
      (if v \<in> set vs then idt (idt_set_descriptor (of_nat v) (table v) 0x8E s) (of_nat v) else idt s (of_nat v)) \<and>
    (vectors (init_vectors vs table s) (of_nat v) \<longleftrightarrow> v \<in> set vs \<or> vectors s (of_nat v))"
  using assms
proof (induction vs arbitrary: s)
  case Nil
  then show ?case by (simp add: init_vectors_def)
next
  case (Cons w ws)
  have eq: "(of_nat v :: u8) = of_nat w \<longleftrightarrow> v = w"
  proof
    assume "(of_nat v :: u8) = of_nat w"
    then have "unat (of_nat v :: u8) = unat (of_nat w :: u8)" by simp
    then show "v = w" using Cons.prems(2) [of w] Cons.prems(3) by (simp add: unat_of_nat take_bit_eq_mod)
  qed simp
  let ?s = "(\<lambda>s1. s1\<lparr>vectors := (vectors s1)(of_nat w := True)\<rparr>) (idt_set_descriptor (of_nat w) (table w) 0x8E s)"
  have step: "init_vectors (w # ws) table s = init_vectors ws table ?s"
    by (simp add: init_vectors_def Let_def)
  have "distinct ws" and "\<And>x. x \<in> set ws \<Longrightarrow> x < 256" and "w \<notin> set ws" using Cons.prems by auto
  with Cons.IH [of ?s] Cons.prems(3) eq show ?case
    unfolding step by (auto simp: idt_set_descriptor_def)
qed

lemma initIDT_entry:
  fixes s :: "'a idt_state_scheme"
  assumes "v < 256"
  shows "idt (initIDT a table s) (of_nat v) = idt (idt_set_descriptor (of_nat v) (table v) 0x8E s) (of_nat v) \<and>
    vectors (initIDT a table s) (of_nat v)"
proof -
  have e: "idt (idt_set_descriptor w i f t) w = idt (idt_set_descriptor w i f r) w" for w i f
    and t r :: "'a idt_state_scheme"
    by (simp add: idt_set_descriptor_def)
  have m: "v \<in> set [a..<b] \<longleftrightarrow> a \<le> v \<and> v < b" for a b by (simp only: set_upt atLeastLessThan_iff)
  have entry: "idt (init_vectors [a..<b] table t) (of_nat v) =
      (if a \<le> v \<and> v < b then idt (idt_set_descriptor (of_nat v) (table v) 0x8E s) (of_nat v) else idt t (of_nat v))"
    and vec: "vectors (init_vectors [a..<b] table t) (of_nat v) \<longleftrightarrow> a \<le> v \<and> v < b \<or> vectors t (of_nat v)"
    if "b \<le> 256" for a b and t :: "'a idt_state_scheme"
    using init_vectors_entry [of "[a..<b]" v table t] that assms e [of "of_nat v" "table v" "0x8E" t s]
    unfolding m by auto
  show ?thesis
    unfolding initIDT_def Let_def using assms
    by (cases "v < 32"; cases "v < 48"; simp add: entry vec del: upt_rec_numeral)
qed

text \<open>
  After \<open>initIDT\<close>, the gate of every vector points at the word with its number in the
  stub table, for the vectors from 32 on a word behind the 32 entries the table has.
\<close>

lemma initIDT_gates:
  assumes "v < 256"
  shows "gate_offset (idt (initIDT a table s) (of_nat v)) = table v \<and> vectors (initIDT a table s) (of_nat v) \<and>
    attributes (idt (initIDT a table s) (of_nat v)) = 0x8E"
proof -
  have "attributes (idt (idt_set_descriptor (of_nat v) (table v) 0x8E s) (of_nat v)) = 0x8E"
    by (simp add: idt_set_descriptor_def)
  with initIDT_entry [OF assms, of a table s] gate_offset_set [of "of_nat v" "table v" "0x8E" s]
  show ?thesis by simp
qed

lemma initIDT_gates_witness:
  "gate_offset (idt (initIDT 0 (\<lambda>i. of_nat i + 0xC0000000)
     \<lparr>idt = (\<lambda>_. \<lparr>base_low = 0, segsel = 0, donottouch = 0, attributes = 0, base_high = 0\<rparr>), vectors = (\<lambda>_. False),
      idt_register = \<lparr>limit = 0, base = 0\<rparr>, interrupts_on = False\<rparr>) 33) = 0xC0000021"
  using initIDT_gates [of 33 0 "\<lambda>i. of_nat i + 0xC0000000"
    "\<lparr>idt = (\<lambda>_. \<lparr>base_low = 0, segsel = 0, donottouch = 0, attributes = 0, base_high = 0\<rparr>), vectors = (\<lambda>_. False),
      idt_register = \<lparr>limit = 0, base = 0\<rparr>, interrupts_on = False\<rparr>"] by simp

end
