(* ===== verification/Ata.thy ===== *)
theory Ata
  imports Console "HOL-Library.Monad_Syntax"
begin

text \<open>
  The disk driver: \<open>rw_sectors\<close> of \<^verbatim>\<open>kernel/fs/fs_commands.c\<close>, which programs the ATA
  drive through its ports and moves the data word by word. The drive is a device; \<open>drive\<close> is
  the part of its documented behaviour (28-bit LBA, programmed I/O) that the code relies on.
  The lemmas show that the driver copies sectors between the drive and memory, and the locale
  \<open>sector_device\<close> is all that the file system uses of it.
\<close>

section \<open>The driver\<close>

definition READ :: u32 where "READ = 0x20"
definition WRITE :: u32 where "WRITE = 0x30"

definition load16 :: "memory \<Rightarrow> u32 \<Rightarrow> u16" where
  "load16 m a = ucast (m a) OR push_bit 8 (ucast (m (a + 1)))"

definition store16 :: "memory \<Rightarrow> u32 \<Rightarrow> u16 \<Rightarrow> memory" where
  "store16 m a v = m(a := ucast v, a + 1 := ucast (drop_bit 8 v))"

text \<open>\<^verbatim>\<open>while(inb(0x1F7) & (1 << 7))\<close>: it does not return if the drive stays busy.\<close>

partial_function (option) poll :: "device \<Rightarrow> 'a console_scheme \<Rightarrow> 'a console_scheme option" where
  "poll dev s =
     (let (v, s1) = inb dev 0x1F7 s
      in if v AND 0x80 \<noteq> 0 then poll dev s1 else Some s1)"

primrec read_words :: "nat \<Rightarrow> device \<Rightarrow> u32 \<Rightarrow> 'a console_scheme \<Rightarrow> 'a console_scheme" where
  "read_words 0 dev a s = s"
| "read_words (Suc k) dev a s =
     (let (w, s1) = inw dev 0x1F0 s
      in read_words k dev (a + 2) (s1\<lparr>cmem := store16 (cmem s1) a w\<rparr>))"

primrec write_words :: "nat \<Rightarrow> u32 \<Rightarrow> 'a console_scheme \<Rightarrow> 'a console_scheme" where
  "write_words 0 a s = s"
| "write_words (Suc k) a s = write_words k (a + 2) (outw 0x1F0 (load16 (cmem s) a) s)"

definition delay :: "device \<Rightarrow> 'a console_scheme \<Rightarrow> 'a console_scheme" where
  "delay dev s = ((\<lambda>s. snd (inb dev 0x3F6 s)) ^^ 15) s"

text \<open>The loops over the sectors, with the pointer \<open>a\<close> that runs through them.\<close>

primrec read_sectors :: "nat \<Rightarrow> device \<Rightarrow> u32 \<Rightarrow> 'a console_scheme \<Rightarrow> 'a console_scheme option" where
  "read_sectors 0 dev a s = Some s"
| "read_sectors (Suc n) dev a s = do {
     s1 \<leftarrow> poll dev s;
     read_sectors n dev (a + 512) (delay dev (read_words 256 dev a s1))
   }"

primrec write_sectors :: "nat \<Rightarrow> device \<Rightarrow> u32 \<Rightarrow> 'a console_scheme \<Rightarrow> 'a console_scheme option" where
  "write_sectors 0 dev a s = Some s"
| "write_sectors (Suc n) dev a s = do {
     s1 \<leftarrow> poll dev s;
     write_sectors n dev (a + 512) (delay dev (write_words 256 a s1))
   }"

definition rw_setup :: "u32 \<Rightarrow> u32 \<Rightarrow> u32 \<Rightarrow> 'a console_scheme \<Rightarrow> 'a console_scheme" where
  "rw_setup sectors starting_sector readwrite s =
     (let s1 = outb 0x1F6 (ucast (0xE0 OR (drop_bit 24 starting_sector AND 0x0F))) s;
          s2 = outb 0x1F2 (ucast sectors) s1;
          s3 = outb 0x1F3 (ucast (starting_sector AND 0xFF)) s2;
          s4 = outb 0x1F4 (ucast (drop_bit 8 starting_sector AND 0xFF)) s3;
          s5 = outb 0x1F5 (ucast (drop_bit 16 starting_sector AND 0xFF)) s4
      in outb 0x1F7 (ucast readwrite) s5)"

definition rw_sectors ::
    "device \<Rightarrow> u32 \<Rightarrow> u32 \<Rightarrow> u32 \<Rightarrow> u32 \<Rightarrow> 'a console_scheme \<Rightarrow> 'a console_scheme option" where
  "rw_sectors dev sectors starting_sector address readwrite s =
     (let s1 = rw_setup sectors starting_sector readwrite s
      in if readwrite = READ then read_sectors (unat sectors) dev address s1
         else if readwrite = WRITE then do {
           s2 \<leftarrow> write_sectors (unat sectors) dev address s1;
           poll dev (outb 0x1F7 0xE7 s2)
         }
         else Some s1)"

section \<open>The drive\<close>

text \<open>
  The drive: its bytes, the registers that address a transfer, the command in progress with
  its position (in bytes) and the words left, and how often the status register still reads
  busy. Every command, every sector boundary inside a transfer and every sector written makes
  it busy for \<open>latency\<close> status reads; while it is busy it ignores its registers and data port.
\<close>

record drive =
  platter :: "nat \<Rightarrow> u8"
  sector_count :: u8
  lba0 :: u8
  lba1 :: u8
  lba2 :: u8
  drive_head :: u8
  command :: u8
  cursor :: nat
  words_left :: nat
  busy :: nat
  latency :: nat

definition drive_lba :: "drive \<Rightarrow> nat" where
  "drive_lba d = unat (lba0 d) + 256 * unat (lba1 d) + 65536 * unat (lba2 d) + 16777216 * (unat (drive_head d) mod 16)"

definition drive_command :: "u8 \<Rightarrow> drive \<Rightarrow> drive" where
  "drive_command v d =
     (if v = 0x20 \<or> v = 0x30 then
        d\<lparr>command := v, cursor := 512 * drive_lba d,
          words_left := 256 * (if sector_count d = 0 then 256 else unat (sector_count d)), busy := latency d\<rparr>
      else d\<lparr>command := v, busy := latency d\<rparr>)"

definition drive_next :: "drive \<Rightarrow> drive" where
  "drive_next d =
     d\<lparr>cursor := cursor d + 2, words_left := words_left d - 1,
       busy := (if (words_left d - 1) mod 256 = 0 \<and> (command d = 0x30 \<or> 1 < words_left d) then latency d else 0)\<rparr>"

fun drive_step :: "io_event \<Rightarrow> drive \<Rightarrow> drive" where
  "drive_step (Outb p v) d =
     (if 0 < busy d then d
      else if p = 0x1F2 then d\<lparr>sector_count := v\<rparr>
      else if p = 0x1F3 then d\<lparr>lba0 := v\<rparr>
      else if p = 0x1F4 then d\<lparr>lba1 := v\<rparr>
      else if p = 0x1F5 then d\<lparr>lba2 := v\<rparr>
      else if p = 0x1F6 then d\<lparr>drive_head := v\<rparr>
      else if p = 0x1F7 then drive_command v d
      else d)"
| "drive_step (Inb p) d = (if p = 0x1F7 then d\<lparr>busy := busy d - 1\<rparr> else d)"
| "drive_step (Inw p) d =
     (if p = 0x1F0 \<and> command d = 0x20 \<and> 0 < words_left d \<and> busy d = 0 then drive_next d else d)"
| "drive_step (Outw p w) d =
     (if p = 0x1F0 \<and> command d = 0x30 \<and> 0 < words_left d \<and> busy d = 0 then
        drive_next (d\<lparr>platter := (platter d)(cursor d := ucast w, cursor d + 1 := ucast (drop_bit 8 w))\<rparr>)
      else d)"

definition drive_run :: "drive \<Rightarrow> io_event list \<Rightarrow> drive" where
  "drive_run d0 log = fold drive_step log d0"

definition drive_word :: "drive \<Rightarrow> u16" where
  "drive_word d = ucast (platter d (cursor d)) OR push_bit 8 (ucast (platter d (cursor d + 1)))"

text \<open>The device parameter is this drive: the status port tells busy, the data port gives the next word.\<close>

definition ata_device :: "drive \<Rightarrow> device \<Rightarrow> bool" where
  "ata_device d0 dev \<longleftrightarrow>
     (\<forall>log. ((ucast (dev log 0x1F7) :: u8) AND 0x80 \<noteq> 0 \<longleftrightarrow> 0 < busy (drive_run d0 log)) \<and>
            (command (drive_run d0 log) = 0x20 \<and> 0 < words_left (drive_run d0 log) \<and> busy (drive_run d0 log) = 0 \<longrightarrow>
               dev log 0x1F0 = drive_word (drive_run d0 log)))"

abbreviation drive_of :: "drive \<Rightarrow> 'a console_scheme \<Rightarrow> drive" where
  "drive_of d0 s \<equiv> drive_run d0 (io_log s)"


section \<open>Runs of bytes\<close>

text \<open>Memory and platter with a run of bytes replaced; addresses wrap around, platters do not.\<close>

definition put_bytes :: "u32 \<Rightarrow> nat \<Rightarrow> (nat \<Rightarrow> u8) \<Rightarrow> memory \<Rightarrow> memory" where
  "put_bytes a n f m = (\<lambda>b. if unat (b - a) < n then f (unat (b - a)) else m b)"

definition put_disk :: "nat \<Rightarrow> nat \<Rightarrow> (nat \<Rightarrow> u8) \<Rightarrow> (nat \<Rightarrow> u8) \<Rightarrow> nat \<Rightarrow> u8" where
  "put_disk c n f p = (\<lambda>i. if c \<le> i \<and> i < c + n then f (i - c) else p i)"

lemma put_bytes_0 [simp]: "put_bytes a 0 f m = m"
  by (simp add: put_bytes_def)

lemma put_disk_0 [simp]: "put_disk a 0 f m = m"
  by (auto simp: put_disk_def fun_eq_iff)

lemma put_bytes_append:
  assumes "n + k \<le> 2 ^ 32"
  shows "put_bytes (a + of_nat n) k g (put_bytes a n f m) = put_bytes a (n + k) (\<lambda>i. if i < n then f i else g (i - n)) m"
proof
  fix b
  let ?x = "unat (b - a)"
  have "unat (b - (a + of_nat n)) = (if n \<le> ?x then ?x - n else ?x + 2 ^ 32 - n)" if "0 < k"
  proof -
    have "unat (of_nat n :: u32) = n" using assms that by simp
    moreover have "b - (a + of_nat n) = (b - a) - of_nat n" by simp
    ultimately show ?thesis by (simp only: unat_sub_if_size word_size) simp
  qed
  then show "put_bytes (a + of_nat n) k g (put_bytes a n f m) b =
      put_bytes a (n + k) (\<lambda>i. if i < n then f i else g (i - n)) m b"
    using assms by (cases "k = 0") (auto simp: put_bytes_def)
qed

lemma put_disk_append:
  "put_disk (c + n) k g (put_disk c n f p) = put_disk c (n + k) (\<lambda>i. if i < n then f i else g (i - n)) p"
  by (auto simp: put_disk_def fun_eq_iff)

lemma put_bytes_cong: "(\<And>i. i < n \<Longrightarrow> f i = g i) \<Longrightarrow> put_bytes a n f m = put_bytes a n g m"
  by (simp add: put_bytes_def fun_eq_iff)

lemma put_disk_cong: "(\<And>i. i < n \<Longrightarrow> f i = g i) \<Longrightarrow> put_disk a n f m = put_disk a n g m"
  by (auto simp: put_disk_def fun_eq_iff)

lemma put_bytes_at: "i < n \<Longrightarrow> n \<le> 2 ^ 32 \<Longrightarrow> put_bytes a n f m (a + of_nat i) = f i"
  by (simp add: put_bytes_def)

lemma less_2_cases: "i < 2 \<longleftrightarrow> i = 0 \<or> i = (1::nat)"
  by auto

lemma store16_put_bytes:
  "store16 m a w = put_bytes a 2 (\<lambda>i. if i = 0 then ucast w else ucast (drop_bit 8 w)) m"
proof
  fix b
  have "unat (b - a) = 0 \<longleftrightarrow> b = a" by (simp add: unat_eq_zero)
  moreover have "unat (b - a) = 1 \<longleftrightarrow> b = a + 1"
    by (metis add_diff_cancel_left' diff_add_cancel add.commute of_nat_1 of_nat_unat ucast_id unat_1)
  ultimately
  show "store16 m a w b = put_bytes a 2 (\<lambda>i. if i = 0 then ucast w else ucast (drop_bit 8 w)) m b"
    by (auto simp: store16_def put_bytes_def less_2_cases)
qed

lemma drive_word_bytes:
  "ucast (drive_word d) = platter d (cursor d)" "ucast (drop_bit 8 (drive_word d)) = platter d (cursor d + 1)"
  by (rule bit_word_eqI; auto simp: drive_word_def bit_simps dest: bit_imp_le_length)+

section \<open>The driver runs the drive\<close>

lemma drive_run_snoc [simp]: "drive_run d0 (log @ [e]) = drive_step e (drive_run d0 log)"
  by (simp add: drive_run_def)

lemma ata_busy:
  "ata_device d0 dev \<Longrightarrow> (ucast (dev log 0x1F7) :: u8) AND 0x80 \<noteq> 0 \<longleftrightarrow> 0 < busy (drive_run d0 log)"
  by (simp add: ata_device_def)

lemma ata_word:
  "ata_device d0 dev \<Longrightarrow> command (drive_run d0 log) = 0x20 \<Longrightarrow> 0 < words_left (drive_run d0 log) \<Longrightarrow>
     busy (drive_run d0 log) = 0 \<Longrightarrow> dev log 0x1F0 = drive_word (drive_run d0 log)"
  by (simp add: ata_device_def)

lemma poll_returns:
  assumes "ata_device d0 dev"
  shows "\<exists>log. poll dev s = Some (s\<lparr>io_log := log\<rparr>) \<and> drive_run d0 log = (drive_of d0 s)\<lparr>busy := 0\<rparr>"
proof (induction "busy (drive_of d0 s)" arbitrary: s)
  case 0
  then have "\<not> (ucast (dev (io_log s) 0x1F7) :: u8) AND 0x80 \<noteq> 0" using ata_busy [OF assms] by simp
  then have "poll dev s = Some (s\<lparr>io_log := io_log s @ [Inb 0x1F7]\<rparr>)"
    by (simp add: poll.simps [of dev s] inb_def)
  moreover have "drive_run d0 (io_log s @ [Inb 0x1F7]) = (drive_of d0 s)\<lparr>busy := 0\<rparr>" using 0 by simp
  ultimately show ?case by blast
next
  case (Suc n)
  let ?s = "s\<lparr>io_log := io_log s @ [Inb 0x1F7]\<rparr>"
  have "(ucast (dev (io_log s) 0x1F7) :: u8) AND 0x80 \<noteq> 0" using ata_busy [OF assms] Suc.hyps(2) by simp
  then have "poll dev s = poll dev ?s" by (simp add: poll.simps [of dev s] inb_def)
  moreover have "n = busy (drive_of d0 ?s)" using Suc.hyps(2) by simp
  then obtain log where "poll dev ?s = Some (?s\<lparr>io_log := log\<rparr>)" "drive_run d0 log = (drive_of d0 ?s)\<lparr>busy := 0\<rparr>"
    using Suc.hyps(1) by blast
  ultimately show ?case by (intro exI [of _ log]) simp
qed

lemma cmem_io_log_swap: "s\<lparr>cmem := m, io_log := l\<rparr> = s\<lparr>io_log := l, cmem := m\<rparr>"
  by simp

lemma delay_idle: "\<exists>log. delay dev s = s\<lparr>io_log := log\<rparr> \<and> drive_run d0 log = drive_of d0 s"
proof -
  have "\<exists>log. ((\<lambda>s. snd (inb dev 0x3F6 s)) ^^ n) s = s\<lparr>io_log := log\<rparr> \<and> drive_run d0 log = drive_of d0 s" for n
  proof (induction n)
    case (Suc n)
    then obtain log where "((\<lambda>s. snd (inb dev 0x3F6 s)) ^^ n) s = s\<lparr>io_log := log\<rparr>" "drive_run d0 log = drive_of d0 s"
      by blast
    then show ?case by (intro exI [of _ "log @ [Inb 0x3F6]"]) (simp add: inb_def)
  qed (auto intro: exI [of _ "io_log s"])
  then show ?thesis by (simp add: delay_def)
qed

lemma read_words_effect:
  assumes "ata_device d0 dev"
  shows "command (drive_of d0 s) = 0x20 \<Longrightarrow> busy (drive_of d0 s) = 0 \<Longrightarrow>
    words_left (drive_of d0 s) = 256 * m + k \<Longrightarrow> k \<le> 256 \<Longrightarrow>
    \<exists>log. read_words k dev a s =
        s\<lparr>io_log := log, cmem := put_bytes a (2 * k) (\<lambda>i. platter (drive_of d0 s) (cursor (drive_of d0 s) + i)) (cmem s)\<rparr> \<and>
      drive_run d0 log = (drive_of d0 s)\<lparr>cursor := cursor (drive_of d0 s) + 2 * k, words_left := 256 * m,
        busy := (if 0 < k \<and> 0 < m then latency (drive_of d0 s) else 0)\<rparr>"
proof (induction k arbitrary: a s)
  case 0
  then show ?case by (intro exI [of _ "io_log s"]) simp
next
  case (Suc k)
  let ?d = "drive_of d0 s"
  let ?log = "io_log s @ [Inw 0x1F0]"
  let ?w = "drive_word ?d"
  define s1 where "s1 = s\<lparr>io_log := ?log, cmem := store16 (cmem s) a ?w\<rparr>"
  have st: "store16 (cmem s) a ?w = put_bytes a 2 (\<lambda>i. platter ?d (cursor ?d + i)) (cmem s)"
    unfolding store16_put_bytes by (rule put_bytes_cong) (auto simp: drive_word_bytes less_2_cases)
  have word: "dev (io_log s) 0x1F0 = ?w" using Suc.prems by (intro ata_word [OF assms]) simp_all
  have step: "read_words (Suc k) dev a s = read_words k dev (a + 2) s1"
    by (simp add: inw_def s1_def word)
  have d1: "drive_of d0 s1 = ?d\<lparr>cursor := cursor ?d + 2, words_left := 256 * m + k,
      busy := (if k = 0 \<and> 0 < m then latency ?d else 0)\<rparr>"
    using Suc.prems by (auto simp: s1_def drive_next_def)
  show ?case
  proof (cases "k = 0")
    case True
    then show ?thesis unfolding step
      using d1 True by (intro exI [of _ ?log]) (simp add: s1_def st del: drive_run_snoc)
  next
    case False
    then obtain log where log: "read_words k dev (a + 2) s1 =
        s1\<lparr>io_log := log, cmem := put_bytes (a + 2) (2 * k) (\<lambda>i. platter ?d (cursor ?d + 2 + i)) (cmem s1)\<rparr>"
      "drive_run d0 log = ?d\<lparr>cursor := cursor ?d + 2 + 2 * k, words_left := 256 * m,
        busy := (if 0 < m then latency ?d else 0)\<rparr>"
      using Suc.IH [of s1 "a + 2"] Suc.prems d1 by auto
    have "put_bytes (a + 2) (2 * k) (\<lambda>i. platter ?d (cursor ?d + 2 + i)) (cmem s1) =
        put_bytes a (2 * Suc k) (\<lambda>i. platter ?d (cursor ?d + i)) (cmem s)"
      using put_bytes_append [of 2 "2 * k" a] Suc.prems(4)
      by (auto simp: s1_def st algebra_simps intro!: put_bytes_cong arg_cong [of _ _ "platter ?d"])
    then show ?thesis unfolding step log(1)
      using log(2) False by (intro exI [of _ log]) (simp add: s1_def)
  qed
qed


lemma read_sectors_effect:
  assumes "ata_device d0 dev"
  shows "command (drive_of d0 s) = 0x20 \<Longrightarrow> words_left (drive_of d0 s) = 256 * n \<Longrightarrow> n < 256 \<Longrightarrow> 0 < n \<Longrightarrow>
    \<exists>log. read_sectors n dev a s =
        Some (s\<lparr>io_log := log, cmem := put_bytes a (512 * n) (\<lambda>i. platter (drive_of d0 s) (cursor (drive_of d0 s) + i)) (cmem s)\<rparr>) \<and>
      drive_run d0 log = (drive_of d0 s)\<lparr>cursor := cursor (drive_of d0 s) + 512 * n, words_left := 0, busy := 0\<rparr>"
proof (induction n arbitrary: a s)
  case (Suc n)
  let ?d = "drive_of d0 s"
  obtain l1 where l1: "poll dev s = Some (s\<lparr>io_log := l1\<rparr>)" "drive_run d0 l1 = ?d\<lparr>busy := 0\<rparr>"
    using poll_returns [OF assms] by blast
  let ?s1 = "s\<lparr>io_log := l1\<rparr>"
  let ?m = "put_bytes a 512 (\<lambda>i. platter ?d (cursor ?d + i)) (cmem s)"
  obtain l2 where l2: "read_words 256 dev a ?s1 = s\<lparr>io_log := l2, cmem := ?m\<rparr>"
    "drive_run d0 l2 = ?d\<lparr>cursor := cursor ?d + 512, words_left := 256 * n,
      busy := (if 0 < n then latency ?d else 0)\<rparr>"
    using read_words_effect [OF assms, of ?s1 n 256 a] Suc.prems l1(2) by auto
  obtain l3 where l3: "delay dev (s\<lparr>io_log := l2, cmem := ?m\<rparr>) = s\<lparr>io_log := l3, cmem := ?m\<rparr>"
    "drive_run d0 l3 = drive_run d0 l2"
    using delay_idle [of dev "s\<lparr>io_log := l2, cmem := ?m\<rparr>" d0] by (auto simp: cmem_io_log_swap)
  let ?s3 = "s\<lparr>io_log := l3, cmem := ?m\<rparr>"
  have step: "read_sectors (Suc n) dev a s = read_sectors n dev (a + 512) ?s3"
    by (simp add: l1(1) l2(1) l3(1))
  show ?case
  proof (cases "n = 0")
    case True
    then show ?thesis unfolding step using l3(2) l2(2) by (intro exI [of _ l3]) simp
  next
    case False
    then obtain log where log: "read_sectors n dev (a + 512) ?s3 =
        Some (?s3\<lparr>io_log := log, cmem := put_bytes (a + 512) (512 * n) (\<lambda>i. platter ?d (cursor ?d + 512 + i)) ?m\<rparr>)"
      "drive_run d0 log = ?d\<lparr>cursor := cursor ?d + 512 + 512 * n, words_left := 0, busy := 0\<rparr>"
      using Suc.IH [of ?s3 "a + 512"] Suc.prems l3(2) l2(2) by auto
    have "put_bytes (a + 512) (512 * n) (\<lambda>i. platter ?d (cursor ?d + 512 + i)) ?m =
        put_bytes a (512 * Suc n) (\<lambda>i. platter ?d (cursor ?d + i)) (cmem s)"
      using put_bytes_append [of 512 "512 * n" a] Suc.prems(3)
      by (auto simp: algebra_simps intro!: put_bytes_cong arg_cong [of _ _ "platter ?d"])
    then show ?thesis unfolding step log(1)
      using log(2) by (intro exI [of _ log]) simp
  qed
qed simp

lemma bytes_of_word:
  fixes w :: u32
  shows "unat w = unat (w AND 0xFF) + 256 * unat (drop_bit 8 w AND 0xFF) + 65536 * unat (drop_bit 16 w AND 0xFF) +
    16777216 * unat (drop_bit 24 w AND 0xFF)"
proof -
  have m: "(0xFF :: u32) = mask 8" by (simp add: mask_eq_exp_minus_1)
  have a: "unat (drop_bit k w AND 0xFF) = unat w div 2 ^ k mod 256" for k
  proof -
    have "unat (drop_bit k w AND mask 8) = take_bit 8 (unat (drop_bit k w))"
      by (simp add: take_bit_eq_mask [symmetric] unsigned_take_bit_eq)
    also have "unat (drop_bit k w) = unat w div 2 ^ k"
      by (simp only: unsigned_drop_bit_eq) (simp add: drop_bit_eq_div take_bit_eq_mod)
    finally show ?thesis by (simp only: m take_bit_eq_mod) simp
  qed
  have "unat w div 16777216 < 256" using unat_less_32 [of w] by (simp add: less_mult_imp_div_less)
  moreover have "unat w = unat w mod 256 + 256 * (unat w div 256 mod 256) + 65536 * (unat w div 65536 mod 256) +
      16777216 * (unat w div 16777216)"
  proof -
    have "unat w div 256 div 256 = unat w div 65536" "unat w div 65536 div 256 = unat w div 16777216"
      by (simp_all add: div_mult2_eq [symmetric])
    then show ?thesis
      using div_mult_mod_eq [of "unat w" 256] div_mult_mod_eq [of "unat w div 256" 256]
        div_mult_mod_eq [of "unat w div 65536" 256] by linarith
  qed
  ultimately show ?thesis using a [of 0] a [of 8] a [of 16] a [of 24] by simp
qed


text \<open>The registers hold a 28-bit sector number.\<close>

lemma head_register:
  fixes start :: u32
  assumes "unat start < 2 ^ 28"
  shows "unat (ucast (0xE0 OR (drop_bit 24 start AND 0x0F)) :: u8) mod 16 = unat (drop_bit 24 start AND 0xFF)"
proof -
  have m: "(0xF :: u32) = mask 4" "(0xFF :: u32) = mask 8" by (simp_all add: mask_eq_exp_minus_1)
  have "bit (0xE0 :: u32) i \<longleftrightarrow> i = 5 \<or> i = 6 \<or> i = 7" if "i < 8" for i
    using that by (cases i rule: nat.exhaust; simp add: numeral_eq_Suc less_Suc_eq) (auto simp: bit_simps numeral_eq_Suc)
  then have e: "take_bit 4 (ucast (0xE0 OR (drop_bit 24 start AND 0x0F)) :: u8) = ucast (take_bit 4 (drop_bit 24 start))"
    unfolding m by (intro bit_word_eqI) (auto simp: bit_simps)
  have "unat (ucast (0xE0 OR (drop_bit 24 start AND 0x0F)) :: u8) mod 16 =
      unat (take_bit 4 (ucast (0xE0 OR (drop_bit 24 start AND 0x0F)) :: u8))"
    by (simp only: unsigned_take_bit_eq) (simp add: take_bit_eq_mod)
  also have "\<dots> = unat (drop_bit 24 start) mod 16"
    unfolding e by (simp only: unat_ucast_mod unsigned_take_bit_eq) (simp add: take_bit_eq_mod mod_mod_cancel)
  also have "\<dots> = unat (drop_bit 24 start AND 0xFF)"
  proof -
    have "unat (drop_bit 24 start) < 16"
      using assms by (simp only: unsigned_drop_bit_eq) (simp add: drop_bit_eq_div take_bit_eq_mod less_mult_imp_div_less)
    then show ?thesis unfolding m(2)
      by (simp only: take_bit_eq_mask [symmetric] unsigned_take_bit_eq) (simp add: take_bit_eq_mod)
  qed
  finally show ?thesis .
qed

lemma byte_register: "unat (ucast (x AND 0xFF :: u32) :: u8) = unat (x AND 0xFF)"
proof -
  have m: "(0xFF :: u32) = mask 8" by (simp add: mask_eq_exp_minus_1)
  show ?thesis unfolding m
    by (simp only: take_bit_eq_mask [symmetric] unat_ucast_mod unsigned_take_bit_eq) (simp add: take_bit_eq_mod)
qed

lemma rw_setup_effect:
  assumes "busy (drive_of d0 s) = 0" and "unat start < 2 ^ 28" and "0 < unat n" "unat n < 256"
    and "rw = READ \<or> rw = WRITE"
  shows "\<exists>log. rw_setup n start rw s = s\<lparr>io_log := log\<rparr> \<and>
    platter (drive_run d0 log) = platter (drive_of d0 s) \<and> command (drive_run d0 log) = ucast rw \<and>
    cursor (drive_run d0 log) = 512 * unat start \<and> words_left (drive_run d0 log) = 256 * unat n"
proof -
  let ?d = "drive_of d0 s"
  let ?r = "?d\<lparr>drive_head := ucast (0xE0 OR (drop_bit 24 start AND 0x0F)), sector_count := ucast n,
    lba0 := ucast (start AND 0xFF), lba1 := ucast (drop_bit 8 start AND 0xFF), lba2 := ucast (drop_bit 16 start AND 0xFF)\<rparr>"
  define log where "log = io_log s @ [Outb 0x1F6 (ucast (0xE0 OR (drop_bit 24 start AND 0x0F)))] @ [Outb 0x1F2 (ucast n)] @
    [Outb 0x1F3 (ucast (start AND 0xFF))] @ [Outb 0x1F4 (ucast (drop_bit 8 start AND 0xFF))] @
    [Outb 0x1F5 (ucast (drop_bit 16 start AND 0xFF))] @ [Outb 0x1F7 (ucast rw)]"
  have "rw_setup n start rw s = s\<lparr>io_log := log\<rparr>"
    by (simp add: rw_setup_def outb_def log_def)
  moreover have "drive_run d0 log = drive_command (ucast rw) ?r"
    using assms(1) unfolding log_def append.assoc [symmetric] drive_run_snoc by simp
  moreover have "drive_lba ?r = unat start"
    using bytes_of_word [of start] head_register [OF assms(2)] byte_register by (simp add: drive_lba_def)
  moreover have "unat (ucast n :: u8) = unat n" using assms(4) by (simp add: unat_ucast_mod)
  moreover from this have "(ucast n :: u8) \<noteq> 0" using assms(3) by (metis unat_0 less_irrefl)
  ultimately show ?thesis using assms(5)
    by (intro exI [of _ log]) (auto simp: drive_command_def READ_def WRITE_def)
qed


text \<open>Reading sectors: memory receives the bytes of the platter, and nothing else changes.\<close>

lemma rw_sectors_read:
  assumes dev: "ata_device d0 dev" and idle: "busy (drive_of d0 s) = 0"
    and "unat start < 2 ^ 28" and "0 < unat n" "unat n < 256"
  shows "\<exists>log. rw_sectors dev n start a READ s =
      Some (s\<lparr>io_log := log, cmem := put_bytes a (512 * unat n) (\<lambda>i. platter (drive_of d0 s) (512 * unat start + i)) (cmem s)\<rparr>) \<and>
    platter (drive_run d0 log) = platter (drive_of d0 s) \<and> busy (drive_run d0 log) = 0"
proof -
  obtain l where l: "rw_setup n start READ s = s\<lparr>io_log := l\<rparr>" "platter (drive_run d0 l) = platter (drive_of d0 s)"
    "command (drive_run d0 l) = 0x20" "cursor (drive_run d0 l) = 512 * unat start" "words_left (drive_run d0 l) = 256 * unat n"
    using rw_setup_effect [OF assms(2-5), of READ] by (auto simp: READ_def)
  then show ?thesis
    using read_sectors_effect [OF dev, of "s\<lparr>io_log := l\<rparr>" "unat n" a] assms(4,5)
    by (auto simp: rw_sectors_def)
qed

section \<open>Writing\<close>

lemma load16_bytes: "ucast (load16 m a) = m a" "ucast (drop_bit 8 (load16 m a)) = m (a + 1)"
  by (rule bit_word_eqI; auto simp: load16_def bit_simps dest: bit_imp_le_length)+

lemma write_words_effect:
  "command (drive_of d0 s) = 0x30 \<Longrightarrow> busy (drive_of d0 s) = 0 \<Longrightarrow>
    words_left (drive_of d0 s) = 256 * m + k \<Longrightarrow> k \<le> 256 \<Longrightarrow>
    \<exists>log. write_words k a s = s\<lparr>io_log := log\<rparr> \<and>
      drive_run d0 log = (drive_of d0 s)\<lparr>
        platter := put_disk (cursor (drive_of d0 s)) (2 * k) (\<lambda>i. cmem s (a + of_nat i)) (platter (drive_of d0 s)),
        cursor := cursor (drive_of d0 s) + 2 * k, words_left := 256 * m,
        busy := (if 0 < k then latency (drive_of d0 s) else 0)\<rparr>"
proof (induction k arbitrary: a s)
  case 0
  then show ?case by (intro exI [of _ "io_log s"]) simp
next
  case (Suc k)
  let ?d = "drive_of d0 s"
  let ?log = "io_log s @ [Outw 0x1F0 (load16 (cmem s) a)]"
  define s1 where "s1 = s\<lparr>io_log := ?log\<rparr>"
  let ?p = "put_disk (cursor ?d) 2 (\<lambda>i. cmem s (a + of_nat i)) (platter ?d)"
  have step: "write_words (Suc k) a s = write_words k (a + 2) s1"
    by (simp add: outw_def s1_def)
  have "(platter ?d)(cursor ?d := cmem s a, cursor ?d + 1 := cmem s (a + 1)) = ?p"
    by (auto simp: put_disk_def fun_eq_iff le_less)
  then have d1: "drive_of d0 s1 = ?d\<lparr>platter := ?p, cursor := cursor ?d + 2, words_left := 256 * m + k,
      busy := (if k = 0 then latency ?d else 0)\<rparr>"
    using Suc.prems by (auto simp: s1_def drive_next_def load16_bytes)
  show ?case
  proof (cases "k = 0")
    case True
    then show ?thesis unfolding step
      using d1 by (intro exI [of _ ?log]) (simp add: s1_def del: drive_run_snoc)
  next
    case False
    then obtain log where log: "write_words k (a + 2) s1 = s1\<lparr>io_log := log\<rparr>"
      "drive_run d0 log = ?d\<lparr>
        platter := put_disk (cursor ?d + 2) (2 * k) (\<lambda>i. cmem s (a + 2 + of_nat i)) ?p,
        cursor := cursor ?d + 2 + 2 * k, words_left := 256 * m, busy := latency ?d\<rparr>"
      using Suc.IH [of s1 "a + 2"] Suc.prems d1 by (auto simp: s1_def)
    have "put_disk (cursor ?d + 2) (2 * k) (\<lambda>i. cmem s (a + 2 + of_nat i)) ?p =
        put_disk (cursor ?d) (2 * Suc k) (\<lambda>i. cmem s (a + of_nat i)) (platter ?d)"
      unfolding put_disk_append by (auto simp: of_nat_diff intro!: put_disk_cong)
    then show ?thesis unfolding step log(1)
      using log(2) False by (intro exI [of _ log]) (simp add: s1_def)
  qed
qed

lemma write_sectors_effect:
  assumes "ata_device d0 dev"
  shows "command (drive_of d0 s) = 0x30 \<Longrightarrow> words_left (drive_of d0 s) = 256 * n \<Longrightarrow> n < 256 \<Longrightarrow>
    \<exists>log. write_sectors n dev a s = Some (s\<lparr>io_log := log\<rparr>) \<and>
      platter (drive_run d0 log) = put_disk (cursor (drive_of d0 s)) (512 * n) (\<lambda>i. cmem s (a + of_nat i)) (platter (drive_of d0 s))"
proof (induction n arbitrary: a s)
  case 0
  then show ?case by (intro exI [of _ "io_log s"]) simp
next
  case (Suc n)
  let ?d = "drive_of d0 s"
  obtain l1 where l1: "poll dev s = Some (s\<lparr>io_log := l1\<rparr>)" "drive_run d0 l1 = ?d\<lparr>busy := 0\<rparr>"
    using poll_returns [OF assms] by blast
  let ?p = "put_disk (cursor ?d) 512 (\<lambda>i. cmem s (a + of_nat i)) (platter ?d)"
  obtain l2 where l2: "write_words 256 a (s\<lparr>io_log := l1\<rparr>) = s\<lparr>io_log := l2\<rparr>"
    "drive_run d0 l2 = ?d\<lparr>platter := ?p, cursor := cursor ?d + 512, words_left := 256 * n, busy := latency ?d\<rparr>"
    using write_words_effect [of d0 "s\<lparr>io_log := l1\<rparr>" n 256 a] Suc.prems l1(2) by auto
  obtain l3 where l3: "delay dev (s\<lparr>io_log := l2\<rparr>) = s\<lparr>io_log := l3\<rparr>" "drive_run d0 l3 = drive_run d0 l2"
    using delay_idle [of dev "s\<lparr>io_log := l2\<rparr>" d0] by auto
  let ?s3 = "s\<lparr>io_log := l3\<rparr>"
  have step: "write_sectors (Suc n) dev a s = write_sectors n dev (a + 512) ?s3"
    by (simp add: l1(1) l2(1) l3(1))
  obtain log where log: "write_sectors n dev (a + 512) ?s3 = Some (?s3\<lparr>io_log := log\<rparr>)"
    "platter (drive_run d0 log) = put_disk (cursor ?d + 512) (512 * n) (\<lambda>i. cmem s (a + 512 + of_nat i)) ?p"
    using Suc.IH [of ?s3 "a + 512"] Suc.prems l3(2) l2(2) by auto
  have "put_disk (cursor ?d + 512) (512 * n) (\<lambda>i. cmem s (a + 512 + of_nat i)) ?p =
      put_disk (cursor ?d) (512 * Suc n) (\<lambda>i. cmem s (a + of_nat i)) (platter ?d)"
    unfolding put_disk_append by (auto simp: of_nat_diff intro!: put_disk_cong)
  then show ?case unfolding step log(1) using log(2) by (intro exI [of _ log]) simp
qed

text \<open>Writing sectors: the platter receives the bytes of memory, and memory is untouched.\<close>

lemma rw_sectors_write:
  assumes dev: "ata_device d0 dev" and idle: "busy (drive_of d0 s) = 0"
    and "unat start < 2 ^ 28" and "0 < unat n" "unat n < 256"
  shows "\<exists>log. rw_sectors dev n start a WRITE s = Some (s\<lparr>io_log := log\<rparr>) \<and>
    platter (drive_run d0 log) =
      put_disk (512 * unat start) (512 * unat n) (\<lambda>i. cmem s (a + of_nat i)) (platter (drive_of d0 s)) \<and>
    busy (drive_run d0 log) = 0"
proof -
  obtain l where l: "rw_setup n start WRITE s = s\<lparr>io_log := l\<rparr>" "platter (drive_run d0 l) = platter (drive_of d0 s)"
    "command (drive_run d0 l) = 0x30" "cursor (drive_run d0 l) = 512 * unat start" "words_left (drive_run d0 l) = 256 * unat n"
    using rw_setup_effect [OF assms(2-5), of WRITE] by (auto simp: WRITE_def)
  obtain l2 where l2: "write_sectors (unat n) dev a (s\<lparr>io_log := l\<rparr>) = Some (s\<lparr>io_log := l2\<rparr>)"
    "platter (drive_run d0 l2) = put_disk (512 * unat start) (512 * unat n) (\<lambda>i. cmem s (a + of_nat i)) (platter (drive_of d0 s))"
    using write_sectors_effect [OF dev, of "s\<lparr>io_log := l\<rparr>" "unat n" a] l assms(4,5) by auto
  let ?s3 = "outb 0x1F7 0xE7 (s\<lparr>io_log := l2\<rparr>)"
  have "platter (drive_of d0 ?s3) = platter (drive_run d0 l2)" by (simp add: drive_command_def)
  moreover obtain l4 where "poll dev ?s3 = Some (?s3\<lparr>io_log := l4\<rparr>)" "drive_run d0 l4 = (drive_of d0 ?s3)\<lparr>busy := 0\<rparr>"
    using poll_returns [OF dev] by blast
  ultimately show ?thesis
    using l(1) l2 by (intro exI [of _ l4]) (simp add: rw_sectors_def READ_def WRITE_def outb_def)
qed


section \<open>The interface of the file system\<close>

definition disk_of :: "drive \<Rightarrow> 'a console_scheme \<Rightarrow> nat \<Rightarrow> u8" where
  "disk_of d0 s = platter (drive_of d0 s)"

definition disk_ready :: "drive \<Rightarrow> device \<Rightarrow> 'a console_scheme \<Rightarrow> bool" where
  "disk_ready d0 dev s \<longleftrightarrow> ata_device d0 dev \<and> busy (drive_of d0 s) = 0"

text \<open>Only the ports and the memory of the state have changed.\<close>

definition io_step :: "'a console_scheme \<Rightarrow> 'a console_scheme \<Rightarrow> bool" where
  "io_step s s' \<longleftrightarrow> (\<exists>log m. s' = s\<lparr>io_log := log, cmem := m\<rparr>)"

lemma io_step_refl: "io_step s s"
  unfolding io_step_def by (intro exI [of _ "io_log s"] exI [of _ "cmem s"]) simp

lemma io_step_intro: "io_step s (s\<lparr>io_log := log, cmem := m\<rparr>)"
  unfolding io_step_def by blast

lemma io_step_trans: "io_step s t \<Longrightarrow> io_step t u \<Longrightarrow> io_step s u"
  unfolding io_step_def by (auto simp: cmem_io_log_swap) blast

text \<open>
  A device of 512-byte sectors: reading and writing \<open>n\<close> of them moves bytes between the disk
  and memory, always returns, and leaves the rest of the state related by \<open>same\<close>.
\<close>

locale sector_device =
  fixes rd wr :: "u32 \<Rightarrow> u32 \<Rightarrow> u32 \<Rightarrow> 's \<Rightarrow> 's option"
    and disk :: "'s \<Rightarrow> nat \<Rightarrow> u8"
    and ram :: "'s \<Rightarrow> memory"
    and ready :: "'s \<Rightarrow> bool"
    and same :: "'s \<Rightarrow> 's \<Rightarrow> bool"
  assumes read_effect: "ready s \<Longrightarrow> unat start < 2 ^ 28 \<Longrightarrow> 0 < unat n \<Longrightarrow> unat n < 256 \<Longrightarrow>
      \<exists>s'. rd n start a s = Some s' \<and> ready s' \<and> same s s' \<and> disk s' = disk s \<and>
        ram s' = put_bytes a (512 * unat n) (\<lambda>i. disk s (512 * unat start + i)) (ram s)"
    and write_effect: "ready s \<Longrightarrow> unat start < 2 ^ 28 \<Longrightarrow> 0 < unat n \<Longrightarrow> unat n < 256 \<Longrightarrow>
      \<exists>s'. wr n start a s = Some s' \<and> ready s' \<and> same s s' \<and> ram s' = ram s \<and>
        disk s' = put_disk (512 * unat start) (512 * unat n) (\<lambda>i. ram s (a + of_nat i)) (disk s)"
    and same_trans: "same s t \<Longrightarrow> same t u \<Longrightarrow> same s u"
begin

lemma write_then_read:
  assumes "ready s" "unat start < 2 ^ 28" "0 < unat n" "unat n < 256"
  shows "\<exists>s1 s2. wr n start a s = Some s1 \<and> rd n start b s1 = Some s2 \<and> ready s2 \<and> same s s2 \<and>
    disk s2 = put_disk (512 * unat start) (512 * unat n) (\<lambda>i. ram s (a + of_nat i)) (disk s) \<and>
    ram s2 = put_bytes b (512 * unat n) (\<lambda>i. ram s (a + of_nat i)) (ram s)"
proof -
  obtain s1 where s1: "wr n start a s = Some s1" "ready s1" "same s s1" "ram s1 = ram s"
    "disk s1 = put_disk (512 * unat start) (512 * unat n) (\<lambda>i. ram s (a + of_nat i)) (disk s)"
    using write_effect [OF assms] by blast
  obtain s2 where s2: "rd n start b s1 = Some s2" "ready s2" "same s1 s2" "disk s2 = disk s1"
    "ram s2 = put_bytes b (512 * unat n) (\<lambda>i. disk s1 (512 * unat start + i)) (ram s1)"
    using read_effect [OF s1(2) assms(2-4), of b] by blast
  have "ram s2 = put_bytes b (512 * unat n) (\<lambda>i. ram s (a + of_nat i)) (ram s)"
    unfolding s2(5) s1(4,5) by (rule put_bytes_cong) (simp add: put_disk_def)
  then show ?thesis using s1 s2 same_trans by metis
qed

text \<open>A read, a change of the buffer and a write back change the sectors to the changed buffer.\<close>

lemma read_modify_write:
  assumes "ready s" "unat start < 2 ^ 28" "0 < unat n" "unat n < 256"
    and upd: "\<And>t. ready t \<Longrightarrow> ready (upd t) \<and> same t (upd t) \<and> disk (upd t) = disk t \<and> ram (upd t) = f (ram t)"
  shows "\<exists>s1 s2. rd n start a s = Some s1 \<and> wr n start a (upd s1) = Some s2 \<and> ready s2 \<and> same s s2 \<and>
    ram s2 = f (put_bytes a (512 * unat n) (\<lambda>i. disk s (512 * unat start + i)) (ram s)) \<and>
    disk s2 = put_disk (512 * unat start) (512 * unat n) (\<lambda>i. ram s2 (a + of_nat i)) (disk s)"
proof -
  obtain s1 where s1: "rd n start a s = Some s1" "ready s1" "same s s1" "disk s1 = disk s"
    "ram s1 = put_bytes a (512 * unat n) (\<lambda>i. disk s (512 * unat start + i)) (ram s)"
    using read_effect [OF assms(1-4)] by blast
  have u: "ready (upd s1)" "same s1 (upd s1)" "disk (upd s1) = disk s" "ram (upd s1) = f (ram s1)"
    using upd [OF s1(2)] s1(4) by simp_all
  obtain s2 where s2: "wr n start a (upd s1) = Some s2" "ready s2" "same (upd s1) s2" "ram s2 = ram (upd s1)"
    "disk s2 = put_disk (512 * unat start) (512 * unat n) (\<lambda>i. ram (upd s1) (a + of_nat i)) (disk (upd s1))"
    using write_effect [OF u(1) assms(2-4), of a] by blast
  have "same s s2" using same_trans [OF same_trans [OF s1(3) u(2)] s2(3)] .
  then show ?thesis using s1 s2 u by metis
qed

end

interpretation ata: sector_device
    "\<lambda>n start a. rw_sectors dev n start a READ" "\<lambda>n start a. rw_sectors dev n start a WRITE"
    "disk_of d0" cmem "disk_ready d0 dev" io_step
  for dev d0
proof unfold_locales
  fix s :: "'a console_scheme" and n start a :: u32
  assume s: "disk_ready d0 dev s" "unat start < 2 ^ 28" "0 < unat n" "unat n < 256"
  then have r: "ata_device d0 dev" "busy (drive_of d0 s) = 0" by (simp_all add: disk_ready_def)
  show "\<exists>s'. rw_sectors dev n start a READ s = Some s' \<and> disk_ready d0 dev s' \<and> io_step s s' \<and> disk_of d0 s' = disk_of d0 s \<and>
      cmem s' = put_bytes a (512 * unat n) (\<lambda>i. disk_of d0 s (512 * unat start + i)) (cmem s)"
    using rw_sectors_read [OF r s(2-4), of a] r(1) by (auto simp: disk_of_def disk_ready_def io_step_intro)
  obtain log where log: "rw_sectors dev n start a WRITE s = Some (s\<lparr>io_log := log\<rparr>)"
    "platter (drive_run d0 log) = put_disk (512 * unat start) (512 * unat n) (\<lambda>i. cmem s (a + of_nat i)) (platter (drive_of d0 s))"
    "busy (drive_run d0 log) = 0"
    using rw_sectors_write [OF r s(2-4), of a] by blast
  moreover have "io_step s (s\<lparr>io_log := log\<rparr>)"
    unfolding io_step_def by (intro exI [of _ log] exI [of _ "cmem s"]) simp
  ultimately show "\<exists>s'. rw_sectors dev n start a WRITE s = Some s' \<and> disk_ready d0 dev s' \<and> io_step s s' \<and> cmem s' = cmem s \<and>
      disk_of d0 s' = put_disk (512 * unat start) (512 * unat n) (\<lambda>i. cmem s (a + of_nat i)) (disk_of d0 s)"
    using r(1) by (simp add: disk_of_def disk_ready_def)
qed (rule io_step_trans)

text \<open>
  C19. What is written to sectors is read back from them, into any buffer: on every drive with
  the documented protocol both calls return, the bytes of the destination are those of the
  source, the disk changes in these sectors only and memory in the destination only.
\<close>

theorem rw_sectors_roundtrip:
  assumes "disk_ready d0 dev s" "unat start < 2 ^ 28" "0 < unat n" "unat n < 256"
  shows "\<exists>s1 s2. rw_sectors dev n start a WRITE s = Some s1 \<and> rw_sectors dev n start b READ s1 = Some s2 \<and>
    disk_ready d0 dev s2 \<and>
    (\<forall>i < 512 * unat n. cmem s2 (b + of_nat i) = cmem s (a + of_nat i)) \<and>
    (\<forall>x. 512 * unat n \<le> unat (x - b) \<longrightarrow> cmem s2 x = cmem s x) \<and>
    (\<forall>k. k div 512 < unat start \<or> unat start + unat n \<le> k div 512 \<longrightarrow> disk_of d0 s2 k = disk_of d0 s k)"
proof -
  obtain s1 s2 where s: "rw_sectors dev n start a WRITE s = Some s1" "rw_sectors dev n start b READ s1 = Some s2"
    "disk_ready d0 dev s2"
    "disk_of d0 s2 = put_disk (512 * unat start) (512 * unat n) (\<lambda>i. cmem s (a + of_nat i)) (disk_of d0 s)"
    "cmem s2 = put_bytes b (512 * unat n) (\<lambda>i. cmem s (a + of_nat i)) (cmem s)"
    using ata.write_then_read [OF assms] by blast
  have "disk_of d0 s2 k = disk_of d0 s k" if "k div 512 < unat start \<or> unat start + unat n \<le> k div 512" for k
  proof -
    have "k < 512 * unat start \<or> 512 * unat start + 512 * unat n \<le> k" using that by auto
    then show ?thesis by (auto simp: s(4) put_disk_def)
  qed
  moreover have "cmem s2 (b + of_nat i) = cmem s (a + of_nat i)" if "i < 512 * unat n" for i
    using that assms(4) by (simp add: s(5) put_bytes_at)
  moreover have "cmem s2 x = cmem s x" if "512 * unat n \<le> unat (x - b)" for x
    using that by (simp add: s(5) put_bytes_def)
  ultimately show ?thesis using s(1-3) by blast
qed

text \<open>A drive that is busy for two status reads.\<close>

definition example_drive :: drive where
  "example_drive = \<lparr>platter = (\<lambda>_. 0), sector_count = 0, lba0 = 0, lba1 = 0, lba2 = 0, drive_head = 0, command = 0,
     cursor = 0, words_left = 0, busy = 0, latency = 2\<rparr>"

definition example_ata :: "drive \<Rightarrow> device" where
  "example_ata d0 log p =
     (if p = 0x1F7 then (if 0 < busy (drive_run d0 log) then 0x80 else 0x50) else drive_word (drive_run d0 log))"

lemma example_ata_device: "ata_device d0 (example_ata d0)"
proof -
  have "(ucast (0x80 :: u16) :: u8) AND 0x80 \<noteq> 0" "(ucast (0x50 :: u16) :: u8) AND 0x80 = 0" by code_simp+
  then show ?thesis by (simp add: ata_device_def example_ata_def)
qed

theorem rw_sectors_roundtrip_witness:
  "\<exists>s1 s2. rw_sectors (example_ata example_drive) 8 16 0x100000 WRITE example_console = Some s1 \<and>
     rw_sectors (example_ata example_drive) 8 16 0x200000 READ s1 = Some s2 \<and>
     cmem s2 0x200007 = cmem example_console 0x100007"
proof -
  have "disk_ready example_drive (example_ata example_drive) example_console"
    by (simp add: disk_ready_def example_ata_device example_console_def drive_run_def example_drive_def)
  from rw_sectors_roundtrip [OF this, of 16 8 "0x100000" "0x200000"]
  obtain s1 s2 where "rw_sectors (example_ata example_drive) 8 16 0x100000 WRITE example_console = Some s1"
    "rw_sectors (example_ata example_drive) 8 16 0x200000 READ s1 = Some s2"
    "\<forall>i < 4096. cmem s2 (0x200000 + of_nat i) = cmem example_console (0x100000 + of_nat i)"
    by auto
  then show ?thesis by (auto dest: spec [of _ 7])
qed

end
