(* ===== verification/FsLayout.thy ===== *)
theory FsLayout
  imports Ata
begin

text \<open>
  The packed structures of \<^verbatim>\<open>kernel/fs/fs.h\<close>, as records and as bytes: inodes, directory
  entries, the superblock and the open file table's entries, with the constants and size
  computations of the header.

  \<open>load_x m a\<close> reads the structure at \<open>a\<close>, \<open>x_bytes\<close> are the bytes of one, and \<open>store_x\<close>
  writes them; the lemmas are the two round trips.
\<close>

section \<open>Constants\<close>

definition FS_BLOCK :: u32 where "FS_BLOCK = 4096"
definition FS_SECTOR :: u32 where "FS_SECTOR = 512"
definition SECTORS_PER_BLOCK :: u32 where "SECTORS_PER_BLOCK = 8"
definition SUPERBLOCK_DISK_SECTOR :: u32 where "SUPERBLOCK_DISK_SECTOR = 8"
definition INODES_PER_SECTOR :: u32 where "INODES_PER_SECTOR = 8"
definition INODES_PER_BLOCK :: u32 where "INODES_PER_BLOCK = 64"
definition DIR_ENTRIES_PER_BLOCK :: u32 where "DIR_ENTRIES_PER_BLOCK = 64"
definition file_type_file :: u8 where "file_type_file = 0"
definition file_type_dir :: u8 where "file_type_dir = 1"

lemmas fs_constants = FS_BLOCK_def FS_SECTOR_def SECTORS_PER_BLOCK_def SUPERBLOCK_DISK_SECTOR_def
  INODES_PER_SECTOR_def INODES_PER_BLOCK_def DIR_ENTRIES_PER_BLOCK_def file_type_file_def file_type_dir_def

section \<open>Structures\<close>

record fs_time =
  second :: u8
  minute :: u8
  hour :: u8
  day :: u8
  month :: u8
  year :: u16
  time_padding :: u8

record inode =
  i_number :: u32
  file_type :: u8
  inode_size :: u32
  time_accessed :: fs_time
  time_modified :: fs_time
  time_created :: fs_time
  direct_pointers :: "u32 list"
  single_indirect_block :: u8
  max_count :: u8
  inode_padding :: u8

record super_block =
  num_inodes :: u32
  num_inodes_bitmap :: u32
  num_data_bitmap :: u32
  num_inodes_per_block :: u32
  num_inodes_per_sector :: u32
  num_inode_blocks :: u32
  first_inode_bitmap :: u32
  first_inode_bitmap_block :: u32
  first_data_bitmap_block :: u32
  first_data_bitmap :: u32
  first_inode_block :: u32
  first_data_block :: u32
  sb_inode_size :: u32
  num_datablocks :: u32
  max_file_size :: u32
  root_i_number :: u32
  first_free_inode_bit :: u32
  first_free_data_bit :: u32
  device_number :: u32
  sb_padding :: "u8 list"

record dir_entry =
  entry_i_number :: u32
  entry_name :: "u8 list"

text \<open>The zero initialisers \<^verbatim>\<open>{0}\<close>.\<close>

definition zero_time :: fs_time where
  "zero_time = \<lparr>second = 0, minute = 0, hour = 0, day = 0, month = 0, year = 0, time_padding = 0\<rparr>"

definition zero_inode :: inode where
  "zero_inode = \<lparr>i_number = 0, file_type = 0, inode_size = 0, time_accessed = zero_time, time_modified = zero_time,
     time_created = zero_time, direct_pointers = replicate 7 0, single_indirect_block = 0, max_count = 0, inode_padding = 0\<rparr>"

definition zero_superblock :: super_block where
  "zero_superblock = \<lparr>num_inodes = 0, num_inodes_bitmap = 0, num_data_bitmap = 0, num_inodes_per_block = 0,
     num_inodes_per_sector = 0, num_inode_blocks = 0, first_inode_bitmap = 0, first_inode_bitmap_block = 0,
     first_data_bitmap_block = 0, first_data_bitmap = 0, first_inode_block = 0, first_data_block = 0,
     sb_inode_size = 0, num_datablocks = 0, max_file_size = 0, root_i_number = 0, first_free_inode_bit = 0,
     first_free_data_bit = 0, device_number = 0, sb_padding = replicate 52 0\<rparr>"

section \<open>Sizes and places\<close>

text \<open>
  The computation that \<open>load_file\<close>, \<open>save_file\<close> and \<open>get_inode_in_dir\<close> repeat, and that
  \<^verbatim>\<open>bytes_to_blocks\<close> of \<^verbatim>\<open>format_disk.c\<close> is.
\<close>

definition bytes_to_blocks :: "u32 \<Rightarrow> u32" where
  "bytes_to_blocks sz =
     (let sectors = sz div FS_SECTOR;
          sectors = (if 0 < sz mod FS_SECTOR then sectors + 1 else sectors);
          blocks = sectors div SECTORS_PER_BLOCK
      in if 0 < sectors mod SECTORS_PER_BLOCK then blocks + 1 else blocks)"

text \<open>It rounds up.\<close>

lemma div_ceil:
  fixes n d :: nat
  assumes "0 < d"
  shows "(if 0 < n mod d then n div d + 1 else n div d) = (n + (d - 1)) div d"
proof (cases "n mod d = 0")
  case True
  then obtain q where n: "n = q * d" by (metis dvd_def mod_eq_0_iff_dvd mult.commute)
  have "(n + (d - 1)) div d = q" using assms by (intro div_nat_eqI) (simp_all add: n algebra_simps)
  then show ?thesis using assms by (simp add: n)
next
  case False
  have sum: "x + r + (d - 1) = (r - 1) + (x + d)" if "0 < r" for x r using that assms by simp
  have "n div d * d + n mod d + (d - 1) = (n mod d - 1) + (n div d * d + d)" using False by (intro sum) simp
  then have e: "n + (d - 1) = (n mod d - 1) + (n div d + 1) * d" by (simp add: algebra_simps)
  have "n mod d - 1 < d" using assms by (meson less_imp_diff_less mod_less_divisor)
  then have "((n mod d - 1) + (n div d + 1) * d) div d = n div d + 1"
    using assms by (intro div_nat_eqI) (simp_all add: algebra_simps)
  then show ?thesis unfolding e using False by simp
qed

lemma unat_div_ceil:
  fixes v d :: u32
  assumes "2 \<le> unat d"
  shows "unat (if 0 < v mod d then v div d + 1 else v div d) = (unat v + (unat d - 1)) div unat d"
proof -
  have "unat v div unat d \<le> unat v div 2" using assms by (intro div_le_mono2) simp_all
  moreover have "2 * (unat v div 2) \<le> unat v" by simp
  ultimately have "unat v div unat d + 1 < 4294967296" using unat_less_32 [of v] by linarith
  then have "unat (v div d + 1) = unat v div unat d + 1" by (simp add: unat_add_no_wrap unat_div)
  then have "unat (if 0 < v mod d then v div d + 1 else v div d) =
      (if 0 < unat v mod unat d then unat v div unat d + 1 else unat v div unat d)"
    by (simp add: word_less_nat_alt unat_mod unat_div)
  also have "\<dots> = (unat v + (unat d - 1)) div unat d" using assms by (intro div_ceil) simp
  finally show ?thesis .
qed

lemma bytes_to_blocks_ceil: "unat (bytes_to_blocks w) = (unat w + 4095) div 4096"
proof -
  define v where "v = (if 0 < w mod 512 then w div 512 + 1 else w div 512)"
  have v: "unat v = (unat w + 511) div 512" using unat_div_ceil [of 512 w] by (simp add: v_def)
  have "bytes_to_blocks w = (if 0 < v mod 8 then v div 8 + 1 else v div 8)"
    by (simp add: bytes_to_blocks_def fs_constants Let_def v_def)
  then have "unat (bytes_to_blocks w) = ((unat w + 511) div 512 + 7) div 8" using unat_div_ceil [of 8 v] v by simp
  also have "\<dots> = (unat w + 511 + 7 * 512) div 512 div 8" by simp
  also have "\<dots> = (unat w + 4095) div 4096" by (simp only: div_mult2_eq [symmetric]) simp
  finally show ?thesis .
qed

definition inode_sector :: "u32 \<Rightarrow> super_block \<Rightarrow> u32" where
  "inode_sector n sb = (n * 64 + first_inode_block sb * FS_BLOCK) div FS_SECTOR"

section \<open>Bytes\<close>

definition bytes16 :: "u16 \<Rightarrow> u8 list" where
  "bytes16 w = [ucast w, ucast (drop_bit 8 w)]"

definition bytes32 :: "u32 \<Rightarrow> u8 list" where
  "bytes32 w = [ucast w, ucast (drop_bit 8 w), ucast (drop_bit 16 w), ucast (drop_bit 24 w)]"

definition time_bytes :: "fs_time \<Rightarrow> u8 list" where
  "time_bytes t = [second t, minute t, hour t, day t, month t] @ bytes16 (year t) @ [time_padding t]"

definition inode_bytes :: "inode \<Rightarrow> u8 list" where
  "inode_bytes i = bytes32 (i_number i) @ [file_type i] @ bytes32 (inode_size i) @ time_bytes (time_accessed i) @
     time_bytes (time_modified i) @ time_bytes (time_created i) @ concat (map bytes32 (direct_pointers i)) @
     [single_indirect_block i, max_count i, inode_padding i]"

definition superblock_words :: "super_block \<Rightarrow> u32 list" where
  "superblock_words sb = [num_inodes sb, num_inodes_bitmap sb, num_data_bitmap sb, num_inodes_per_block sb,
     num_inodes_per_sector sb, num_inode_blocks sb, first_inode_bitmap sb, first_inode_bitmap_block sb,
     first_data_bitmap_block sb, first_data_bitmap sb, first_inode_block sb, first_data_block sb, sb_inode_size sb,
     num_datablocks sb, max_file_size sb, root_i_number sb, first_free_inode_bit sb, first_free_data_bit sb, device_number sb]"

definition superblock_bytes :: "super_block \<Rightarrow> u8 list" where
  "superblock_bytes sb = concat (map bytes32 (superblock_words sb)) @ sb_padding sb"

definition entry_bytes :: "dir_entry \<Rightarrow> u8 list" where
  "entry_bytes e = bytes32 (entry_i_number e) @ entry_name e"

text \<open>Structures in memory.\<close>

definition put_list :: "u32 \<Rightarrow> u8 list \<Rightarrow> memory \<Rightarrow> memory" where
  "put_list a bs m = put_bytes a (length bs) (\<lambda>i. bs ! i) m"

definition load_time :: "memory \<Rightarrow> u32 \<Rightarrow> fs_time" where
  "load_time m a = \<lparr>second = m a, minute = m (a + 1), hour = m (a + 2), day = m (a + 3), month = m (a + 4),
     year = load16 m (a + 5), time_padding = m (a + 7)\<rparr>"

definition load_inode :: "memory \<Rightarrow> u32 \<Rightarrow> inode" where
  "load_inode m a = \<lparr>i_number = load32 m a, file_type = m (a + 4), inode_size = load32 m (a + 5),
     time_accessed = load_time m (a + 9), time_modified = load_time m (a + 17), time_created = load_time m (a + 25),
     direct_pointers = map (\<lambda>k. load32 m (a + 33 + 4 * of_nat k)) [0..<7],
     single_indirect_block = m (a + 61), max_count = m (a + 62), inode_padding = m (a + 63)\<rparr>"

definition store_inode :: "inode \<Rightarrow> u32 \<Rightarrow> memory \<Rightarrow> memory" where
  "store_inode i a m = put_list a (inode_bytes i) m"

definition load_superblock :: "memory \<Rightarrow> u32 \<Rightarrow> super_block" where
  "load_superblock m a = \<lparr>num_inodes = load32 m a, num_inodes_bitmap = load32 m (a + 4), num_data_bitmap = load32 m (a + 8),
     num_inodes_per_block = load32 m (a + 12), num_inodes_per_sector = load32 m (a + 16), num_inode_blocks = load32 m (a + 20),
     first_inode_bitmap = load32 m (a + 24), first_inode_bitmap_block = load32 m (a + 28),
     first_data_bitmap_block = load32 m (a + 32), first_data_bitmap = load32 m (a + 36), first_inode_block = load32 m (a + 40),
     first_data_block = load32 m (a + 44), sb_inode_size = load32 m (a + 48), num_datablocks = load32 m (a + 52),
     max_file_size = load32 m (a + 56), root_i_number = load32 m (a + 60), first_free_inode_bit = load32 m (a + 64),
     first_free_data_bit = load32 m (a + 68), device_number = load32 m (a + 72),
     sb_padding = map (\<lambda>k. m (a + 76 + of_nat k)) [0..<52]\<rparr>"


section \<open>Reading back what was written\<close>

lemma bytes_lengths [simp]:
  "length (bytes16 v) = 2" "length (bytes32 w) = 4" "length (time_bytes t) = 8"
  by (simp_all add: bytes16_def bytes32_def time_bytes_def)

lemma length_concat_bytes32 [simp]: "length (concat (map bytes32 ws)) = 4 * length ws"
  by (induction ws) simp_all

lemma length_inode_bytes [simp]: "length (inode_bytes i) = 36 + 4 * length (direct_pointers i)"
  by (simp add: inode_bytes_def)

lemma length_entry_bytes [simp]: "length (entry_bytes e) = 4 + length (entry_name e)"
  by (simp add: entry_bytes_def)

lemma length_superblock_bytes [simp]: "length (superblock_bytes sb) = 76 + length (sb_padding sb)"
  by (simp add: superblock_bytes_def superblock_words_def)

lemma put_list_at:
  "k < length bs \<Longrightarrow> length bs \<le> 2 ^ 32 \<Longrightarrow> put_list a bs m (a + of_nat k) = bs ! k"
  by (simp add: put_list_def put_bytes_at)

lemma put_list_outside: "length bs \<le> unat (b - a) \<Longrightarrow> put_list a bs m b = m b"
  by (simp add: put_list_def put_bytes_def)

lemma load32_bytes:
  assumes "m a = ucast w" "m (a + 1) = ucast (drop_bit 8 w)" "m (a + 2) = ucast (drop_bit 16 w)" "m (a + 3) = ucast (drop_bit 24 w)"
  shows "load32 m a = w"
proof -
  have "load32 m a = load32 (store32 m a w) a"
    by (rule load32_cong) (use assms in \<open>auto simp: store32_def\<close>)
  then show ?thesis by (simp add: load32_store32_same)
qed

lemma load32_put_list:
  assumes "take 4 (drop k bs) = bytes32 w" and "length bs \<le> 2 ^ 32"
  shows "load32 (put_list a bs m) (a + of_nat k) = w"
proof -
  have "length (take 4 (drop k bs)) = 4" using assms(1) by simp
  then have len: "k + 4 \<le> length bs" by simp
  have "put_list a bs m (a + of_nat k + of_nat j) = bytes32 w ! j" if "j < 4" for j
    using put_list_at [of "k + j" bs a m] that len assms by (simp add: add.assoc assms(1) [symmetric])
  from this [of 0] this [of 1] this [of 2] this [of 3] show ?thesis
    by (intro load32_bytes) (simp_all add: bytes32_def)
qed

lemma load16_bytes16: "m a = ucast w \<Longrightarrow> m (a + 1) = ucast (drop_bit 8 w) \<Longrightarrow> load16 m a = w"
  by (rule bit_word_eqI; simp add: load16_def bit_simps; auto simp: bit_simps)

lemma load_time_put_list:
  assumes "take 8 (drop k bs) = time_bytes t" and "length bs \<le> 2 ^ 32"
  shows "load_time (put_list a bs m) (a + of_nat k) = t"
proof -
  have "length (take 8 (drop k bs)) = 8" using assms(1) by simp
  then have len: "k + 8 \<le> length bs" by simp
  have at: "put_list a bs m (a + of_nat k + of_nat j) = time_bytes t ! j" if "j < 8" for j
    using put_list_at [of "k + j" bs a m] that len assms by (simp add: add.assoc assms(1) [symmetric])
  have "load16 (put_list a bs m) (a + of_nat k + 5) = year t"
    using at [of 5] at [of 6] by (intro load16_bytes16) (simp_all add: time_bytes_def bytes16_def add.assoc)
  then show ?thesis
    using at [of 0] at [of 1] at [of 2] at [of 3] at [of 4] at [of 7]
    by (simp add: load_time_def time_bytes_def bytes16_def)
qed

lemma length_7_cases:
  assumes "length xs = 7"
  obtains x0 x1 x2 x3 x4 x5 x6 where "xs = [x0, x1, x2, x3, x4, x5, x6]"
  using assms by (auto simp: numeral_eq_Suc length_Suc_conv)

lemma load_store_inode:
  assumes "length (direct_pointers i) = 7"
  shows "load_inode (store_inode i a m) a = i"
proof -
  obtain x0 x1 x2 x3 x4 x5 x6 where dp: "direct_pointers i = [x0, x1, x2, x3, x4, x5, x6]"
    using assms by (rule length_7_cases)
  let ?b = "inode_bytes i"
  have len: "length ?b = 64" "length ?b \<le> 2 ^ 32" using assms by simp_all
  let ?m = "store_inode i a m"
  note B = inode_bytes_def dp bytes32_def time_bytes_def bytes16_def
  have w: "load32 ?m (a + of_nat k) = v" if "take 4 (drop k ?b) = bytes32 v" for k v
    using load32_put_list [OF that len(2)] by (simp add: store_inode_def)
  have t: "load_time ?m (a + of_nat k) = v" if "take 8 (drop k ?b) = time_bytes v" for k v
    using load_time_put_list [OF that len(2)] by (simp add: store_inode_def)
  have c: "?m (a + of_nat k) = ?b ! k" if "k < 64" for k
    using put_list_at [of k ?b] that len by (simp add: store_inode_def)
  have "direct_pointers (load_inode ?m a) = direct_pointers i"
    using w [of 33 x0] w [of 37 x1] w [of 41 x2] w [of 45 x3] w [of 49 x4] w [of 53 x5] w [of 57 x6]
    by (simp add: load_inode_def upt_rec B add.assoc)
  moreover have "time_accessed (load_inode ?m a) = time_accessed i" "time_modified (load_inode ?m a) = time_modified i"
    "time_created (load_inode ?m a) = time_created i"
    using t [of 9 "time_accessed i"] t [of 17 "time_modified i"] t [of 25 "time_created i"]
    by (simp_all add: load_inode_def B)
  moreover have "i_number (load_inode ?m a) = i_number i" "inode_size (load_inode ?m a) = inode_size i"
    using w [of 0 "i_number i"] w [of 5 "inode_size i"] by (simp_all add: load_inode_def B)
  moreover have "file_type (load_inode ?m a) = file_type i"
    "single_indirect_block (load_inode ?m a) = single_indirect_block i"
    "max_count (load_inode ?m a) = max_count i" "inode_padding (load_inode ?m a) = inode_padding i"
    using c [of 4] c [of 61] c [of 62] c [of 63] by (simp_all add: load_inode_def B)
  ultimately show ?thesis by (intro inode.equality) simp_all
qed

end
