(* ===== verification/Fs.thy ===== *)
theory Fs
  imports FsLayout Keyboard Smap
begin

text \<open>
  The file system operations of \<^verbatim>\<open>kernel/fs/fs_commands.c\<close>: the definitions. The global
  structs are record fields. What the code reaches through pointers is in memory: the two
  buffers, and the local arrays of \<open>get_inode\<close>, \<open>get_parent_inode\<close> and \<open>create_file\<close>, whose
  addresses are fields of the state too, as are the two string literals of \<open>print_dir\<close>.

  \<open>None\<close> stands for no result: a polling or string loop that does not end, or an access to a
  direct pointer that an inode does not have. \<^verbatim>\<open>FILE_TYPE_FILE\<close>, \<^verbatim>\<open>FILE_TYPE_DIR\<close> and
  \<^verbatim>\<open>bytes_to_blocks\<close> are not declared in the kernel; they are read as the constants of
  \<^verbatim>\<open>fs.h\<close> and the function of \<^verbatim>\<open>format_disk.c\<close>.
\<close>

section \<open>State\<close>

record fs = keyboard +
  current_dir_inode :: inode
  superblock :: super_block
  root_inode :: inode
  block_buffer :: u32
  sector_buffer :: u32
  str_buffer :: u32
  path_copy :: u32
  entry_local :: u32
  file_literal :: u32
  dir_literal :: u32

definition SUPERBLOCK_ADDRESS :: u32 where "SUPERBLOCK_ADDRESS = 0x8C00"

section \<open>Whole files\<close>

text \<open>
  The transfer loops of \<open>load_file\<close> and \<open>save_file\<close>. The inode is behind a pointer and is read
  again in every round; \<open>offset\<close> starts with whatever the uninitialised local holds.
\<close>

primrec file_loop :: "nat \<Rightarrow> device \<Rightarrow> u32 \<Rightarrow> u32 \<Rightarrow> u32 \<Rightarrow> u32 \<Rightarrow> u32 \<Rightarrow> 'a fs_scheme \<Rightarrow> 'a fs_scheme option" where
  "file_loop 0 dev node i address offset rw s = Some s"
| "file_loop (Suc k) dev node i address offset rw s = do {
     s1 \<leftarrow> rw_sectors dev SECTORS_PER_BLOCK (load32 (cmem s) (node + 33 + 4 * i) * SECTORS_PER_BLOCK) (address + offset) rw s;
     file_loop k dev node (i + 1) address (offset + 4096) rw s1
   }"

definition load_file :: "device \<Rightarrow> u32 \<Rightarrow> u32 \<Rightarrow> u32 \<Rightarrow> 'a fs_scheme \<Rightarrow> (bool \<times> 'a fs_scheme) option" where
  "load_file dev offset node address s = do {
     let blocks = bytes_to_blocks (load32 (cmem s) (node + 5));
     s1 \<leftarrow> file_loop (unat blocks) dev node 0 address offset READ s;
     Some (True, s1)
   }"

definition save_file :: "device \<Rightarrow> u32 \<Rightarrow> u32 \<Rightarrow> u32 \<Rightarrow> 'a fs_scheme \<Rightarrow> (bool \<times> 'a fs_scheme) option" where
  "save_file dev offset node address s = do {
     let blocks = bytes_to_blocks (load32 (cmem s) (node + 5));
     s1 \<leftarrow> file_loop (unat blocks) dev node 0 address offset WRITE s;
     Some (True, s1)
   }"

section \<open>Looking up names\<close>

primrec dir_scan :: "nat \<Rightarrow> device \<Rightarrow> u32 \<Rightarrow> u32 \<Rightarrow> 'a fs_scheme \<Rightarrow> (inode option \<times> 'a fs_scheme) option" where
  "dir_scan 0 dev e file s = Some (None, s)"
| "dir_scan (Suc k) dev e file s =
     (let n = load32 (cmem s) e
      in if n = 0 then dir_scan k dev (e + 64) file s
         else do {
           r \<leftarrow> strcmp (cmem s) (e + 4) file;
           if r = 0 then do {
             s1 \<leftarrow> rw_sectors dev 1 (inode_sector n (superblock s)) (sector_buffer s) READ s;
             Some (Some (load_inode (cmem s1) (sector_buffer s1 + 64 * (load32 (cmem s1) e mod INODES_PER_SECTOR))), s1)
           }
           else dir_scan k dev (e + 64) file s
         })"

primrec dir_blocks :: "nat \<Rightarrow> device \<Rightarrow> nat \<Rightarrow> inode \<Rightarrow> u32 \<Rightarrow> 'a fs_scheme \<Rightarrow> (inode \<times> 'a fs_scheme) option" where
  "dir_blocks 0 dev i dir file s = Some (zero_inode, s)"
| "dir_blocks (Suc k) dev i dir file s =
     (if 7 \<le> i then None
      else do {
        s1 \<leftarrow> rw_sectors dev SECTORS_PER_BLOCK (direct_pointers dir ! i * SECTORS_PER_BLOCK) (block_buffer s) READ s;
        (r, s2) \<leftarrow> dir_scan (unat DIR_ENTRIES_PER_BLOCK) dev (block_buffer s1) file s1;
        case r of Some v \<Rightarrow> Some (v, s2) | None \<Rightarrow> dir_blocks k dev (i + 1) dir file s2
      })"

definition get_inode_in_dir :: "device \<Rightarrow> inode \<Rightarrow> u32 \<Rightarrow> 'a fs_scheme \<Rightarrow> (inode \<times> 'a fs_scheme) option" where
  "get_inode_in_dir dev current_dir file s =
     dir_blocks (unat (bytes_to_blocks (inode_size current_dir))) dev 0 current_dir file s"

text \<open>
  \<open>get_inode\<close>: the walk over the path, which collects a name in the buffer and looks it up at
  every slash and at the end.
\<close>

definition lookup_buffer :: "device \<Rightarrow> inode \<Rightarrow> u32 \<Rightarrow> 'a fs_scheme \<Rightarrow> (inode \<times> 'a fs_scheme) option" where
  "lookup_buffer dev current_inode str_index s =
     get_inode_in_dir dev current_inode (str_buffer s) (s\<lparr>cmem := (cmem s)(str_buffer s + str_index := 0)\<rparr>)"

partial_function (option) path_loop ::
    "device \<Rightarrow> u32 \<Rightarrow> u32 \<Rightarrow> inode \<Rightarrow> 'a fs_scheme \<Rightarrow> (inode \<times> 'a fs_scheme) option" where
  "path_loop dev index str_index current_inode s =
     (if cmem s index = 0 then
        Option.bind (lookup_buffer dev current_inode str_index s)
          (\<lambda>(v, s1). Some (if i_number v = 0 then zero_inode else v, s1))
      else if cmem s index = 47 then
        Option.bind (lookup_buffer dev current_inode str_index s)
          (\<lambda>(v, s1). if i_number v = 0 then Some (zero_inode, s1)
                     else path_loop dev (index + 1) 0 v (s1\<lparr>cmem := memset (cmem s1) (str_buffer s1) 0 60\<rparr>))
      else if str_index < 59 then
        path_loop dev (index + 1) (str_index + 1) current_inode
          (s\<lparr>cmem := (cmem s)(str_buffer s + str_index := cmem s index)\<rparr>)
      else Some (zero_inode, s))"

definition get_inode :: "device \<Rightarrow> u32 \<Rightarrow> 'a fs_scheme \<Rightarrow> (inode \<times> 'a fs_scheme) option" where
  "get_inode dev path s =
     (let s1 = s\<lparr>cmem := memset (cmem s) (str_buffer s) 0 60\<rparr>
      in if cmem s1 path = 47 then path_loop dev (path + 1) 0 (root_inode s1) s1
         else path_loop dev path 0 (current_dir_inode s1) s1)"

definition get_parent_inode :: "device \<Rightarrow> u32 \<Rightarrow> 'a fs_scheme \<Rightarrow> (inode \<times> 'a fs_scheme) option" where
  "get_parent_inode dev path s = do {
     n \<leftarrow> strlen (cmem s) path;
     m \<leftarrow> strcpy (cmem s) (path_copy s) path;
     let s1 = s\<lparr>cmem := m\<rparr>;
     p \<leftarrow> strrchr (cmem s1) path 47;
     let index = p - path;
     if p = 0 then Some (current_dir_inode s1, s1)
     else do {
       let s2 = s1\<lparr>cmem := (cmem s1)(path_copy s1 + index := 0)\<rparr>;
       l \<leftarrow> strlen (cmem s2) (path_copy s2);
       if l = 0 then Some (root_inode s2, s2) else get_inode dev (path_copy s2) s2
     }
   }"

section \<open>The bitmaps\<close>

definition store64 :: "memory \<Rightarrow> u32 \<Rightarrow> u64 \<Rightarrow> memory" where
  "store64 m a v = store32 (store32 m a (ucast v)) (a + 4) (ucast (drop_bit 32 v))"

text \<open>
  The chunk is 64 bits, but \<^verbatim>\<open>1 << (index % 64)\<close> is an \<^verbatim>\<open>int\<close>: the shift count counts
  modulo 32 on the processor, and the result is sign-extended to 64 bits.
\<close>

definition int_bit :: "u32 \<Rightarrow> u32" where
  "int_bit index = push_bit (unat (index mod 64) mod 32) 1"

definition mark_bit :: "u32 \<Rightarrow> bool \<Rightarrow> u64 \<Rightarrow> u64" where
  "mark_bit index b chunk =
     (if b then chunk OR scast (int_bit index) else chunk AND scast (NOT (int_bit index)))"

definition set_bitmap :: "device \<Rightarrow> u32 \<Rightarrow> u32 \<Rightarrow> bool \<Rightarrow> 'a fs_scheme \<Rightarrow> 'a fs_scheme option" where
  "set_bitmap dev first_block bnum b s = do {
     s1 \<leftarrow> rw_sectors dev SECTORS_PER_BLOCK ((first_block + bnum div 32768) * SECTORS_PER_BLOCK) (block_buffer s) READ s;
     let index = bnum mod 32768;
     let a = block_buffer s1 + 8 * (index div 64);
     let s2 = s1\<lparr>cmem := store64 (cmem s1) a (mark_bit index b (load64 (cmem s1) a))\<rparr>;
     rw_sectors dev SECTORS_PER_BLOCK ((first_block + bnum div 32768) * SECTORS_PER_BLOCK) (block_buffer s2) WRITE s2
   }"

definition set_inode_bitmap :: "device \<Rightarrow> u32 \<Rightarrow> bool \<Rightarrow> 'a fs_scheme \<Rightarrow> 'a fs_scheme option" where
  "set_inode_bitmap dev bnum b s = set_bitmap dev (first_inode_bitmap (superblock s)) bnum b s"

definition set_data_bitmap :: "device \<Rightarrow> u32 \<Rightarrow> bool \<Rightarrow> 'a fs_scheme \<Rightarrow> 'a fs_scheme option" where
  "set_data_bitmap dev bnum b s = set_bitmap dev (first_data_bitmap (superblock s)) bnum b s"

text \<open>The search: in a word, in the words of the buffer, in the blocks.\<close>

definition clear_bit_of :: "u32 \<Rightarrow> nat option" where
  "clear_bit_of w = find (\<lambda>k. w AND push_bit k 1 = 0) [0..<32]"

primrec free_word :: "nat \<Rightarrow> u32 \<Rightarrow> u32 \<Rightarrow> memory \<Rightarrow> u32 option" where
  "free_word 0 j a m = None"
| "free_word (Suc n) j a m =
     (if load32 m a \<noteq> 0xFFFFFFFF then
        case clear_bit_of (load32 m a) of Some k \<Rightarrow> Some (j * 32 + of_nat k) | None \<Rightarrow> free_word n (j + 1) (a + 4) m
      else free_word n (j + 1) (a + 4) m)"

primrec free_block_loop :: "nat \<Rightarrow> device \<Rightarrow> u32 \<Rightarrow> 'a fs_scheme \<Rightarrow> (u32 \<times> 'a fs_scheme) option" where
  "free_block_loop 0 dev block s = Some (0, s)"
| "free_block_loop (Suc n) dev block s = do {
     s1 \<leftarrow> rw_sectors dev SECTORS_PER_BLOCK (block * SECTORS_PER_BLOCK) (block_buffer s) READ s;
     case free_word 1024 0 (block_buffer s1) (cmem s1) of
       Some v \<Rightarrow> Some (v, s1)
     | None \<Rightarrow> free_block_loop n dev (block + 1) s1
   }"

definition find_free_bit :: "device \<Rightarrow> u32 \<Rightarrow> u32 \<Rightarrow> 'a fs_scheme \<Rightarrow> (u32 \<times> 'a fs_scheme) option" where
  "find_free_bit dev start_block length_blocks s = free_block_loop (unat length_blocks) dev start_block s"

section \<open>Names, superblock and inodes\<close>

partial_function (option) get_name_loop :: "memory \<Rightarrow> u32 \<Rightarrow> u32 \<Rightarrow> u32 option" where
  "get_name_loop m temp temp2 =
     (if m temp \<noteq> 0 then get_name_loop m (temp + 1) (if m temp = 47 then temp + 1 else temp2) else Some temp2)"

definition get_name_path :: "memory \<Rightarrow> u32 \<Rightarrow> u32 option" where
  "get_name_path m path = get_name_loop m path path"

definition update_superblock :: "device \<Rightarrow> 'a fs_scheme \<Rightarrow> 'a fs_scheme option" where
  "update_superblock dev s =
     rw_sectors dev 1 SUPERBLOCK_DISK_SECTOR SUPERBLOCK_ADDRESS WRITE
       (s\<lparr>cmem := put_list SUPERBLOCK_ADDRESS (superblock_bytes (superblock s)) (cmem s)\<rparr>)"

definition update_inode :: "device \<Rightarrow> inode \<Rightarrow> 'a fs_scheme \<Rightarrow> 'a fs_scheme option" where
  "update_inode dev i s = do {
     s1 \<leftarrow> rw_sectors dev 1 (first_inode_block (superblock s) * SECTORS_PER_BLOCK + i_number i div INODES_PER_SECTOR)
       (sector_buffer s) READ s;
     let s2 = s1\<lparr>cmem := store_inode i (sector_buffer s1 + 64 * (i_number i mod INODES_PER_SECTOR)) (cmem s1)\<rparr>;
     rw_sectors dev 1 (first_inode_block (superblock s2) * SECTORS_PER_BLOCK + i_number i div INODES_PER_SECTOR)
       (sector_buffer s2) WRITE s2
   }"

section \<open>Creating a file\<close>

text \<open>\<^verbatim>\<open>*dst = *src\<close> for a 64-byte directory entry.\<close>

definition copy_entry :: "u32 \<Rightarrow> u32 \<Rightarrow> memory \<Rightarrow> memory" where
  "copy_entry dst src m = put_bytes dst 64 (\<lambda>k. m (src + of_nat k)) m"

text \<open>The new inode, with its two bitmap updates and searches.\<close>

definition new_file_inode :: "device \<Rightarrow> 'a fs_scheme \<Rightarrow> (inode \<times> 'a fs_scheme) option" where
  "new_file_inode dev s = do {
     let n = first_free_inode_bit (superblock s);
     s1 \<leftarrow> set_inode_bitmap dev n True s;
     (fi, s2) \<leftarrow> find_free_bit dev (first_inode_bitmap_block (superblock s1)) (num_inodes_bitmap (superblock s1)) s1;
     let s3 = s2\<lparr>superblock := (superblock s2)\<lparr>first_free_inode_bit := fi\<rparr>\<rparr>;
     let block = first_data_block (superblock s3) + first_free_data_bit (superblock s3);
     s4 \<leftarrow> set_data_bitmap dev block True s3;
     (fd, s5) \<leftarrow> find_free_bit dev (first_data_bitmap_block (superblock s4)) (num_data_bitmap (superblock s4)) s4;
     let s6 = s5\<lparr>superblock := (superblock s5)\<lparr>first_free_data_bit := fd\<rparr>\<rparr>;
     Some (zero_inode\<lparr>i_number := n, direct_pointers := (replicate 7 0)[0 := block],
        file_type := file_type_file, inode_size := FS_BLOCK\<rparr>, s6)
   }"

text \<open>
  A further block for the directory: the pointer is stored at the index
  \<^verbatim>\<open>new_direct_blocks_to_read\<close>, the block is cleared on disk, and its bitmap bit stays clear.
\<close>

definition grow_dir :: "device \<Rightarrow> u32 \<Rightarrow> inode \<Rightarrow> 'a fs_scheme \<Rightarrow> (inode \<times> 'a fs_scheme) option" where
  "grow_dir dev new_blocks parent s =
     (if 7 \<le> unat new_blocks then None
      else do {
        let block = first_data_block (superblock s) + first_free_data_bit (superblock s);
        let parent1 = parent\<lparr>direct_pointers := (direct_pointers parent)[unat new_blocks := block]\<rparr>;
        (fd, s1) \<leftarrow> find_free_bit dev (first_data_bitmap_block (superblock s)) (num_data_bitmap (superblock s)) s;
        let s2 = s1\<lparr>superblock := (superblock s1)\<lparr>first_free_data_bit := fd\<rparr>\<rparr>;
        s3 \<leftarrow> rw_sectors dev SECTORS_PER_BLOCK (block * SECTORS_PER_BLOCK) (block_buffer s2) READ s2;
        let s4 = s3\<lparr>cmem := memset (cmem s3) (block_buffer s3) 0 16384\<rparr>;
        s5 \<leftarrow> rw_sectors dev SECTORS_PER_BLOCK (block * SECTORS_PER_BLOCK) (block_buffer s4) WRITE s4;
        s6 \<leftarrow> update_inode dev parent1 s5;
        Some (parent1, s6)
      })"

text \<open>The first empty entry of the directory receives the new one.\<close>

primrec find_empty :: "nat \<Rightarrow> u32 \<Rightarrow> memory \<Rightarrow> u32 option" where
  "find_empty 0 e m = None"
| "find_empty (Suc k) e m = (if load32 m e = 0 then Some e else find_empty k (e + 64) m)"

primrec link_loop :: "nat \<Rightarrow> device \<Rightarrow> nat \<Rightarrow> inode \<Rightarrow> 'a fs_scheme \<Rightarrow> 'a fs_scheme option" where
  "link_loop 0 dev i parent s = Some s"
| "link_loop (Suc k) dev i parent s =
     (if 7 \<le> i then None
      else do {
        let direct = direct_pointers parent ! i;
        s1 \<leftarrow> rw_sectors dev SECTORS_PER_BLOCK (direct * SECTORS_PER_BLOCK) (block_buffer s) READ s;
        case find_empty (unat DIR_ENTRIES_PER_BLOCK) (block_buffer s1) (cmem s1) of
          Some e \<Rightarrow> rw_sectors dev SECTORS_PER_BLOCK (direct * SECTORS_PER_BLOCK) (block_buffer s1) WRITE
                      (s1\<lparr>cmem := copy_entry e (entry_local s1) (cmem s1)\<rparr>)
        | None \<Rightarrow> link_loop k dev (i + 1) parent s1
      })"

text \<open>\<^verbatim>\<open>new_entry\<close>: zeroed, numbered, and named by an unbounded \<open>strcpy\<close>.\<close>

definition make_entry :: "u32 \<Rightarrow> u32 \<Rightarrow> 'a fs_scheme \<Rightarrow> 'a fs_scheme option" where
  "make_entry n path s = do {
     let m1 = store32 (memset (cmem s) (entry_local s) 0 64) (entry_local s) n;
     name \<leftarrow> get_name_path m1 path;
     m2 \<leftarrow> strcpy m1 (entry_local s + 4) name;
     Some (s\<lparr>cmem := m2\<rparr>)
   }"

definition create_file :: "device \<Rightarrow> u32 \<Rightarrow> 'a fs_scheme \<Rightarrow> (inode \<times> 'a fs_scheme) option" where
  "create_file dev path s = do {
     (parent, s1) \<leftarrow> get_parent_inode dev path s;
     (new, s2) \<leftarrow> new_file_inode dev s1;
     s3 \<leftarrow> update_inode dev new s2;
     s4 \<leftarrow> make_entry (i_number new) path s3;
     let blocks = bytes_to_blocks (inode_size parent);
     let new_blocks = bytes_to_blocks (inode_size parent + 64);
     (parent1, s5) \<leftarrow> (if blocks < new_blocks \<and> \<not> 2 \<le> blocks then grow_dir dev new_blocks parent s4 else Some (parent, s4));
     s6 \<leftarrow> link_loop (unat new_blocks) dev 0 parent1 s5;
     let parent2 = parent1\<lparr>inode_size := inode_size parent1 + 64\<rparr>;
     s7 \<leftarrow> update_inode dev parent2 s6;
     let s8 = (if i_number (current_dir_inode s7) = i_number parent2 then s7\<lparr>current_dir_inode := parent2\<rparr> else s7);
     let s9 = (if i_number (root_inode s8) = i_number parent2 then s8\<lparr>root_inode := parent2\<rparr> else s8);
     s10 \<leftarrow> update_superblock dev s9;
     Some (new, s10)
   }"

section \<open>Listing a directory\<close>

text \<open>The entries of one block; \<open>num\<close> counts the ones seen, against \<open>tot\<close>.\<close>

primrec list_entries ::
    "nat \<Rightarrow> device \<Rightarrow> u32 \<Rightarrow> u32 \<Rightarrow> u32 \<Rightarrow> 'a fs_scheme \<Rightarrow> (u32 \<times> 'a fs_scheme) option" where
  "list_entries 0 dev tot num e s = Some (num, s)"
| "list_entries (Suc k) dev tot num e s =
     (if \<not> num < tot then Some (num, s)
      else let n = load32 (cmem s) e
      in if n = 0 then list_entries k dev tot num (e + 64) s
         else do {
           s1 \<leftarrow> rw_sectors dev 1 (first_inode_block (superblock s) * SECTORS_PER_BLOCK + n div INODES_PER_SECTOR)
             (sector_buffer s) READ s;
           let node = sector_buffer s1 + 64 * (load32 (cmem s1) e mod INODES_PER_SECTOR);
           let kind = (if cmem s1 (node + 4) = file_type_file then file_literal s1 else dir_literal s1);
           s2 \<leftarrow> kprintf (bytes [CHR 0x0D, CHR 0x0A] @ bytes ''%s    %s'') (stack_words [e + 4, kind]) s1;
           list_entries k dev tot (num + 1) (e + 64) s2
         })"

primrec list_blocks ::
    "nat \<Rightarrow> device \<Rightarrow> nat \<Rightarrow> inode \<Rightarrow> u32 \<Rightarrow> u32 \<Rightarrow> 'a fs_scheme \<Rightarrow> 'a fs_scheme option" where
  "list_blocks 0 dev i dir tot num s = Some s"
| "list_blocks (Suc k) dev i dir tot num s =
     (if 7 \<le> i then None
      else do {
        s1 \<leftarrow> rw_sectors dev SECTORS_PER_BLOCK (direct_pointers dir ! i * SECTORS_PER_BLOCK) (block_buffer s) READ s;
        (num1, s2) \<leftarrow> list_entries (unat DIR_ENTRIES_PER_BLOCK) dev tot num (block_buffer s1) s1;
        list_blocks k dev (i + 1) dir tot num1 s2
      })"

text \<open>
  \<open>print_dir\<close> cuts the caller's string at the last slash; without a slash \<^verbatim>\<open>strrchr\<close> gives the
  null pointer, and the byte written is the one at address 0.
\<close>

definition print_dir :: "device \<Rightarrow> u32 \<Rightarrow> 'a fs_scheme \<Rightarrow> (bool \<times> 'a fs_scheme) option" where
  "print_dir dev path s = do {
     p \<leftarrow> strrchr (cmem s) path 47;
     let index = p - path;
     let s1 = s\<lparr>cmem := (cmem s)(path + index := 0)\<rparr>;
     (dir, s2) \<leftarrow> (if index = 0 then Some (root_inode s1, s1) else get_inode dev path s1);
     if file_type dir \<noteq> file_type_dir then Some (False, s2)
     else do {
       s3 \<leftarrow> list_blocks (unat (bytes_to_blocks (inode_size dir))) dev 0 dir (inode_size dir div 64) 0 s2;
       Some (True, s3)
     }
   }"

text \<open>The functions that are still stubs.\<close>

definition create_dir :: "u32 \<Rightarrow> inode" where "create_dir path = zero_inode"
definition delete_file :: "u32 \<Rightarrow> bool" where "delete_file path = False"
definition delete_dir :: "u32 \<Rightarrow> bool" where "delete_dir path = False"

end
