(* ===== verification/FsBits.thy ===== *)
theory FsBits
  imports Fs
begin

text \<open>
  What the file system's disk operations do: blocks read and written through the buffers, the
  bitmaps, the search for a free bit, and the inode table.

  Bits of the disk are numbered throughout: bit \<open>j\<close> of byte \<open>k\<close> is bit \<open>8 * k + j\<close>, so that the
  bitmap that starts at block \<open>f\<close> has its bit \<open>n\<close> at \<open>32768 * f + n\<close>.
\<close>

section \<open>Blocks\<close>

lemma io_step_fs [frame_facts]:
  fixes s s' :: "'a fs_scheme"
  assumes "io_step s s'"
  shows "superblock s' = superblock s" "current_dir_inode s' = current_dir_inode s" "root_inode s' = root_inode s"
    "block_buffer s' = block_buffer s" "sector_buffer s' = sector_buffer s" "str_buffer s' = str_buffer s"
    "path_copy s' = path_copy s" "entry_local s' = entry_local s"
  using assms by (auto simp: io_step_def)

definition block_ok :: "u32 \<Rightarrow> bool" where
  "block_ok b \<longleftrightarrow> unat b < 2 ^ 25"

lemma block_sector:
  assumes "block_ok b"
  shows "unat (b * SECTORS_PER_BLOCK) = 8 * unat b" "unat (b * SECTORS_PER_BLOCK) < 2 ^ 28"
  using assms by (simp_all add: block_ok_def SECTORS_PER_BLOCK_def unat_word_ariths)

lemma read_block:
  assumes "disk_ready d0 dev s" and "block_ok b"
  shows "\<exists>s'. rw_sectors dev SECTORS_PER_BLOCK (b * SECTORS_PER_BLOCK) a READ s = Some s' \<and>
    disk_ready d0 dev s' \<and> io_step s s' \<and> disk_of d0 s' = disk_of d0 s \<and>
    cmem s' = put_bytes a 4096 (\<lambda>i. disk_of d0 s (4096 * unat b + i)) (cmem s)"
  using ata.read_effect [OF assms(1) block_sector(2) [OF assms(2)], of SECTORS_PER_BLOCK a] block_sector(1) [OF assms(2)]
  by (simp add: SECTORS_PER_BLOCK_def)

lemma write_block:
  assumes "disk_ready d0 dev s" and "block_ok b"
  shows "\<exists>s'. rw_sectors dev SECTORS_PER_BLOCK (b * SECTORS_PER_BLOCK) a WRITE s = Some s' \<and>
    disk_ready d0 dev s' \<and> io_step s s' \<and> cmem s' = cmem s \<and>
    disk_of d0 s' = put_disk (4096 * unat b) 4096 (\<lambda>i. cmem s (a + of_nat i)) (disk_of d0 s)"
  using ata.write_effect [OF assms(1) block_sector(2) [OF assms(2)], of SECTORS_PER_BLOCK a] block_sector(1) [OF assms(2)]
  by (simp add: SECTORS_PER_BLOCK_def)

section \<open>A small disk\<close>

text \<open>
  Block 2 holds the inode table, block 10 the root directory with one entry, the file
  \<^verbatim>\<open>a\<close> with inode 2, whose five bytes are in block 20. The path \<^verbatim>\<open>/a\<close> is in memory at 0x1000.
\<close>

definition example_disk :: "nat \<Rightarrow> u8" where
  "example_disk = (\<lambda>_. 0)(40960 := 2, 40964 := 97, 8320 := 2, 8325 := 5, 8353 := 20, 81924 := 120)"

definition example_root :: inode where
  "example_root = zero_inode\<lparr>i_number := 1, file_type := 1, inode_size := 64, direct_pointers := [10, 0, 0, 0, 0, 0, 0]\<rparr>"

definition example_fs :: fs where
  "example_fs = \<lparr>io_log = [], cmem = (\<lambda>_. 0)(0x1000 := 47, 0x1001 := 97), g_ScreenX = 0, g_ScreenY = 0,
     input_buffer = (\<lambda>_. 0), input_pos = 0, input_ready = False, key_shift = False, key_ctrl = False, key_caps = False,
     key_e0 = False, ticks = 0, current_dir_inode = example_root,
     superblock = zero_superblock\<lparr>first_inode_block := 2, first_inode_bitmap := 1\<rparr>, root_inode = example_root,
     block_buffer = 0x20000, sector_buffer = 0x30000, str_buffer = 0x40000, path_copy = 0x41000, entry_local = 0x42000,
     file_literal = 0x43000, dir_literal = 0x44000\<rparr>"

definition example_disk_drive :: drive where
  "example_disk_drive = example_drive\<lparr>platter := example_disk\<rparr>"

lemma example_fs_ready: "disk_ready example_disk_drive (example_ata example_disk_drive) example_fs"
  and example_fs_disk: "disk_of example_disk_drive example_fs = example_disk"
  by (simp_all add: disk_ready_def example_ata_device disk_of_def drive_run_def example_fs_def example_disk_drive_def
      example_drive_def)

section \<open>Setting a bit\<close>

lemma bit_scast64: "bit (scast (w :: u32) :: u64) i \<longleftrightarrow> i < 64 \<and> bit w (min i 31)"
  by (auto simp: bit_simps min_def)

lemma int_bit_small: "unat (index mod 64) = q \<Longrightarrow> bit (int_bit index) i \<longleftrightarrow> i = q mod 32"
  by (auto simp: int_bit_def bit_simps)

text \<open>The shifted \<^verbatim>\<open>int\<close> is sign-extended, so that a shift by 31 marks all bits from 31 on.\<close>

lemma mark_bit_bits:
  assumes "unat (index mod 64) mod 32 = q" and "i < 64"
  shows "bit (mark_bit index b c) i \<longleftrightarrow> (if i = q \<or> q = 31 \<and> 31 \<le> i then b else bit c i)"
  using assms int_bit_small [of index "unat (index mod 64)"] mod_less_divisor [of 32 "unat (index mod 64)"]
  by (auto simp: mark_bit_def bit_scast64 bit_and_iff bit_or_iff bit_not_iff min_def)

text \<open>So the chunk is a bitmap for the bits below 31.\<close>

interpretation chunk: bitmap "\<lambda>c :: u64. bit c" "\<lambda>i. mark_bit (of_nat i) True" "\<lambda>i. mark_bit (of_nat i) False" "\<lambda>i. i < 31"
proof unfold_locales
  fix i j :: nat and c :: u64
  assume "i < 31"
  then have q: "unat ((of_nat i :: u32) mod 64) mod 32 = i" by (simp add: unat_mod)
  have out: "\<not> bit d j" if "64 \<le> j" for d :: u64 using that by (auto dest: bit_imp_le_length)
  show "bit (mark_bit (of_nat i) True c) j \<longleftrightarrow> j = i \<or> bit c j"
    using mark_bit_bits [OF q, of j True c] \<open>i < 31\<close> out by (cases "j < 64") auto
  show "bit (mark_bit (of_nat i) False c) j \<longleftrightarrow> j \<noteq> i \<and> bit c j"
    using mark_bit_bits [OF q, of j False c] \<open>i < 31\<close> out by (cases "j < 64") auto
qed

lemma less_8_cases: "(q :: nat) < 8 \<longleftrightarrow> q = 0 \<or> q = 1 \<or> q = 2 \<or> q = 3 \<or> q = 4 \<or> q = 5 \<or> q = 6 \<or> q = 7"
  by auto

lemma bit_load32: "q < 4 \<Longrightarrow> j < 8 \<Longrightarrow> bit (load32 m a) (8 * q + j) \<longleftrightarrow> bit (m (a + of_nat q)) j"
proof -
  assume "q < 4" "j < 8"
  then have "q = 0 \<or> q = 1 \<or> q = 2 \<or> q = 3" by auto
  with \<open>j < 8\<close> show ?thesis
    by (elim disjE) (auto simp: load32_def bit_simps dest: bit_imp_le_length)
qed

lemma bit_load64:
  assumes "q < 8" "j < 8"
  shows "bit (load64 m a) (8 * q + j) \<longleftrightarrow> bit (m (a + of_nat q)) j"
proof (cases "q < 4")
  case True
  then show ?thesis using bit_load32 [OF True assms(2), of m a] assms
    by (auto simp: load64_def bit_simps)
next
  case False
  then obtain r where r: "q = r + 4" "r < 4" using assms(1) by (metis add.commute le_Suc_ex not_less nat_add_left_cancel_less numeral_Bit0)
  have "bit (load64 m a) (8 * q + j) \<longleftrightarrow> bit (load32 m (a + 4)) (8 * r + j)"
    using r assms(2) by (auto simp: load64_def bit_simps dest: bit_imp_le_length)
  then show ?thesis using bit_load32 [OF r(2) assms(2), of m "a + 4"] r(1) by (simp add: algebra_simps)
qed

lemma store32_put_bytes: "store32 m a v = put_bytes a 4 (\<lambda>q. ucast (drop_bit (8 * q) v)) m"
proof
  fix b
  have eq: "b = a + of_nat q \<longleftrightarrow> unat (b - a) = q" if "q < 4" for q
  proof
    assume "unat (b - a) = q"
    then have "of_nat q = b - a" by auto
    then show "b = a + of_nat q" by simp
  qed (use that in simp)
  have c: "unat (b - a) < 4 \<longleftrightarrow> b = a \<or> b = a + 1 \<or> b = a + 2 \<or> b = a + 3"
    using eq [of 0] eq [of 1] eq [of 2] eq [of 3] by auto
  show "store32 m a v b = put_bytes a 4 (\<lambda>q. ucast (drop_bit (8 * q) v)) m b"
    unfolding put_bytes_def c by (auto simp: store32_def)
qed

lemma store64_put_bytes: "store64 m a v = put_bytes a 8 (\<lambda>q. ucast (drop_bit (8 * q) v)) m"
proof -
  have "ucast (drop_bit (8 * q) (ucast v :: u32)) = (ucast (drop_bit (8 * q) v) :: u8)" if "q < 4" for q
    using that by (intro bit_word_eqI) (auto simp: bit_simps)
  moreover have "ucast (drop_bit (8 * (q - 4)) (ucast (drop_bit 32 v) :: u32)) = (ucast (drop_bit (8 * q) v) :: u8)"
    if "\<not> q < 4" "q < 8" for q
    using that by (intro bit_word_eqI) (auto simp: bit_simps algebra_simps)
  ultimately show ?thesis
    unfolding store64_def store32_put_bytes using put_bytes_append [of 4 4 a]
    by (auto intro!: put_bytes_cong)
qed

text \<open>Marking a chunk, seen at the bits of the bytes.\<close>

lemma bit_store64_mark:
  assumes "unat (index mod 64) mod 32 = e" and "j < 8"
  shows "bit (store64 m a (mark_bit index b (load64 m a)) x) j \<longleftrightarrow>
    (if unat (x - a) < 8 \<and> (8 * unat (x - a) + j = e \<or> e = 31 \<and> 31 \<le> 8 * unat (x - a) + j) then b else bit (m x) j)"
proof (cases "unat (x - a) < 8")
  case True
  let ?q = "unat (x - a)"
  have "bit (store64 m a (mark_bit index b (load64 m a)) x) j \<longleftrightarrow> bit (mark_bit index b (load64 m a)) (8 * ?q + j)"
    using True assms(2) by (simp add: store64_put_bytes put_bytes_def bit_simps)
  also have "\<dots> \<longleftrightarrow> (if 8 * ?q + j = e \<or> e = 31 \<and> 31 \<le> 8 * ?q + j then b else bit (load64 m a) (8 * ?q + j))"
    using True assms by (intro mark_bit_bits) auto
  finally show ?thesis using True bit_load64 [OF True assms(2), of m a] by simp
qed (simp add: store64_put_bytes put_bytes_def)

text \<open>
  The bits that really change when bit \<open>n\<close> is to be marked: they are in the 64-bit chunk of \<open>n\<close>, but
  the shift of an \<^verbatim>\<open>int\<close> counts modulo 32, and for 31 its sign extension covers the rest of the chunk.
\<close>

definition marks :: "nat \<Rightarrow> nat \<Rightarrow> bool" where
  "marks n x \<longleftrightarrow> x div 64 = n div 64 \<and> (x mod 64 = n mod 32 \<or> n mod 32 = 31 \<and> 31 \<le> x mod 64)"

lemma marks_itself: "n mod 64 < 31 \<Longrightarrow> marks n x \<longleftrightarrow> x = n"
proof -
  assume "n mod 64 < 31"
  then have "n mod 32 = n mod 64" using mod_mod_cancel [of 32 64 n] by simp
  then have "marks n x \<longleftrightarrow> x div 64 = n div 64 \<and> x mod 64 = n mod 64"
    using \<open>n mod 64 < 31\<close> by (auto simp: marks_def)
  then show "marks n x \<longleftrightarrow> x = n" by (metis div_mult_mod_eq)
qed

lemma marks_shift: "64 dvd k \<Longrightarrow> marks (k + n) (k + x) \<longleftrightarrow> marks n x"
proof -
  assume "64 dvd k"
  then obtain c where k: "k = 64 * c" by (rule dvdE)
  have "(64 * c + y) mod 32 = y mod 32" for y
    using mod_mult_self4 [of 32 "2 * c" y] by (simp add: mult.assoc [symmetric])
  moreover have "(64 * c + y) div 64 = c + y div 64" "(64 * c + y) mod 64 = y mod 64" for y by simp_all
  ultimately show ?thesis by (simp add: marks_def k)
qed

lemma marks_block: "marks n x \<Longrightarrow> x div 32768 = n div 32768"
proof -
  assume "marks n x"
  then have "x div 64 div 512 = n div 64 div 512" by (simp add: marks_def)
  then show ?thesis by (simp add: div_mult2_eq [symmetric])
qed

text \<open>The bytes of a block after the change, for the buffer at \<open>bb\<close>.\<close>

lemma bit_store64_block:
  fixes idx bb :: u32
  assumes "idx < 32768" "i < 4096" "j < 8"
  defines "a \<equiv> bb + 8 * (idx div 64)"
  shows "bit (store64 m a (mark_bit idx b (load64 m a)) (bb + of_nat i)) j \<longleftrightarrow>
    (if marks (unat idx) (8 * i + j) then b else bit (m (bb + of_nat i)) j)"
proof -
  let ?c = "unat idx div 64"
  let ?e = "unat idx mod 32"
  have c: "?c < 512" using assms(1) by (simp add: word_less_nat_alt less_mult_imp_div_less)
  then have u: "unat (8 * (idx div 64)) = 8 * ?c" by (simp add: unat_word_ariths unat_div)
  have "bb + of_nat i - a = of_nat i - 8 * (idx div 64)" by (simp add: a_def)
  then have x: "unat (bb + of_nat i - a) = (if 8 * ?c \<le> i then i - 8 * ?c else i + 2 ^ 32 - 8 * ?c)"
    using assms(2) by (simp only: unat_sub_if_size word_size u) (simp add: u)
  have e: "unat (idx mod 64) mod 32 = ?e" by (simp add: unat_mod mod_mod_cancel)
  have place: "(if 8 * c \<le> i then i - 8 * c else i + 2 ^ 32 - 8 * c) < 8 \<longleftrightarrow> (8 * i + j) div 64 = c"
    "8 * c \<le> i \<Longrightarrow> i - 8 * c < 8 \<Longrightarrow> 8 * (i - 8 * c) + j = (8 * i + j) mod 64" if "c < 512" for c :: nat
  proof -
    have d: "(8 * i + j) div 64 = i div 8" "(8 * i + j) mod 64 = 8 * (i mod 8) + j"
      using div_mult2_eq [of "8 * i + j" 8 8] mod_mult2_eq [of "8 * i + j" 8 8] assms(3) by simp_all
    show "(if 8 * c \<le> i then i - 8 * c else i + 2 ^ 32 - 8 * c) < 8 \<longleftrightarrow> (8 * i + j) div 64 = c"
      unfolding d(1) using that assms(2) by auto
    assume "8 * c \<le> i" "i - 8 * c < 8"
    then have "i mod 8 = i - 8 * c"
      using mod_less [of "i - 8 * c" 8] by (metis le_add_diff_inverse mod_mult_self4)
    then show "8 * (i - 8 * c) + j = (8 * i + j) mod 64" by (simp only: d(2))
  qed
  have "unat (bb + of_nat i - a) < 8 \<and> (8 * unat (bb + of_nat i - a) + j = ?e \<or> ?e = 31 \<and> 31 \<le> 8 * unat (bb + of_nat i - a) + j) \<longleftrightarrow>
      marks (unat idx) (8 * i + j)"
  proof (cases "unat (bb + of_nat i - a) < 8")
    case True
    then have "8 * ?c \<le> i" using c unfolding x by (auto split: if_splits)
    then have "8 * unat (bb + of_nat i - a) + j = (8 * i + j) mod 64"
      using True place(2) [OF c] unfolding x by simp
    then show ?thesis using True place(1) [OF c] unfolding x [symmetric] by (simp add: marks_def)
  next
    case False
    then show ?thesis using place(1) [OF c] unfolding x [symmetric] by (simp add: marks_def)
  qed
  then show ?thesis
    using bit_store64_mark [OF e assms(3), of m a b "bb + of_nat i"] by simp
qed

lemma set_bitmap_effect:
  fixes s :: "'a fs_scheme"
  assumes ready: "disk_ready d0 dev s" and ok: "block_ok (first + n div 32768)"
    and room: "unat first + unat n div 32768 < 2 ^ 32"
  shows "\<exists>s'. set_bitmap dev first n b s = Some s' \<and> disk_ready d0 dev s' \<and> io_step s s' \<and>
    (\<forall>k j. j < 8 \<longrightarrow> (bit (disk_of d0 s' k) j \<longleftrightarrow>
      (if marks (32768 * unat first + unat n) (8 * k + j) then b else bit (disk_of d0 s k) j)))"
proof -
  let ?blk = "first + n div 32768"
  let ?idx = "n mod 32768"
  let ?p = "disk_of d0 s"
  let ?bb = "block_buffer s"
  let ?a = "?bb + 8 * (?idx div 64)"
  obtain s1 where s1: "rw_sectors dev SECTORS_PER_BLOCK (?blk * SECTORS_PER_BLOCK) ?bb READ s = Some s1"
    "disk_ready d0 dev s1" "io_step s s1" "disk_of d0 s1 = ?p"
    "cmem s1 = put_bytes ?bb 4096 (\<lambda>i. ?p (4096 * unat ?blk + i)) (cmem s)"
    using read_block [OF ready ok] by blast
  let ?M = "store64 (cmem s1) ?a (mark_bit ?idx b (load64 (cmem s1) ?a))"
  let ?s2 = "s1\<lparr>cmem := ?M\<rparr>"
  have ready2: "disk_ready d0 dev ?s2" and disk2: "disk_of d0 ?s2 = ?p"
    using s1(2,4) by (simp_all add: disk_ready_def disk_of_def)
  obtain s3 where s3: "rw_sectors dev SECTORS_PER_BLOCK (?blk * SECTORS_PER_BLOCK) ?bb WRITE ?s2 = Some s3"
    "disk_ready d0 dev s3" "io_step ?s2 s3" "cmem s3 = ?M"
    "disk_of d0 s3 = put_disk (4096 * unat ?blk) 4096 (\<lambda>i. ?M (?bb + of_nat i)) ?p"
    using write_block [OF ready2 ok, of ?bb] disk2 by auto
  have "io_step s1 ?s2" using io_step_intro [where s = s1 and log = "io_log s1" and m = ?M] by simp
  then have step: "io_step s s3" using io_step_trans [OF io_step_trans [OF s1(3)] s3(3)] by blast
  have blk: "unat ?blk = unat first + unat n div 32768"
    using room by (simp add: unat_word_ariths unat_div)
  have idx: "?idx < 32768" "unat ?idx = unat n mod 32768"
    by (simp_all add: unat_mod word_mod_less_divisor)
  have target: "32768 * unat first + unat n = 32768 * unat ?blk + unat ?idx"
    using mult_div_mod_eq [of 32768 "unat n"] by (simp add: blk idx(2))
  have "bit (disk_of d0 s3 k) j \<longleftrightarrow>
      (if marks (32768 * unat first + unat n) (8 * k + j) then b else bit (?p k) j)" if "j < 8" for k j
  proof (cases "4096 * unat ?blk \<le> k \<and> k < 4096 * unat ?blk + 4096")
    case True
    then obtain i where i: "k = 4096 * unat ?blk + i" "i < 4096" by (metis le_Suc_ex nat_add_left_cancel_less)
    have "cmem s1 (?bb + of_nat i) = ?p k" using i by (simp add: s1(5) put_bytes_at)
    moreover have "8 * k + j = 32768 * unat ?blk + (8 * i + j)" using i by simp
    then have "marks (32768 * unat first + unat n) (8 * k + j) \<longleftrightarrow> marks (unat ?idx) (8 * i + j)"
      unfolding target by (simp only:) (simp add: marks_shift)
    ultimately show ?thesis
      using bit_store64_block [OF idx(1) i(2) that, of "cmem s1" ?bb b] i
      by (simp add: s3(5) put_disk_def)
  next
    case False
    have "(8 * k + j) div 32768 = k div 4096" using div_mult2_eq [of "8 * k + j" 8 4096] that by simp
    moreover have "(32768 * unat first + unat n) div 32768 = unat ?blk" unfolding target by (simp add: idx(2))
    ultimately have "\<not> marks (32768 * unat first + unat n) (8 * k + j)"
      using marks_block [of "32768 * unat first + unat n" "8 * k + j"] False by auto
    then show ?thesis using False by (auto simp: s3(5) put_disk_def)
  qed
  moreover have "set_bitmap dev first n b s = Some s3"
    using s1(1) s3(1) io_step_fs [OF s1(3)] by (simp add: set_bitmap_def Let_def)
  ultimately show ?thesis using s3(2) step by blast
qed

text \<open>
  C20. Which bits of the disk \<open>set_inode_bitmap\<close> changes, for every \<open>n\<close>. With \<open>n\<close> among the first 31
  bits of its 64-bit chunk it is exactly bit \<open>n\<close> of the bitmap that starts at block
  \<open>first_inode_bitmap\<close>. For the other \<open>n\<close> the \<^verbatim>\<open>int\<close> shift shows (\<open>marks\<close>): bit \<open>n - 32\<close> is
  changed in place of a bit of the upper half, and when \<open>n mod 32\<close> is 31, all 33 bits from bit 31 of
  the chunk to its end.
\<close>

theorem set_inode_bitmap_bit:
  assumes "disk_ready d0 dev s"
    and "block_ok (first_inode_bitmap (superblock s) + n div 32768)"
    and "unat (first_inode_bitmap (superblock s)) + unat n div 32768 < 2 ^ 32"
  defines "place \<equiv> 32768 * unat (first_inode_bitmap (superblock s)) + unat n"
  shows "\<exists>s'. set_inode_bitmap dev n b s = Some s' \<and> disk_ready d0 dev s' \<and> superblock s' = superblock s \<and>
    (\<forall>k j. j < 8 \<longrightarrow> (bit (disk_of d0 s' k) j \<longleftrightarrow>
      (if (if unat n mod 64 < 31 then 8 * k + j = place else marks place (8 * k + j)) then b
       else bit (disk_of d0 s k) j)))"
proof -
  obtain s' where s': "set_bitmap dev (first_inode_bitmap (superblock s)) n b s = Some s'"
    "disk_ready d0 dev s'" "io_step s s'"
    "\<forall>k j. j < 8 \<longrightarrow> (bit (disk_of d0 s' k) j \<longleftrightarrow> (if marks place (8 * k + j) then b else bit (disk_of d0 s k) j))"
    using set_bitmap_effect [OF assms(1-3), of b] unfolding place_def by blast
  have "place mod 64 = unat n mod 64"
    using mod_mult_self4 [of 64 "512 * unat (first_inode_bitmap (superblock s))" "unat n"]
    by (simp add: place_def mult.assoc [symmetric])
  then have "(if unat n mod 64 < 31 then 8 * k + j = place else marks place (8 * k + j)) \<longleftrightarrow> marks place (8 * k + j)" for k j
    using marks_itself [of place "8 * k + j"] by auto
  moreover have "set_inode_bitmap dev n b s = Some s'" using s'(1) by (simp add: set_inode_bitmap_def)
  ultimately show ?thesis using s'(2,4) io_step_fs(1) [OF s'(3)] by auto
qed

text \<open>Marking inode 40 sets bit 8 of the bitmap and not bit 40; marking inode 31 sets bits 31 to 63.\<close>

theorem set_inode_bitmap_bit_witness:
  "(\<exists>s'. set_inode_bitmap (example_ata example_disk_drive) 40 True example_fs = Some s' \<and>
     bit (disk_of example_disk_drive s' 4097) 0 \<and> \<not> bit (disk_of example_disk_drive s' 4101) 0) \<and>
   (\<exists>s'. set_inode_bitmap (example_ata example_disk_drive) 31 True example_fs = Some s' \<and>
     bit (disk_of example_disk_drive s' 4099) 7 \<and> bit (disk_of example_disk_drive s' 4103) 5)"
proof -
  let ?f = "first_inode_bitmap (superblock example_fs)"
  have f: "unat ?f = 1" by (simp add: example_fs_def)
  have run: "\<exists>s'. set_inode_bitmap (example_ata example_disk_drive) n True example_fs = Some s' \<and>
      (\<forall>k j. j < 8 \<longrightarrow> (bit (disk_of example_disk_drive s' k) j \<longleftrightarrow>
        (if (if unat n mod 64 < 31 then 8 * k + j = 32768 + unat n else marks (32768 + unat n) (8 * k + j)) then True
         else bit (example_disk k) j)))" if "n = 40 \<or> n = 31" for n
  proof -
    have h: "block_ok (?f + n div 32768)" "unat ?f + unat n div 32768 < 2 ^ 32"
      using that by (auto simp: example_fs_def block_ok_def)
    show ?thesis
      using set_inode_bitmap_bit [OF example_fs_ready h, of True] unfolding f example_fs_disk by auto
  qed
  obtain s' where s': "set_inode_bitmap (example_ata example_disk_drive) 40 True example_fs = Some s'"
      "\<forall>k j. j < 8 \<longrightarrow> (bit (disk_of example_disk_drive s' k) j \<longleftrightarrow> marks 32808 (8 * k + j) \<or> bit (example_disk k) j)"
    using run [of 40] by auto
  obtain t where t: "set_inode_bitmap (example_ata example_disk_drive) 31 True example_fs = Some t"
      "\<forall>k j. j < 8 \<longrightarrow> (bit (disk_of example_disk_drive t k) j \<longleftrightarrow> marks 32799 (8 * k + j) \<or> bit (example_disk k) j)"
    using run [of 31] by auto
  have "bit (disk_of example_disk_drive s' 4097) 0" "\<not> bit (disk_of example_disk_drive s' 4101) 0"
    using s'(2) [rule_format, of 0 4097] s'(2) [rule_format, of 0 4101] by (simp_all add: marks_def example_disk_def)
  moreover have "bit (disk_of example_disk_drive t 4099) 7" "bit (disk_of example_disk_drive t 4103) 5"
    using t(2) [rule_format, of 7 4099] t(2) [rule_format, of 5 4103] by (simp_all add: marks_def)
  ultimately show ?thesis using s'(1) t(1) by blast
qed

section \<open>Searching a free bit\<close>

text \<open>Bit \<open>x\<close> counted from an address in memory, and from a block of the disk.\<close>

definition mem_bit :: "memory \<Rightarrow> u32 \<Rightarrow> nat \<Rightarrow> bool" where
  "mem_bit m a x = bit (m (a + of_nat (x div 8))) (x mod 8)"

definition block_bit :: "(nat \<Rightarrow> u8) \<Rightarrow> nat \<Rightarrow> nat \<Rightarrow> bool" where
  "block_bit p b x = bit (p (4096 * b + x div 8)) (x mod 8)"

definition block_free :: "(nat \<Rightarrow> u8) \<Rightarrow> nat \<Rightarrow> nat option" where
  "block_free p b = find (\<lambda>x. \<not> block_bit p b x) [0..<32768]"

lemma bit_load32_mem: "x < 32 \<Longrightarrow> bit (load32 m a) x \<longleftrightarrow> mem_bit m a x"
  using bit_load32 [of "x div 8" "x mod 8" m a] by (simp add: mem_bit_def less_mult_imp_div_less)

lemma find_append_case: "find P (xs @ ys) = (case find P xs of None \<Rightarrow> find P ys | Some x \<Rightarrow> Some x)"
  by (induction xs) auto

lemma find_map_option: "find P (map f xs) = map_option f (find (\<lambda>x. P (f x)) xs)"
  by (induction xs) auto

lemma find_upt_shift:
  "find P [0..<k + n] = (case find P [0..<k] of None \<Rightarrow> map_option (\<lambda>x. k + x) (find (\<lambda>x. P (k + x)) [0..<n]) | Some x \<Rightarrow> Some x)"
proof -
  have "[0..<k + n] = [0..<k] @ map (\<lambda>x. k + x) [0..<n]"
    using upt_add_eq_append [of 0 k n] map_add_upt [of k n] by (simp add: add.commute)
  then show ?thesis by (simp only: find_append_case find_map_option)
qed

lemma find_upt_cong: "(\<And>x. x < n \<Longrightarrow> P x \<longleftrightarrow> Q x) \<Longrightarrow> find P [0..<n] = find Q [0..<n]"
  by (rule find_cong) simp_all

lemma clear_bit_find: "clear_bit_of (load32 m a) = find (\<lambda>x. \<not> mem_bit m a x) [0..<32]"
  unfolding clear_bit_of_def by (rule find_upt_cong) (simp add: and_exp_eq_0 bit_load32_mem)

lemma mem_bit_shift: "mem_bit m a (32 + x) = mem_bit m (a + 4) x"
proof -
  have "(32 + x) div 8 = 4 + x div 8" "(32 + x) mod 8 = x mod 8" by presburger+
  then show ?thesis by (simp add: mem_bit_def add.assoc)
qed

lemma free_word_find:
  "free_word n j a m = map_option (\<lambda>x. j * 32 + of_nat x) (find (\<lambda>x. \<not> mem_bit m a x) [0..<32 * n])"
proof (induction n arbitrary: j a)
  case (Suc n)
  have full: "find (\<lambda>x. \<not> mem_bit m a x) [0..<32] = None" if "load32 m a = 0xFFFFFFFF"
  proof -
    have "mem_bit m a x" if "x < 32" for x
      using bit_load32_mem [OF that, of m a] that by (simp only: \<open>load32 m a = 0xFFFFFFFF\<close> bit_full_word)
    then show ?thesis by (auto simp: find_None_iff)
  qed
  have "free_word (Suc n) j a m = (case find (\<lambda>x. \<not> mem_bit m a x) [0..<32] of
      Some k \<Rightarrow> Some (j * 32 + of_nat k) | None \<Rightarrow> free_word n (j + 1) (a + 4) m)"
    using full by (auto simp: clear_bit_find simp del: upt_rec_numeral)
  also have "\<dots> = map_option (\<lambda>x. j * 32 + of_nat x) (find (\<lambda>x. \<not> mem_bit m a x) [0..<32 + 32 * n])"
    unfolding find_upt_shift Suc.IH mem_bit_shift
    by (cases "find (\<lambda>x. \<not> mem_bit m a x) [0..<32]")
      (simp_all add: option.map_comp o_def algebra_simps del: upt_rec_numeral)
  finally show ?case by simp
qed simp

lemma mem_bit_block:
  assumes "\<And>i. i < 4096 \<Longrightarrow> m (a + of_nat i) = p (4096 * b + i)" and "x < 32768"
  shows "mem_bit m a x = block_bit p b x"
  using assms by (simp add: mem_bit_def block_bit_def less_mult_imp_div_less)

lemma free_block_loop_find:
  fixes s :: "'a fs_scheme"
  assumes "disk_ready d0 dev s" and "unat start + n \<le> 2 ^ 25"
  shows "\<exists>s'. free_block_loop n dev start s =
      Some (case find (\<lambda>b. block_free (disk_of d0 s) b \<noteq> None) [unat start..<unat start + n] of
              None \<Rightarrow> 0 | Some b \<Rightarrow> of_nat (the (block_free (disk_of d0 s) b)), s') \<and>
    disk_ready d0 dev s' \<and> io_step s s' \<and> disk_of d0 s' = disk_of d0 s"
  using assms
proof (induction n arbitrary: start s)
  case 0
  then show ?case using io_step_refl [of s] by simp
next
  case (Suc n)
  have ok: "block_ok start" using Suc.prems(2) by (simp add: block_ok_def)
  obtain s1 where s1: "rw_sectors dev SECTORS_PER_BLOCK (start * SECTORS_PER_BLOCK) (block_buffer s) READ s = Some s1"
    "disk_ready d0 dev s1" "io_step s s1" "disk_of d0 s1 = disk_of d0 s"
    "cmem s1 = put_bytes (block_buffer s) 4096 (\<lambda>i. disk_of d0 s (4096 * unat start + i)) (cmem s)"
    using read_block [OF Suc.prems(1) ok] by blast
  have bb: "block_buffer s1 = block_buffer s" using io_step_fs [OF s1(3)] by simp
  have "mem_bit (cmem s1) (block_buffer s) x = block_bit (disk_of d0 s) (unat start) x" if "x < 32768" for x
    using that by (intro mem_bit_block) (simp_all add: s1(5) put_bytes_at)
  moreover have "32 * 1024 = (32768 :: nat)" by simp
  ultimately have fw: "free_word 1024 0 (block_buffer s1) (cmem s1) = map_option of_nat (block_free (disk_of d0 s) (unat start))"
    unfolding free_word_find bb block_free_def
    by (simp only:) (simp del: upt_rec_numeral cong: find_upt_cong)
  have next_start: "unat (start + 1) = unat start + 1" using Suc.prems(2) by (simp add: unat_word_ariths)
  have cons: "[unat start..<unat start + Suc n] = unat start # [unat (start + 1)..<unat (start + 1) + n]"
    by (simp add: next_start upt_rec)
  show ?case
  proof (cases "block_free (disk_of d0 s) (unat start)")
    case None
    then have "free_block_loop (Suc n) dev start s = free_block_loop n dev (start + 1) s1" by (simp add: s1(1) fw)
    moreover have "unat (start + 1) + n \<le> 2 ^ 25" using Suc.prems(2) next_start by simp
    ultimately show ?thesis
      using Suc.IH [OF s1(2), of "start + 1", unfolded s1(4)] None io_step_trans [OF s1(3)] unfolding cons by auto
  next
    case (Some v)
    then show ?thesis using s1(1-4) unfolding cons by (simp add: fw)
  qed
qed

text \<open>
  C21. \<open>find_free_bit\<close> returns the number of the first clear bit of the first bitmap block that
  has one, counted from the start of that block and not of the bitmap, and 0 when every bit is
  set. The disk is only read.
\<close>

theorem find_free_bit_first:
  assumes "disk_ready d0 dev s" and "unat start + unat len \<le> 2 ^ 25"
  shows "\<exists>s'. find_free_bit dev start len s =
      Some (case find (\<lambda>b. block_free (disk_of d0 s) b \<noteq> None) [unat start..<unat start + unat len] of
              None \<Rightarrow> 0 | Some b \<Rightarrow> of_nat (the (block_free (disk_of d0 s) b)), s') \<and>
    disk_of d0 s' = disk_of d0 s"
  using free_block_loop_find [OF assms] unfolding find_free_bit_def by blast


theorem find_free_bit_first_witness:
  "\<exists>s'. find_free_bit (example_ata example_disk_drive) 10 1 example_fs = Some (0, s') \<and>
     disk_of example_disk_drive s' = example_disk"
proof -
  have b: "\<not> block_bit example_disk 10 0" by (simp add: block_bit_def example_disk_def)
  have "[0..<32768] = 0 # [Suc 0..<32768]" by (rule upt_conv_Cons) simp
  then have "block_free example_disk 10 = Some 0" using b by (simp only: block_free_def find.simps not_False_eq_True if_True)
  then show ?thesis
    using find_free_bit_first [OF example_fs_ready, of 10 1] by (simp add: example_fs_disk upt_rec)
qed

end
