(* ===== verification/FsLookup.thy ===== *)
theory FsLookup
  imports FsBits
begin

text \<open>
  Inodes on disk: an inode as a function of the disk, the sector of the inode table that holds
  it, and \<open>update_inode\<close>, which changes that inode and no other byte of the disk.
\<close>

section \<open>Structures on disk\<close>

definition at_disk :: "(nat \<Rightarrow> u8) \<Rightarrow> nat \<Rightarrow> memory" where
  "at_disk p c = (\<lambda>x. p (c + unat x))"

definition disk32 :: "(nat \<Rightarrow> u8) \<Rightarrow> nat \<Rightarrow> u32" where
  "disk32 p c = load32 (at_disk p c) 0"

definition inode_on :: "(nat \<Rightarrow> u8) \<Rightarrow> nat \<Rightarrow> inode" where
  "inode_on p c = load_inode (at_disk p c) 0"

text \<open>The place of inode \<open>n\<close>, and the condition under which the 32-bit computation reaches it.\<close>

definition inode_place :: "super_block \<Rightarrow> u32 \<Rightarrow> nat" where
  "inode_place sb n = 4096 * unat (first_inode_block sb) + 64 * unat n"

definition inode_ok :: "super_block \<Rightarrow> u32 \<Rightarrow> bool" where
  "inode_ok sb n \<longleftrightarrow> inode_place sb n < 2 ^ 32"

lemma load_inode_cong:
  assumes "\<And>k. k < 64 \<Longrightarrow> m (a + of_nat k) = m' (a' + of_nat k)"
  shows "load_inode m a = load_inode m' a'"
proof -
  have b: "m (a + of_nat k) = m' (a' + of_nat k)" if "k < 64" for k using assms that by blast
  have c: "m (a + of_nat k + of_nat d) = m' (a' + of_nat k + of_nat d)" if "k + d < 64" for k d
    using b [OF that] by (simp add: add.assoc)
  have w: "load32 m (a + of_nat k) = load32 m' (a' + of_nat k)" if "k < 61" for k
    using c [of k 0] c [of k 1] c [of k 2] c [of k 3] that by (simp add: load32_def)
  have t: "load_time m (a + of_nat k) = load_time m' (a' + of_nat k)" if "k < 55" for k
  proof -
    have "load16 m (a + of_nat k + 5) = load16 m' (a' + of_nat k + 5)"
      using c [of k 5] c [of k 6] that by (simp add: load16_def add.assoc)
    then show ?thesis
      using c [of k 0] c [of k 1] c [of k 2] c [of k 3] c [of k 4] c [of k 7] that by (simp add: load_time_def)
  qed
  have d: "map (\<lambda>k. load32 m (a + 33 + 4 * of_nat k)) [0..<7] = map (\<lambda>k. load32 m' (a' + 33 + 4 * of_nat k)) [0..<7]"
  proof (rule map_cong [OF refl])
    fix k :: nat assume "k \<in> set [0..<7]"
    then have "k < 7" by (simp only: set_upt atLeastLessThan_iff)
    then have "33 + 4 * k < 61" by linarith
    then show "load32 m (a + 33 + 4 * of_nat k) = load32 m' (a' + 33 + 4 * of_nat k)"
      using w [of "33 + 4 * k"] by (simp add: add.assoc)
  qed
  show ?thesis
    unfolding load_inode_def d
    using w [of 0] w [of 5] t [of 9] t [of 17] t [of 25] b [of 4] b [of 61] b [of 62] b [of 63] by simp
qed

lemma load_inode_on:
  assumes "\<And>k. k < 64 \<Longrightarrow> m (a + of_nat k) = p (c + k)"
  shows "load_inode m a = inode_on p c"
  unfolding inode_on_def using assms by (intro load_inode_cong) (simp add: at_disk_def)

lemma load32_on:
  assumes "\<And>k. k < 4 \<Longrightarrow> m (a + of_nat k) = p (c + k)"
  shows "load32 m a = disk32 p c"
  using assms [of 0] assms [of 1] assms [of 2] assms [of 3]
  by (simp add: disk32_def load32_def at_disk_def)

text \<open>
  The macro \<open>inode_sector\<close> and the expression in \<open>update_inode\<close> and \<open>print_dir\<close> name the same
  sector, and inode \<open>n\<close> is at index \<open>n mod 8\<close> in it.
\<close>

lemma inode_sector_place:
  assumes "inode_ok sb n"
  shows "unat (inode_sector n sb) = 8 * unat (first_inode_block sb) + unat n div 8"
    and "unat (first_inode_block sb * SECTORS_PER_BLOCK + n div INODES_PER_SECTOR) = 8 * unat (first_inode_block sb) + unat n div 8"
    and "8 * unat (first_inode_block sb) + unat n div 8 < 2 ^ 28"
    and "inode_place sb n = 512 * (8 * unat (first_inode_block sb) + unat n div 8) + 64 * (unat n mod 8)"
proof -
  have le: "4096 * unat (first_inode_block sb) + 64 * unat n < 4294967296"
    using assms by (simp add: inode_ok_def inode_place_def)
  have "unat (n * 64 + first_inode_block sb * FS_BLOCK) = 64 * unat n + 4096 * unat (first_inode_block sb)"
    using le by (simp add: FS_BLOCK_def unat_word_ariths)
  then have "unat (inode_sector n sb) = (64 * unat n + 4096 * unat (first_inode_block sb)) div 512"
    by (simp add: inode_sector_def FS_SECTOR_def unat_div)
  also have "\<dots> = 8 * unat (first_inode_block sb) + unat n div 8" by simp
  finally show "unat (inode_sector n sb) = 8 * unat (first_inode_block sb) + unat n div 8" .
  show "unat (first_inode_block sb * SECTORS_PER_BLOCK + n div INODES_PER_SECTOR) = 8 * unat (first_inode_block sb) + unat n div 8"
    using le by (simp add: SECTORS_PER_BLOCK_def INODES_PER_SECTOR_def unat_word_ariths unat_div)
  show "8 * unat (first_inode_block sb) + unat n div 8 < 2 ^ 28" using le by simp
  show "inode_place sb n = 512 * (8 * unat (first_inode_block sb) + unat n div 8) + 64 * (unat n mod 8)"
  proof -
    define q r where "q = unat n div 8" and "r = unat n mod 8"
    then have "unat n = 8 * q + r" by simp
    then show ?thesis unfolding inode_place_def q_def [symmetric] r_def [symmetric] by simp
  qed
qed


text \<open>Reading the sector of an inode brings it to its index in the sector buffer.\<close>

lemma sector_inode:
  assumes "cmem s1 = put_bytes a 512 (\<lambda>i. p (512 * sec + i)) m" and "sec = 8 * unat (first_inode_block sb) + unat n div 8"
    and "inode_ok sb n"
  shows "load_inode (cmem s1) (a + 64 * (n mod INODES_PER_SECTOR)) = inode_on p (inode_place sb n)"
proof (rule load_inode_on)
  fix k :: nat assume k: "k < 64"
  have "a + 64 * (n mod INODES_PER_SECTOR) + of_nat k = a + of_nat (64 * (unat n mod 8) + k)"
  proof -
    have "(of_nat (unat (n mod 8)) :: u32) = n mod 8" by simp
    moreover have "unat (n mod 8) = unat n mod 8" by (simp add: unat_mod)
    ultimately have "n mod 8 = (of_nat (unat n mod 8) :: u32)" by simp
    then show ?thesis by (simp add: INODES_PER_SECTOR_def)
  qed
  moreover have "64 * (unat n mod 8) + k < 512" "512 \<le> (2 :: nat) ^ 32"
  proof -
    have "unat n mod 8 < 8" by simp
    then show "64 * (unat n mod 8) + k < 512" using k by linarith
  qed simp
  ultimately have "cmem s1 (a + 64 * (n mod INODES_PER_SECTOR) + of_nat k) = p (512 * sec + (64 * (unat n mod 8) + k))"
    unfolding assms(1) by (simp only: put_bytes_at)
  then show "cmem s1 (a + 64 * (n mod INODES_PER_SECTOR) + of_nat k) = p (inode_place sb n + k)"
    unfolding inode_sector_place(4) [OF assms(3)] assms(2) by (simp add: add.assoc)
qed


section \<open>Writing an inode\<close>

lemma put_bytes_inner:
  assumes "k < 2 ^ 32" "c + n \<le> 2 ^ 32"
  shows "put_bytes (a + of_nat c) n f m (a + of_nat k) = (if c \<le> k \<and> k < c + n then f (k - c) else m (a + of_nat k))"
proof (cases "n = 0")
  case False
  have "a + of_nat k - (a + of_nat c) = of_nat k - (of_nat c :: u32)" by simp
  then have "unat (a + of_nat k - (a + of_nat c)) = (if c \<le> k then k - c else k + 2 ^ 32 - c)"
    using assms False by (simp only: unat_sub_if_size word_size) simp
  then show ?thesis using assms by (auto simp: put_bytes_def)
qed auto

lemma read_sector:
  assumes "disk_ready d0 dev s" and "unat sec < 2 ^ 28"
  shows "\<exists>s'. rw_sectors dev 1 sec a READ s = Some s' \<and> disk_ready d0 dev s' \<and> io_step s s' \<and> disk_of d0 s' = disk_of d0 s \<and>
    cmem s' = put_bytes a 512 (\<lambda>i. disk_of d0 s (512 * unat sec + i)) (cmem s)"
  using ata.read_effect [OF assms, of 1 a] by simp

lemma write_sector:
  assumes "disk_ready d0 dev s" and "unat sec < 2 ^ 28"
  shows "\<exists>s'. rw_sectors dev 1 sec a WRITE s = Some s' \<and> disk_ready d0 dev s' \<and> io_step s s' \<and> cmem s' = cmem s \<and>
    disk_of d0 s' = put_disk (512 * unat sec) 512 (\<lambda>i. cmem s (a + of_nat i)) (disk_of d0 s)"
  using ata.write_effect [OF assms, of 1 a] by simp

text \<open>Changing the memory of a state, for the facts about the drive.\<close>

lemma ready_cmem [simp]: "disk_ready d0 dev (s\<lparr>cmem := m\<rparr>) \<longleftrightarrow> disk_ready d0 dev s"
  by (simp add: disk_ready_def)

lemma disk_cmem [simp]: "disk_of d0 (s\<lparr>cmem := m\<rparr>) = disk_of d0 s"
  by (simp add: disk_of_def)

lemma io_step_cmem: "io_step s (s\<lparr>cmem := m\<rparr>)"
  using io_step_intro [where s = s and log = "io_log s" and m = m] by simp

text \<open>A structure of 64 bytes put into the sector buffer at index \<open>r\<close> and written back.\<close>

lemma put_disk_inner:
  assumes "length bs = 64" "r < 8"
  shows "put_disk (512 * sec) 512
      (\<lambda>k. put_list (a + 64 * of_nat r) bs (put_bytes a 512 (\<lambda>i. p (512 * sec + i)) m) (a + of_nat k)) p =
    put_disk (512 * sec + 64 * r) 64 (\<lambda>k. bs ! k) p"
proof -
  have inner: "put_list (a + 64 * of_nat r) bs (put_bytes a 512 (\<lambda>i. p (512 * sec + i)) m) (a + of_nat k) =
      (if 64 * r \<le> k \<and> k < 64 * r + 64 then bs ! (k - 64 * r) else p (512 * sec + k))" if "k < 512" for k
    using put_bytes_inner [of k "64 * r" 64 a] that assms by (simp add: put_list_def put_bytes_at)
  show ?thesis
    using assms(2) by (subst put_disk_cong [OF inner]) (auto simp: put_disk_def fun_eq_iff)
qed

lemma update_inode_disk:
  fixes s :: "'a fs_scheme"
  assumes ready: "disk_ready d0 dev s" and ok: "inode_ok (superblock s) (i_number i)" and len: "length (direct_pointers i) = 7"
  shows "\<exists>s'. update_inode dev i s = Some s' \<and> disk_ready d0 dev s' \<and> io_step s s' \<and>
    disk_of d0 s' = put_disk (inode_place (superblock s) (i_number i)) 64 (\<lambda>k. inode_bytes i ! k) (disk_of d0 s) \<and>
    (\<forall>x. 512 \<le> unat (x - sector_buffer s) \<longrightarrow> cmem s' x = cmem s x)"
proof -
  let ?n = "i_number i"
  let ?sec = "first_inode_block (superblock s) * SECTORS_PER_BLOCK + ?n div INODES_PER_SECTOR"
  let ?a = "sector_buffer s"
  let ?p = "disk_of d0 s"
  note place = inode_sector_place [OF ok]
  have sec: "unat ?sec < 2 ^ 28" using place by simp
  obtain s1 where s1: "rw_sectors dev 1 ?sec ?a READ s = Some s1" "disk_ready d0 dev s1" "io_step s s1" "disk_of d0 s1 = ?p"
    "cmem s1 = put_bytes ?a 512 (\<lambda>i. ?p (512 * unat ?sec + i)) (cmem s)"
    using read_sector [OF ready sec] by blast
  let ?M = "store_inode i (?a + 64 * (?n mod INODES_PER_SECTOR)) (cmem s1)"
  obtain s2 where s2: "rw_sectors dev 1 ?sec ?a WRITE (s1\<lparr>cmem := ?M\<rparr>) = Some s2" "disk_ready d0 dev s2"
    "io_step (s1\<lparr>cmem := ?M\<rparr>) s2" "cmem s2 = ?M"
    "disk_of d0 s2 = put_disk (512 * unat ?sec) 512 (\<lambda>i. ?M (?a + of_nat i)) ?p"
    using write_sector [of d0 dev "s1\<lparr>cmem := ?M\<rparr>", OF _ sec, of ?a] s1(2,4) by auto
  have slot: "?n mod INODES_PER_SECTOR = of_nat (unat ?n mod 8)"
  proof -
    have "(of_nat (unat (?n mod 8)) :: u32) = ?n mod 8" by simp
    then show ?thesis by (simp add: unat_mod INODES_PER_SECTOR_def)
  qed
  from slot have "disk_of d0 s2 = put_disk (inode_place (superblock s) ?n) 64 (\<lambda>k. inode_bytes i ! k) ?p"
    using put_disk_inner [of "inode_bytes i" "unat ?n mod 8" "unat ?sec" ?a] len place(2,4) s2(5) s1(5)
    by (simp add: store_inode_def)
  moreover have "update_inode dev i s = Some s2"
    using s1(1) s2(1) io_step_fs [OF s1(3)] by (simp add: update_inode_def Let_def)
  moreover have "io_step s s2" using io_step_trans [OF io_step_trans [OF s1(3) io_step_cmem] s2(3)] .
  moreover have "cmem s2 x = cmem s x" if x: "512 \<le> unat (x - ?a)" for x
  proof -
    define r where "r = unat ?n mod 8"
    have r: "64 * of_nat r \<le> x - ?a" "unat (64 * of_nat r :: u32) = 64 * r" "r < 8"
      using x by (simp_all add: r_def word_le_nat_alt unat_word_ariths)
    have "x - (?a + 64 * of_nat r) = x - ?a - 64 * of_nat r" by simp
    then have "unat (x - (?a + 64 * of_nat r)) = unat (x - ?a) - 64 * r"
      using r(1) by (simp only: unat_sub r(2))
    then have "64 \<le> unat (x - (?a + 64 * of_nat r))" using x r(3) by simp
    then show ?thesis
      using x unfolding s2(4) slot r_def [symmetric] store_inode_def
      by (subst put_list_outside) (simp_all add: s1(5) put_bytes_def len)
  qed
  ultimately show ?thesis using s2(2) by blast
qed

lemma inode_on_put:
  assumes "length (direct_pointers i) = 7"
  shows "inode_on (put_disk c 64 (\<lambda>k. inode_bytes i ! k) p) c = i"
proof -
  have "inode_on (put_disk c 64 (\<lambda>k. inode_bytes i ! k) p) c = load_inode (store_inode i 0 (\<lambda>_. 0)) 0"
    using assms by (intro load_inode_on [symmetric]) (simp add: store_inode_def put_disk_def put_list_def put_bytes_def)
  then show ?thesis using load_store_inode [OF assms] by simp
qed

text \<open>
  C22. \<open>update_inode\<close> returns; afterwards the table on disk holds the inode at its number, and
  every other byte of the disk, so every other inode too, is as before.
\<close>

theorem update_inode_roundtrip:
  assumes "disk_ready d0 dev s" and "inode_ok (superblock s) (i_number i)" and "length (direct_pointers i) = 7"
  shows "\<exists>s'. update_inode dev i s = Some s' \<and> disk_ready d0 dev s' \<and>
    inode_on (disk_of d0 s') (inode_place (superblock s) (i_number i)) = i \<and>
    (\<forall>n. n \<noteq> i_number i \<longrightarrow>
       inode_on (disk_of d0 s') (inode_place (superblock s) n) = inode_on (disk_of d0 s) (inode_place (superblock s) n)) \<and>
    (\<forall>k. k < inode_place (superblock s) (i_number i) \<or> inode_place (superblock s) (i_number i) + 64 \<le> k \<longrightarrow>
       disk_of d0 s' k = disk_of d0 s k)"
proof -
  obtain s' where s': "update_inode dev i s = Some s'" "disk_ready d0 dev s'"
    "disk_of d0 s' = put_disk (inode_place (superblock s) (i_number i)) 64 (\<lambda>k. inode_bytes i ! k) (disk_of d0 s)"
    using update_inode_disk [OF assms] by blast
  have "inode_on (disk_of d0 s') (inode_place (superblock s) n) = inode_on (disk_of d0 s) (inode_place (superblock s) n)"
    if "n \<noteq> i_number i" for n
  proof -
    have "unat n \<noteq> unat (i_number i)" using that by (simp add: word_unat_eq_iff)
    then have "64 * unat n + 64 \<le> 64 * unat (i_number i) \<or> 64 * unat (i_number i) + 64 \<le> 64 * unat n" by linarith
    then show ?thesis
      unfolding inode_on_def by (intro load_inode_cong) (auto simp: at_disk_def s'(3) put_disk_def inode_place_def)
  qed
  then show ?thesis using s' inode_on_put [OF assms(3)] by (auto simp: put_disk_def)
qed


theorem update_inode_roundtrip_witness:
  "\<exists>s'. update_inode (example_ata example_disk_drive) (example_root\<lparr>i_number := 9\<rparr>) example_fs = Some s' \<and>
     inode_on (disk_of example_disk_drive s') 8768 = example_root\<lparr>i_number := 9\<rparr>"
proof -
  have "inode_ok (superblock example_fs) (i_number (example_root\<lparr>i_number := 9\<rparr>))"
    "length (direct_pointers (example_root\<lparr>i_number := 9\<rparr>)) = 7"
    "inode_place (superblock example_fs) (i_number (example_root\<lparr>i_number := 9\<rparr>)) = 8768"
    by (simp_all add: inode_ok_def inode_place_def example_fs_def example_root_def)
  with update_inode_roundtrip [OF example_fs_ready, of "example_root\<lparr>i_number := 9\<rparr>"] show ?thesis by auto
qed

end
