(* ===== verification/FsPath.thy ===== *)
theory FsPath
  imports FsLookup
begin

text \<open>
  Names and paths: \<open>get_inode_in_dir\<close> finds the first slot of a directory with the name, and
  \<open>get_inode\<close> walks a path from the root or the current directory. \<open>lookup\<close> and \<open>resolve\<close> are
  the specification, functions of the disk.
\<close>

section \<open>Directories on disk\<close>

definition name_on :: "(nat \<Rightarrow> u8) \<Rightarrow> nat \<Rightarrow> u8 list" where
  "name_on p c = takeWhile (\<lambda>b. b \<noteq> 0) (map (\<lambda>k. p (c + k)) [0..<60])"

definition dir_slots :: "inode \<Rightarrow> nat list" where
  "dir_slots dir =
     concat (map (\<lambda>b. map (\<lambda>j. 4096 * unat b + 64 * j) [0..<64])
       (take (unat (bytes_to_blocks (inode_size dir))) (direct_pointers dir)))"

definition slot_has :: "(nat \<Rightarrow> u8) \<Rightarrow> u8 list \<Rightarrow> nat \<Rightarrow> bool" where
  "slot_has p name c \<longleftrightarrow> disk32 p c \<noteq> 0 \<and> name_on p (c + 4) = name"

definition lookup :: "(nat \<Rightarrow> u8) \<Rightarrow> super_block \<Rightarrow> inode \<Rightarrow> u8 list \<Rightarrow> inode" where
  "lookup p sb dir name =
     (case find (slot_has p name) (dir_slots dir) of
        None \<Rightarrow> zero_inode
      | Some c \<Rightarrow> inode_on p (inode_place sb (disk32 p c)))"

text \<open>
  A slot in use has a terminated name and an inode number within reach; a directory has its
  blocks among its direct pointers, and only such slots.
\<close>

definition slot_ok :: "(nat \<Rightarrow> u8) \<Rightarrow> super_block \<Rightarrow> nat \<Rightarrow> bool" where
  "slot_ok p sb c \<longleftrightarrow>
     disk32 p c \<noteq> 0 \<longrightarrow> inode_ok sb (disk32 p c) \<and> 0 \<in> (\<lambda>k. p (c + 4 + k)) ` {..<60}"

definition dir_ok :: "(nat \<Rightarrow> u8) \<Rightarrow> super_block \<Rightarrow> inode \<Rightarrow> bool" where
  "dir_ok p sb dir \<longleftrightarrow>
     length (direct_pointers dir) = 7 \<and> unat (bytes_to_blocks (inode_size dir)) \<le> 7 \<and>
     list_all block_ok (take (unat (bytes_to_blocks (inode_size dir))) (direct_pointers dir)) \<and>
     list_all (slot_ok p sb) (dir_slots dir)"

section \<open>Buffers\<close>

text \<open>An address outside the block buffer's first 4096 and the sector buffer's first 512 bytes.\<close>

definition outside :: "'a fs_scheme \<Rightarrow> u32 \<Rightarrow> bool" where
  "outside s x \<longleftrightarrow> 4096 \<le> unat (x - block_buffer s) \<and> 512 \<le> unat (x - sector_buffer s)"

text \<open>A step that only reads the disk: it changes the buffers and the port log.\<close>

definition fs_read_step :: "drive \<Rightarrow> device \<Rightarrow> 'a fs_scheme \<Rightarrow> 'a fs_scheme \<Rightarrow> bool" where
  "fs_read_step d0 dev s s' \<longleftrightarrow>
     disk_ready d0 dev s' \<and> io_step s s' \<and> disk_of d0 s' = disk_of d0 s \<and> (\<forall>x. outside s x \<longrightarrow> cmem s' x = cmem s x)"

definition buffers_apart :: "'a fs_scheme \<Rightarrow> bool" where
  "buffers_apart s \<longleftrightarrow> (\<forall>k < 4096. 512 \<le> unat (block_buffer s + of_nat k - sector_buffer s))"

lemma outside_step: "io_step s s' \<Longrightarrow> outside s' x \<longleftrightarrow> outside (s :: 'a fs_scheme) x"
  by (simp add: outside_def io_step_fs)

lemma fs_read_trans: "fs_read_step d0 dev s t \<Longrightarrow> fs_read_step d0 dev t u \<Longrightarrow> fs_read_step d0 dev s (u :: 'a fs_scheme)"
  unfolding fs_read_step_def using io_step_trans outside_step by metis

lemma read_block_step:
  assumes "disk_ready d0 dev s" and "block_ok b"
  shows "\<exists>s'. rw_sectors dev SECTORS_PER_BLOCK (b * SECTORS_PER_BLOCK) (block_buffer s) READ s = Some s' \<and> fs_read_step d0 dev s s' \<and>
    (\<forall>i < 4096. cmem s' (block_buffer s + of_nat i) = disk_of d0 s (4096 * unat b + i))"
proof -
  obtain s' where s': "rw_sectors dev SECTORS_PER_BLOCK (b * SECTORS_PER_BLOCK) (block_buffer s) READ s = Some s'"
    "disk_ready d0 dev s'" "io_step s s'" "disk_of d0 s' = disk_of d0 s"
    "cmem s' = put_bytes (block_buffer s) 4096 (\<lambda>i. disk_of d0 s (4096 * unat b + i)) (cmem s)"
    using read_block [OF assms, of "block_buffer s"] by blast
  then show ?thesis by (auto simp: fs_read_step_def outside_def put_bytes_def)
qed

lemma read_sector_step:
  assumes "disk_ready d0 dev s" and "unat sec < 2 ^ 28"
  shows "\<exists>s'. rw_sectors dev 1 sec (sector_buffer s) READ s = Some s' \<and> fs_read_step d0 dev s s' \<and>
    cmem s' = put_bytes (sector_buffer s) 512 (\<lambda>i. disk_of d0 s (512 * unat sec + i)) (cmem s)"
proof -
  obtain s' where s': "rw_sectors dev 1 sec (sector_buffer s) READ s = Some s'"
    "disk_ready d0 dev s'" "io_step s s'" "disk_of d0 s' = disk_of d0 s"
    "cmem s' = put_bytes (sector_buffer s) 512 (\<lambda>i. disk_of d0 s (512 * unat sec + i)) (cmem s)"
    using read_sector [OF assms, of "sector_buffer s"] by blast
  then show ?thesis by (auto simp: fs_read_step_def outside_def put_bytes_def)
qed

section \<open>Searching a directory\<close>

text \<open>A name that is terminated on disk is a C string in the buffer.\<close>

lemma cstr_at_takeWhile:
  assumes "j < n" "m (a + of_nat j) = 0"
  shows "cstr_at m a (takeWhile (\<lambda>b. b \<noteq> 0) (map (\<lambda>k. m (a + of_nat k)) [0..<n]))"
  using assms
proof (induction n arbitrary: a j)
  case (Suc n)
  have split: "map (\<lambda>k. m (a + of_nat k)) [0..<Suc n] = m a # map (\<lambda>k. m (a + 1 + of_nat k)) [0..<n]"
    by (simp add: upt_conv_Cons map_Suc_upt [symmetric] add.assoc comp_def del: upt_Suc)
  show ?case
  proof (cases "m a = 0")
    case False
    then obtain i where i: "j = Suc i" using Suc.prems by (cases j) auto
    then have "cstr_at m (a + 1) (takeWhile (\<lambda>b. b \<noteq> 0) (map (\<lambda>k. m (a + 1 + of_nat k)) [0..<n]))"
      using Suc.IH [of i "a + 1"] Suc.prems by (simp add: add.assoc)
    then show ?thesis unfolding split using False by simp
  next
    case True
    then show ?thesis unfolding split by simp
  qed
qed simp

lemma name_in_buffer:
  assumes "\<And>k. k < 60 \<Longrightarrow> m (a + of_nat k) = p (c + k)" and "0 \<in> (\<lambda>k. p (c + k)) ` {..<60}"
  shows "cstr_at m a (name_on p c)"
proof -
  obtain j where j: "j < 60" "p (c + j) = 0" using assms(2) by auto
  have eq: "map (\<lambda>k. m (a + of_nat k)) [0..<60] = map (\<lambda>k. p (c + k)) [0..<60]"
    using assms(1) by (intro map_cong [OF refl]) (simp only: set_upt atLeastLessThan_iff)
  have "m (a + of_nat j) = 0" using assms(1) [OF j(1)] j(2) by simp
  from cstr_at_takeWhile [where m = m and a = a, OF j(1) this] show ?thesis unfolding eq name_on_def .
qed


lemma slot_in_buffer:
  assumes buf: "\<And>i. i < 4096 \<Longrightarrow> m (a + of_nat i) = p (4096 * b + i)" and "j < 64" and "slot_ok p sb (4096 * b + 64 * j)"
  shows "load32 m (a + 64 * of_nat j) = disk32 p (4096 * b + 64 * j)"
    and "disk32 p (4096 * b + 64 * j) \<noteq> 0 \<Longrightarrow> cstr_at m (a + 64 * of_nat j + 4) (name_on p (4096 * b + 64 * j + 4))"
proof -
  have byte: "m (a + 64 * of_nat j + of_nat k) = p (4096 * b + 64 * j + k)" if "k < 64" for k
    using buf [of "64 * j + k"] assms(2) that by (simp add: add.assoc)
  then show "load32 m (a + 64 * of_nat j) = disk32 p (4096 * b + 64 * j)"
    by (intro load32_on) simp
  show "cstr_at m (a + 64 * of_nat j + 4) (name_on p (4096 * b + 64 * j + 4))" if "disk32 p (4096 * b + 64 * j) \<noteq> 0"
  proof (rule name_in_buffer)
    show "m (a + 64 * of_nat j + 4 + of_nat k) = p (4096 * b + 64 * j + 4 + k)" if "k < 60" for k
      using byte [of "4 + k"] that by (simp add: add.assoc)
    show "0 \<in> (\<lambda>k. p (4096 * b + 64 * j + 4 + k)) ` {..<60}"
      using assms(3) that by (simp add: slot_ok_def)
  qed
qed

lemma dir_scan_find:
  fixes s :: "'a fs_scheme"
  assumes ready: "disk_ready d0 dev s" and apart: "buffers_apart s" and nm: "cstr_at (cmem s) file name"
    and buf: "\<And>i. i < 4096 \<Longrightarrow> cmem s (block_buffer s + of_nat i) = disk_of d0 s (4096 * b + i)"
    and slots: "\<And>j. j < 64 \<Longrightarrow> slot_ok (disk_of d0 s) (superblock s) (4096 * b + 64 * j)" and "k \<le> 64"
  shows "\<exists>s'. dir_scan k dev (block_buffer s + 64 * of_nat (64 - k)) file s =
      Some (map_option (\<lambda>c. inode_on (disk_of d0 s) (inode_place (superblock s) (disk32 (disk_of d0 s) c)))
              (find (slot_has (disk_of d0 s) name) (map (\<lambda>j. 4096 * b + 64 * j) [64 - k..<64])), s') \<and>
    fs_read_step d0 dev s s'"
  using \<open>k \<le> 64\<close>
proof (induction k)
  case 0
  then show ?case using ready io_step_refl [of s] by (simp add: fs_read_step_def)
next
  case (Suc k)
  let ?p = "disk_of d0 s"
  define j where "j = 64 - Suc k"
  then have j: "j < 64" "64 - k = Suc j" using Suc.prems by simp_all
  then have upt: "[j..<64] = j # [64 - k..<64]" by (metis upt_conv_Cons)
  let ?e = "block_buffer s + 64 * of_nat j"
  let ?c = "4096 * b + 64 * j"
  let ?n = "disk32 ?p ?c"
  have next_e: "?e + 64 = block_buffer s + 64 * of_nat (64 - k)"
    unfolding j(2) by (simp add: algebra_simps)
  note at = slot_in_buffer [OF buf j(1) slots [OF j(1)]]
  have "\<exists>s'. dir_scan (Suc k) dev ?e file s =
      Some (map_option (\<lambda>c. inode_on ?p (inode_place (superblock s) (disk32 ?p c)))
              (find (slot_has ?p name) (map (\<lambda>j. 4096 * b + 64 * j) [j..<64])), s') \<and>
    fs_read_step d0 dev s s'"
  proof (cases "?n = 0 \<or> name_on ?p (?c + 4) \<noteq> name")
    case True
    have "dir_scan (Suc k) dev ?e file s = dir_scan k dev (?e + 64) file s"
    proof (cases "?n = 0")
      case False
      then obtain r where "strcmp (cmem s) (?e + 4) file = Some r" "r \<noteq> 0"
        using strcmp_cstr [OF at(2) nm] True by auto
      then show ?thesis using at(1) False by simp
    qed (use at(1) in simp)
    moreover have "\<not> slot_has ?p name ?c" using True by (auto simp: slot_has_def)
    ultimately show ?thesis using Suc.IH Suc.prems unfolding next_e upt by simp
  next
    case False
    then have "strcmp (cmem s) (?e + 4) file = Some 0"
      using strcmp_cstr [OF at(2) nm] by auto
    have ok: "inode_ok (superblock s) ?n" using slots [OF j(1)] False by (simp add: slot_ok_def)
    note place = inode_sector_place [OF ok]
    have "unat (inode_sector ?n (superblock s)) < 2 ^ 28" using place(1,3) by simp
    from read_sector_step [OF ready this]
    obtain s1 where s1: "rw_sectors dev 1 (inode_sector ?n (superblock s)) (sector_buffer s) READ s = Some s1"
      "fs_read_step d0 dev s s1"
      "cmem s1 = put_bytes (sector_buffer s) 512 (\<lambda>i. ?p (512 * unat (inode_sector ?n (superblock s)) + i)) (cmem s)"
      by blast
    have keep: "cmem s1 (block_buffer s + of_nat i) = cmem s (block_buffer s + of_nat i)" if "i < 4096" for i
      using apart that unfolding buffers_apart_def s1(3) put_bytes_def by (auto simp: not_less [symmetric])
    have "load32 (cmem s1) ?e = ?n"
      using slot_in_buffer(1) [OF _ j(1) slots [OF j(1)], of "cmem s1" "block_buffer s"] keep buf by simp
    moreover have "load_inode (cmem s1) (sector_buffer s + 64 * (?n mod INODES_PER_SECTOR)) = inode_on ?p (inode_place (superblock s) ?n)"
      using sector_inode [OF s1(3) place(1) ok] .
    moreover have "sector_buffer s1 = sector_buffer s" using s1(2) io_step_fs by (auto simp: fs_read_step_def)
    moreover have "slot_has ?p name ?c" using False by (simp add: slot_has_def)
    ultimately show ?thesis
      using \<open>strcmp (cmem s) (?e + 4) file = Some 0\<close> False s1(1,2) at(1) unfolding upt by simp
  qed
  then show ?case unfolding j_def .
qed


definition block_slots :: "u32 \<Rightarrow> nat list" where
  "block_slots b = map (\<lambda>j. 4096 * unat b + 64 * j) [0..<64]"

lemma dir_slots_blocks:
  "dir_slots dir = concat (map block_slots (take (unat (bytes_to_blocks (inode_size dir))) (direct_pointers dir)))"
  by (simp only: dir_slots_def block_slots_def [abs_def])

lemma block_slots_ok: "list_all Q (block_slots b) \<longleftrightarrow> (\<forall>j < 64. Q (4096 * unat b + 64 * j))"
  by (auto simp: block_slots_def list_all_iff simp del: upt_rec_numeral)

lemma cstr_at_step:
  assumes "fs_read_step d0 dev s s'" and "cstr_at (cmem s) a name" and "\<And>i. i \<le> length name \<Longrightarrow> outside s (a + of_nat i)"
  shows "cstr_at (cmem s') a name"
proof -
  have "cstr_at (cmem s') a name \<longleftrightarrow> cstr_at (cmem s) a name"
    using assms(1,3) by (intro cstr_at_cong) (simp add: fs_read_step_def)
  then show ?thesis using assms(2) by simp
qed

lemma buffers_apart_step: "fs_read_step d0 dev s s' \<Longrightarrow> buffers_apart s' \<longleftrightarrow> buffers_apart (s :: 'a fs_scheme)"
  by (auto simp: fs_read_step_def buffers_apart_def io_step_fs)

lemma dir_blocks_find:
  fixes s :: "'a fs_scheme"
  assumes "disk_ready d0 dev s" and "buffers_apart s" and "cstr_at (cmem s) file name"
    and "\<And>i. i \<le> length name \<Longrightarrow> outside s (file + of_nat i)"
    and "i + n \<le> 7" and "length (direct_pointers dir) = 7"
    and "list_all block_ok (take n (drop i (direct_pointers dir)))"
    and "list_all (slot_ok (disk_of d0 s) (superblock s)) (concat (map block_slots (take n (drop i (direct_pointers dir)))))"
  shows "\<exists>s'. dir_blocks n dev i dir file s =
      Some (case find (slot_has (disk_of d0 s) name) (concat (map block_slots (take n (drop i (direct_pointers dir))))) of
              None \<Rightarrow> zero_inode
            | Some c \<Rightarrow> inode_on (disk_of d0 s) (inode_place (superblock s) (disk32 (disk_of d0 s) c)), s') \<and>
    fs_read_step d0 dev s s'"
  using assms
proof (induction n arbitrary: i s)
  case 0
  then show ?case using io_step_refl [of s] by (simp add: fs_read_step_def)
next
  case (Suc n)
  let ?p = "disk_of d0 s"
  define b where "b = direct_pointers dir ! i"
  have i: "i < 7" "take (Suc n) (drop i (direct_pointers dir)) = b # take n (drop (i + 1) (direct_pointers dir))"
    using Suc.prems(5,6) by (simp_all add: Cons_nth_drop_Suc [symmetric] b_def)
  note ok = Suc.prems(7,8) [unfolded i(2)]
  have bok: "block_ok b" using ok(1) by simp
  obtain s1 where s1: "rw_sectors dev SECTORS_PER_BLOCK (b * SECTORS_PER_BLOCK) (block_buffer s) READ s = Some s1"
    "fs_read_step d0 dev s s1" "\<forall>i < 4096. cmem s1 (block_buffer s + of_nat i) = ?p (4096 * unat b + i)"
    using read_block_step [OF Suc.prems(1) bok] by blast
  have same: "disk_ready d0 dev s1" "disk_of d0 s1 = ?p" "superblock s1 = superblock s" "block_buffer s1 = block_buffer s"
    using s1(2) io_step_fs [of s s1] by (simp_all add: fs_read_step_def)
  have buf: "cmem s1 (block_buffer s1 + of_nat i) = disk_of d0 s1 (4096 * unat b + i)" if "i < 4096" for i
    using s1(3) that same by simp
  have slots: "slot_ok (disk_of d0 s1) (superblock s1) (4096 * unat b + 64 * j)" if "j < 64" for j
    using ok(2) that by (simp add: block_slots_ok same)
  have apart1: "buffers_apart s1" using buffers_apart_step [OF s1(2)] Suc.prems(2) by simp
  have cstr1: "cstr_at (cmem s1) file name" using cstr_at_step [OF s1(2) Suc.prems(3,4)] .
  obtain s2 where s2: "dir_scan 64 dev (block_buffer s1) file s1 =
      Some (map_option (\<lambda>c. inode_on ?p (inode_place (superblock s) (disk32 ?p c))) (find (slot_has ?p name) (block_slots b)), s2)"
    "fs_read_step d0 dev s1 s2"
    using dir_scan_find [OF same(1) apart1 cstr1 buf slots, of 64]
    by (auto simp: same block_slots_def simp del: upt_rec_numeral)
  have step: "fs_read_step d0 dev s s2" using fs_read_trans [OF s1(2) s2(2)] .
  have unf: "dir_blocks (Suc n) dev i dir file s =
      (case find (slot_has ?p name) (block_slots b) of
         None \<Rightarrow> dir_blocks n dev (i + 1) dir file s2
       | Some c \<Rightarrow> Some (inode_on ?p (inode_place (superblock s) (disk32 ?p c)), s2))"
    using i(1) s1(1) s2(1) by (simp add: b_def DIR_ENTRIES_PER_BLOCK_def split: option.split)
  show ?case
  proof (cases "find (slot_has ?p name) (block_slots b)")
    case (Some c)
    then show ?thesis using step unf unfolding i(2) by (simp add: find_append_case)
  next
    case None
    have same2: "disk_ready d0 dev s2" "disk_of d0 s2 = ?p" "superblock s2 = superblock s"
      using step io_step_fs [of s s2] by (simp_all add: fs_read_step_def)
    have "outside s2 (file + of_nat i)" if "i \<le> length name" for i
      using Suc.prems(4) [OF that] step outside_step by (auto simp: fs_read_step_def)
    moreover have "cstr_at (cmem s2) file name" using cstr_at_step [OF step Suc.prems(3,4)] .
    moreover have "buffers_apart s2" using buffers_apart_step [OF step] Suc.prems(2) by simp
    ultimately obtain s3 where s3: "dir_blocks n dev (i + 1) dir file s2 =
        Some (case find (slot_has ?p name) (concat (map block_slots (take n (drop (i + 1) (direct_pointers dir))))) of
                None \<Rightarrow> zero_inode
              | Some c \<Rightarrow> inode_on ?p (inode_place (superblock s) (disk32 ?p c)), s3)"
      "fs_read_step d0 dev s2 s3"
      using Suc.IH [of s2 "i + 1", OF same2(1), unfolded same2(2,3)] Suc.prems(5,6) ok by auto
    show ?thesis
      using s3 None unf fs_read_trans [OF step s3(2)] unfolding i(2) by (simp add: find_append_case)
  qed
qed

lemma get_inode_in_dir_lookup:
  fixes s :: "'a fs_scheme"
  assumes "disk_ready d0 dev s" and "buffers_apart s" and "cstr_at (cmem s) file name"
    and "\<And>i. i \<le> length name \<Longrightarrow> outside s (file + of_nat i)" and "dir_ok (disk_of d0 s) (superblock s) dir"
  shows "\<exists>s'. get_inode_in_dir dev dir file s = Some (lookup (disk_of d0 s) (superblock s) dir name, s') \<and>
    fs_read_step d0 dev s s'"
  using dir_blocks_find [OF assms(1-4), of 0 "unat (bytes_to_blocks (inode_size dir))" dir] assms(5)
  by (simp add: get_inode_in_dir_def lookup_def dir_ok_def dir_slots_blocks)

text \<open>
  \<open>get_inode_in_dir\<close> returns the inode of the first slot of the directory that is in use
  and has the name, or the empty inode when there is none; the disk is only read, and memory
  changes in the two buffers only.
\<close>

lemma get_inode_in_dir_finds:
  assumes "disk_ready d0 dev s" and "buffers_apart s" and "cstr_at (cmem s) file name"
    and "\<And>i. i \<le> length name \<Longrightarrow> outside s (file + of_nat i)" and "dir_ok (disk_of d0 s) (superblock s) dir"
  shows "\<exists>s'. get_inode_in_dir dev dir file s =
      Some (case find (slot_has (disk_of d0 s) name) (dir_slots dir) of
              None \<Rightarrow> zero_inode
            | Some c \<Rightarrow> inode_on (disk_of d0 s) (inode_place (superblock s) (disk32 (disk_of d0 s) c)), s') \<and>
    disk_of d0 s' = disk_of d0 s \<and> (\<forall>x. outside s x \<longrightarrow> cmem s' x = cmem s x)"
  using get_inode_in_dir_lookup [OF assms] by (auto simp: fs_read_step_def lookup_def)


section \<open>Resolving a path\<close>

text \<open>The components of a path; \<open>acc\<close> is the part of the first one that has been read.\<close>

fun split_path :: "u8 list \<Rightarrow> u8 list \<Rightarrow> u8 list list" where
  "split_path acc [] = [acc]"
| "split_path acc (c # cs) = (if c = 47 then acc # split_path [] cs else split_path (acc @ [c]) cs)"

text \<open>Components of more than 59 bytes do not fit into the buffer and are not found.\<close>

fun resolve :: "(nat \<Rightarrow> u8) \<Rightarrow> super_block \<Rightarrow> inode \<Rightarrow> u8 list list \<Rightarrow> inode" where
  "resolve p sb cur [] = cur"
| "resolve p sb cur (x # xs) =
     (if 59 < length x then zero_inode
      else let v = lookup p sb cur x in if i_number v = 0 then zero_inode else resolve p sb v xs)"

text \<open>Every inode that the walk goes through is a well-formed directory.\<close>

fun path_ok :: "(nat \<Rightarrow> u8) \<Rightarrow> super_block \<Rightarrow> inode \<Rightarrow> u8 list list \<Rightarrow> bool" where
  "path_ok p sb cur [] = True"
| "path_ok p sb cur (x # xs) \<longleftrightarrow>
     (length x \<le> 59 \<longrightarrow> dir_ok p sb cur \<and> (i_number (lookup p sb cur x) \<noteq> 0 \<longrightarrow> path_ok p sb (lookup p sb cur x) xs))"

text \<open>The code also writes the 60 bytes of the local array.\<close>

definition outside_path :: "'a fs_scheme \<Rightarrow> u32 \<Rightarrow> bool" where
  "outside_path s x \<longleftrightarrow> outside s x \<and> 60 \<le> unat (x - str_buffer s)"

definition path_step :: "drive \<Rightarrow> device \<Rightarrow> 'a fs_scheme \<Rightarrow> 'a fs_scheme \<Rightarrow> bool" where
  "path_step d0 dev s s' \<longleftrightarrow>
     disk_ready d0 dev s' \<and> io_step s s' \<and> disk_of d0 s' = disk_of d0 s \<and> (\<forall>x. outside_path s x \<longrightarrow> cmem s' x = cmem s x)"

definition path_buffers :: "'a fs_scheme \<Rightarrow> bool" where
  "path_buffers s \<longleftrightarrow> buffers_apart s \<and> (\<forall>k < 60. outside s (str_buffer s + of_nat k))"

lemma outside_path_step: "io_step s s' \<Longrightarrow> outside_path s' x \<longleftrightarrow> outside_path (s :: 'a fs_scheme) x"
  by (simp add: outside_path_def outside_def io_step_fs)

lemma path_buffers_step: "io_step s s' \<Longrightarrow> path_buffers s' \<longleftrightarrow> path_buffers (s :: 'a fs_scheme)"
  by (simp add: path_buffers_def buffers_apart_def outside_def io_step_fs)

lemma path_step_trans: "path_step d0 dev s t \<Longrightarrow> path_step d0 dev t u \<Longrightarrow> path_step d0 dev s (u :: 'a fs_scheme)"
  unfolding path_step_def using io_step_trans outside_path_step by metis

lemma path_step_read: "fs_read_step d0 dev s s' \<Longrightarrow> path_step d0 dev s s'"
  by (simp add: path_step_def fs_read_step_def outside_path_def)

lemma path_step_buffer:
  assumes "disk_ready d0 dev s" and "\<And>x. 60 \<le> unat (x - str_buffer s) \<Longrightarrow> m x = cmem s x"
  shows "path_step d0 dev s (s\<lparr>cmem := m\<rparr>)"
  using assms io_step_cmem by (simp add: path_step_def outside_path_def)

lemma cstr_at_path:
  assumes "path_step d0 dev s s'" and "cstr_at (cmem s) a cs" and "\<And>i. i \<le> length cs \<Longrightarrow> outside_path s (a + of_nat i)"
  shows "cstr_at (cmem s') a cs"
proof -
  have "cstr_at (cmem s') a cs \<longleftrightarrow> cstr_at (cmem s) a cs"
    using assms(1,3) by (intro cstr_at_cong) (simp add: path_step_def)
  then show ?thesis using assms(2) by simp
qed

lemma cstr_at_list:
  "(\<And>i. i < length xs \<Longrightarrow> m (a + of_nat i) = xs ! i \<and> xs ! i \<noteq> 0) \<Longrightarrow> m (a + of_nat (length xs)) = 0 \<Longrightarrow> cstr_at m a xs"
proof (induction xs arbitrary: a)
  case (Cons c cs)
  have "m (a + 1 + of_nat i) = cs ! i \<and> cs ! i \<noteq> 0" if "i < length cs" for i
    using Cons.prems(1) [of "Suc i"] that by (simp add: add.assoc)
  moreover have "m (a + 1 + of_nat (length cs)) = 0" using Cons.prems(2) by (simp add: add.assoc)
  ultimately have "cstr_at m (a + 1) cs" by (rule Cons.IH)
  then show ?case using Cons.prems(1) [of 0] by simp
qed simp

lemma split_path_Cons: "\<exists>x xs. split_path acc cs = x # xs \<and> length acc \<le> length x"
proof (induction cs arbitrary: acc)
  case (Cons c cs)
  then show ?case using Cons.IH [of "acc @ [c]"] by (cases "c = 47") fastforce+
qed simp

text \<open>The name collected in the local array is looked up.\<close>

lemma lookup_buffer_finds:
  fixes s :: "'a fs_scheme"
  assumes ready: "disk_ready d0 dev s" and buffers: "path_buffers s" and len: "length acc \<le> 59"
    and acc: "\<And>i. i < length acc \<Longrightarrow> cmem s (str_buffer s + of_nat i) = acc ! i \<and> acc ! i \<noteq> 0"
    and dir: "dir_ok (disk_of d0 s) (superblock s) cur"
  shows "\<exists>s'. lookup_buffer dev cur (of_nat (length acc)) s = Some (lookup (disk_of d0 s) (superblock s) cur acc, s') \<and>
    path_step d0 dev s s'"
proof -
  let ?a = "str_buffer s"
  let ?s = "s\<lparr>cmem := (cmem s)(?a + of_nat (length acc) := 0)\<rparr>"
  have "cstr_at (cmem ?s) ?a acc"
  proof (rule cstr_at_list)
    fix i assume i: "i < length acc"
    then have "(of_nat i :: u32) \<noteq> of_nat (length acc)" using len by (simp add: word_unat_eq_iff)
    then show "cmem ?s (?a + of_nat i) = acc ! i \<and> acc ! i \<noteq> 0" using acc [OF i] by simp
  qed simp
  moreover have "outside ?s (?a + of_nat i)" if "i \<le> length acc" for i
    using buffers that len by (simp add: path_buffers_def outside_def)
  moreover have "buffers_apart ?s" using buffers by (simp add: path_buffers_def buffers_apart_def)
  ultimately obtain s' where s': "get_inode_in_dir dev cur ?a ?s = Some (lookup (disk_of d0 s) (superblock s) cur acc, s')"
    "fs_read_step d0 dev ?s s'"
    using get_inode_in_dir_lookup [of d0 dev ?s ?a acc cur] ready dir by auto
  have "path_step d0 dev s ?s"
  proof (rule path_step_buffer [OF ready])
    fix x assume "60 \<le> unat (x - str_buffer s)"
    then have "x \<noteq> ?a + of_nat (length acc)" using len by auto
    then show "((cmem s)(?a + of_nat (length acc) := 0)) x = cmem s x" by simp
  qed
  then show ?thesis using s' path_step_trans [OF _ path_step_read [OF s'(2)]] by (auto simp: lookup_buffer_def)
qed


lemma path_step_keeps:
  fixes s s' :: "'a fs_scheme"
  assumes step: "path_step d0 dev s s'" and "path_buffers s" and "cstr_at (cmem s) p cs"
    and out: "\<And>i. i \<le> length cs \<Longrightarrow> outside_path s (p + of_nat i)"
  shows "disk_ready d0 dev s'" "disk_of d0 s' = disk_of d0 s" "superblock s' = superblock s" "str_buffer s' = str_buffer s"
    "path_buffers s'" "cstr_at (cmem s') p cs" "i \<le> length cs \<Longrightarrow> outside_path s' (p + of_nat i)"
proof -
  show "disk_ready d0 dev s'" "disk_of d0 s' = disk_of d0 s" using step by (simp_all add: path_step_def)
  have io: "io_step s s'" using step by (simp add: path_step_def)
  show "superblock s' = superblock s" "str_buffer s' = str_buffer s" using io_step_fs [OF io] by simp_all
  show "path_buffers s'" using path_buffers_step [OF io] assms(2) by simp
  show "cstr_at (cmem s') p cs" using cstr_at_path [OF step assms(3) out] .
  show "i \<le> length cs \<Longrightarrow> outside_path s' (p + of_nat i)" using out outside_path_step [OF io] by simp
qed

lemma store_path_char:
  fixes s :: "'a fs_scheme"
  assumes "disk_ready d0 dev s" and "length acc < 59" and "c \<noteq> 0"
    and acc: "\<And>i. i < length acc \<Longrightarrow> cmem s (str_buffer s + of_nat i) = acc ! i \<and> acc ! i \<noteq> 0"
  defines "s1 \<equiv> s\<lparr>cmem := (cmem s)(str_buffer s + of_nat (length acc) := c)\<rparr>"
  shows "path_step d0 dev s s1"
    and "i < length (acc @ [c]) \<Longrightarrow> cmem s1 (str_buffer s + of_nat i) = (acc @ [c]) ! i \<and> (acc @ [c]) ! i \<noteq> 0"
proof -
  show "path_step d0 dev s s1"
    unfolding s1_def
  proof (rule path_step_buffer [OF assms(1)])
    fix x assume "60 \<le> unat (x - str_buffer s)"
    then have "x \<noteq> str_buffer s + of_nat (length acc)" using assms(2) by auto
    then show "((cmem s)(str_buffer s + of_nat (length acc) := c)) x = cmem s x" by simp
  qed
  assume i: "i < length (acc @ [c])"
  show "cmem s1 (str_buffer s + of_nat i) = (acc @ [c]) ! i \<and> (acc @ [c]) ! i \<noteq> 0"
  proof (cases "i = length acc")
    case False
    then have "i < length acc" using i by simp
    moreover from this have "(of_nat i :: u32) \<noteq> of_nat (length acc)" using assms(2) by (simp add: word_unat_eq_iff)
    ultimately show ?thesis using acc by (simp add: nth_append s1_def)
  qed (use assms(3) in \<open>simp add: s1_def\<close>)
qed

lemma path_loop_resolves:
  fixes s :: "'a fs_scheme"
  assumes "disk_ready d0 dev s" and "path_buffers s" and "length acc \<le> 59"
    and "\<And>i. i < length acc \<Longrightarrow> cmem s (str_buffer s + of_nat i) = acc ! i \<and> acc ! i \<noteq> 0"
    and "cstr_at (cmem s) index cs" and "\<And>i. i \<le> length cs \<Longrightarrow> outside_path s (index + of_nat i)"
    and "path_ok (disk_of d0 s) (superblock s) cur (split_path acc cs)"
  shows "\<exists>s'. path_loop dev index (of_nat (length acc)) cur s =
      Some (resolve (disk_of d0 s) (superblock s) cur (split_path acc cs), s') \<and> path_step d0 dev s s'"
  using assms
proof (induction cs arbitrary: acc cur index s)
  case Nil
  then have "dir_ok (disk_of d0 s) (superblock s) cur" by simp
  from lookup_buffer_finds [OF Nil.prems(1-4) this] obtain s' where
    "lookup_buffer dev cur (of_nat (length acc)) s = Some (lookup (disk_of d0 s) (superblock s) cur acc, s')"
    "path_step d0 dev s s'" by blast
  then show ?case
    using Nil.prems(3,5) by (simp add: path_loop.simps [of dev index] Let_def)
next
  case (Cons c cs)
  let ?p = "disk_of d0 s" and ?sb = "superblock s"
  have c: "cmem s index = c" "c \<noteq> 0" "cstr_at (cmem s) (index + 1) cs" using Cons.prems(5) by auto
  have out: "outside_path s (index + 1 + of_nat i)" if "i \<le> length cs" for i
    using Cons.prems(6) [of "Suc i"] that by (simp add: add.assoc)
  note keeps = path_step_keeps [OF _ Cons.prems(2) c(3) out]
  consider "c = 47" | "c \<noteq> 47" "length acc < 59" | "c \<noteq> 47" "length acc = 59" using Cons.prems(3) by linarith
  then show ?case
  proof cases
    case 1
    then have dir: "dir_ok ?p ?sb cur" using Cons.prems(3,7) by simp
    let ?v = "lookup ?p ?sb cur acc"
    obtain s1 where s1: "lookup_buffer dev cur (of_nat (length acc)) s = Some (?v, s1)" "path_step d0 dev s s1"
      using lookup_buffer_finds [OF Cons.prems(1-4) dir] by blast
    let ?s2 = "s1\<lparr>cmem := memset (cmem s1) (str_buffer s1) 0 60\<rparr>"
    have unf: "path_loop dev index (of_nat (length acc)) cur s =
        (if i_number ?v = 0 then Some (zero_inode, s1) else path_loop dev (index + 1) 0 ?v ?s2)"
      using c 1 s1(1) by (simp add: path_loop.simps [of dev index])
    have "path_step d0 dev s1 ?s2"
      by (rule path_step_buffer [OF keeps(1) [OF s1(2)]]) (simp_all add: memset_effect word_less_nat_alt)
    then have step: "path_step d0 dev s ?s2" using path_step_trans [OF s1(2)] by blast
    note k = keeps [OF step]
    show ?thesis
    proof (cases "i_number ?v = 0")
      case False
      then have "path_ok ?p ?sb ?v (split_path [] cs)" using Cons.prems(3,7) 1 by simp
      then obtain s3 where "path_loop dev (index + 1) 0 ?v ?s2 = Some (resolve ?p ?sb ?v (split_path [] cs), s3)" "path_step d0 dev ?s2 s3"
        using Cons.IH [of ?s2 "[]" "index + 1" ?v] k by auto
      then show ?thesis
        using unf False 1 Cons.prems(3) path_step_trans [OF step] by (auto simp: Let_def)
    qed (use unf s1(2) 1 Cons.prems(3) in \<open>simp add: Let_def\<close>)
  next
    case 2
    then have lt: "(of_nat (length acc) :: u32) < 59" by (simp add: word_less_nat_alt)
    define s1 where "s1 = s\<lparr>cmem := (cmem s)(str_buffer s + of_nat (length acc) := c)\<rparr>"
    note stored = store_path_char [OF Cons.prems(1) 2(2) c(2) Cons.prems(4), folded s1_def]
    note k = keeps [OF stored(1)]
    have unf: "path_loop dev index (of_nat (length acc)) cur s = path_loop dev (index + 1) (of_nat (length (acc @ [c]))) cur s1"
      using c 2(1) lt by (simp add: path_loop.simps [of dev index] add.commute s1_def)
    have "path_ok ?p ?sb cur (split_path (acc @ [c]) cs)" using Cons.prems(7) 2(1) by simp
    then obtain s2 where "path_loop dev (index + 1) (of_nat (length (acc @ [c]))) cur s1 =
        Some (resolve ?p ?sb cur (split_path (acc @ [c]) cs), s2)" "path_step d0 dev s1 s2"
      using Cons.IH [of s1 "acc @ [c]" "index + 1" cur] k stored(2) 2(2) by auto
    then show ?thesis unfolding unf using 2(1) path_step_trans [OF stored(1)] by auto
  next
    case 3
    then have "path_loop dev index (of_nat (length acc)) cur s = Some (zero_inode, s)"
      using c by (simp add: path_loop.simps [of dev index])
    moreover obtain x xs where "split_path (acc @ [c]) cs = x # xs" "length (acc @ [c]) \<le> length x"
      using split_path_Cons by blast
    moreover have "path_step d0 dev s s" using Cons.prems(1) io_step_refl [of s] by (simp add: path_step_def)
    ultimately show ?thesis using 3 by simp
  qed
qed


text \<open>Where the walk starts, and what is left of the path: a leading slash means the root.\<close>

fun path_start :: "inode \<Rightarrow> inode \<Rightarrow> u8 list \<Rightarrow> inode \<times> u8 list" where
  "path_start root cur [] = (cur, [])"
| "path_start root cur (c # cs) = (if c = 47 then (root, cs) else (cur, c # cs))"

definition resolve_path :: "(nat \<Rightarrow> u8) \<Rightarrow> super_block \<Rightarrow> inode \<Rightarrow> inode \<Rightarrow> u8 list \<Rightarrow> inode" where
  "resolve_path p sb root cur str =
     (let (start, rest) = path_start root cur str in resolve p sb start (split_path [] rest))"

definition resolvable :: "(nat \<Rightarrow> u8) \<Rightarrow> super_block \<Rightarrow> inode \<Rightarrow> inode \<Rightarrow> u8 list \<Rightarrow> bool" where
  "resolvable p sb root cur str =
     (let (start, rest) = path_start root cur str in path_ok p sb start (split_path [] rest))"

lemma get_inode_path:
  fixes s :: "'a fs_scheme"
  assumes "disk_ready d0 dev s" and "path_buffers s" and "cstr_at (cmem s) path str"
    and "\<And>i. i \<le> length str \<Longrightarrow> outside_path s (path + of_nat i)"
    and "resolvable (disk_of d0 s) (superblock s) (root_inode s) (current_dir_inode s) str"
  shows "\<exists>s'. get_inode dev path s =
      Some (resolve_path (disk_of d0 s) (superblock s) (root_inode s) (current_dir_inode s) str, s') \<and> path_step d0 dev s s'"
proof -
  define s1 where "s1 = s\<lparr>cmem := memset (cmem s) (str_buffer s) 0 60\<rparr>"
  have step: "path_step d0 dev s s1"
    unfolding s1_def by (rule path_step_buffer [OF assms(1)]) (simp add: memset_effect word_less_nat_alt)
  then have same: "disk_ready d0 dev s1" "disk_of d0 s1 = disk_of d0 s" "io_step s s1" by (simp_all add: path_step_def)
  have fields: "superblock s1 = superblock s" "root_inode s1 = root_inode s" "current_dir_inode s1 = current_dir_inode s"
    using io_step_fs [OF same(3)] by simp_all
  obtain start rest where start: "path_start (root_inode s) (current_dir_inode s) str = (start, rest)" by fastforce
  obtain a where a: "get_inode dev path s = path_loop dev a 0 start s1"
    "cstr_at (cmem s) a rest" "\<And>i. i \<le> length rest \<Longrightarrow> outside_path s (a + of_nat i)"
  proof (cases str)
    case Nil
    have "outside_path s path" using assms(4) [of 0] by simp
    then have "cmem s1 path \<noteq> 47" using assms(3) step Nil by (simp add: path_step_def)
    then have "get_inode dev path s = path_loop dev path 0 start s1"
      using start Nil fields by (simp add: get_inode_def s1_def [symmetric] Let_def)
    then show ?thesis using that [of path] assms(3,4) start Nil by auto
  next
    case (Cons c cs)
    have "outside_path s path" using assms(4) [of 0] by simp
    then have "cmem s1 path = c" using assms(3) step Cons by (simp add: path_step_def)
    then have g: "get_inode dev path s = path_loop dev (if c = 47 then path + 1 else path) 0 start s1"
      using start Cons fields by (auto simp: get_inode_def s1_def [symmetric] Let_def split: if_splits)
    show ?thesis
    proof (rule that [OF g])
      show "cstr_at (cmem s) (if c = 47 then path + 1 else path) rest" using assms(3) start Cons by (auto split: if_splits)
      show "outside_path s ((if c = 47 then path + 1 else path) + of_nat i)" if "i \<le> length rest" for i
        using assms(4) [of i] assms(4) [of "Suc i"] that start Cons by (auto simp: add.assoc split: if_splits)
    qed
  qed
  have "cstr_at (cmem s1) a rest" using cstr_at_path [OF step a(2,3)] .
  moreover have "outside_path s1 (a + of_nat i)" if "i \<le> length rest" for i
    using a(3) [OF that] outside_path_step [OF same(3)] by simp
  moreover have "path_ok (disk_of d0 s) (superblock s) start (split_path [] rest)"
    using assms(5) start by (simp add: resolvable_def)
  moreover have "path_buffers s1" using path_buffers_step [OF same(3)] assms(2) by simp
  ultimately obtain s' where "path_loop dev a 0 start s1 =
      Some (resolve (disk_of d0 s) (superblock s) start (split_path [] rest), s')" "path_step d0 dev s1 s'"
    using path_loop_resolves [of d0 dev s1 "[]" a rest start, unfolded same(2) fields(1), OF same(1)] by auto
  then show ?thesis
    using a(1) start path_step_trans [OF step] by (auto simp: resolve_path_def)
qed

text \<open>
  C23. \<open>get_inode\<close> resolves a path: component by component, from the root when the path starts
  with a slash and from the current directory otherwise, each component looked up in the
  directory found so far, with the empty inode for a component that is missing or too long.
  It always returns, and the disk is only read.
\<close>

theorem get_inode_resolves:
  assumes "disk_ready d0 dev s" and "path_buffers s" and "cstr_at (cmem s) path str"
    and "\<And>i. i \<le> length str \<Longrightarrow> outside_path s (path + of_nat i)"
    and "resolvable (disk_of d0 s) (superblock s) (root_inode s) (current_dir_inode s) str"
  shows "\<exists>s'. get_inode dev path s =
      Some (resolve_path (disk_of d0 s) (superblock s) (root_inode s) (current_dir_inode s) str, s') \<and>
    disk_of d0 s' = disk_of d0 s \<and> superblock s' = superblock s \<and> (\<forall>x. outside_path s x \<longrightarrow> cmem s' x = cmem s x)"
  using get_inode_path [OF assms] io_step_fs(1) by (fastforce simp: path_step_def)

section \<open>The lookups on the small disk\<close>

lemma example_slots:
  "dir_slots example_root = 40960 # map (\<lambda>j. 40960 + 64 * j) [1..<64]"
proof -
  have "[0..<64] = (0 :: nat) # [1..<64]" by (simp add: upt_rec)
  then show ?thesis
    by (simp add: dir_slots_def example_root_def bytes_to_blocks_def fs_constants del: upt_rec_numeral)
qed

lemma example_slot_numbers:
  "disk32 example_disk 40960 = 2" "1 \<le> j \<Longrightarrow> disk32 example_disk (40960 + 64 * j) = 0"
  by (simp_all add: disk32_def load32_def at_disk_def example_disk_def) presburger

lemma find_none_map:
  assumes "\<And>j. 1 \<le> j \<Longrightarrow> \<not> P (f j)"
  shows "find P (map f [1..<n]) = None"
  using assms by (auto simp: find_None_iff)

lemma example_dir_ok: "dir_ok example_disk (superblock example_fs) example_root"
proof -
  have "slot_ok example_disk (superblock example_fs) 40960"
    using example_slot_numbers(1)
    by (auto simp: slot_ok_def inode_ok_def inode_place_def example_fs_def example_disk_def image_iff intro!: exI [of _ 1])
  moreover have "list_all (slot_ok example_disk (superblock example_fs)) (map (\<lambda>j. 40960 + 64 * j) [1..<64])"
    using example_slot_numbers(2) by (auto simp: list_all_iff slot_ok_def simp del: upt_rec_numeral)
  ultimately show ?thesis
    unfolding dir_ok_def example_slots
    by (simp add: example_root_def bytes_to_blocks_def fs_constants block_ok_def)
qed

lemma example_name: "name_on example_disk 40964 = [97]"
proof -
  have "[0..<60] = 0 # 1 # [2..<60]" by (simp add: upt_rec)
  then show ?thesis by (simp add: name_on_def example_disk_def del: upt_rec_numeral)
qed

lemma example_find: "find (slot_has example_disk [97]) (dir_slots example_root) = Some 40960"
  using example_slot_numbers(1) example_name by (simp add: example_slots slot_has_def)

lemma example_inode: "i_number (inode_on example_disk 8320) = 2" "inode_size (inode_on example_disk 8320) = 5"
  "direct_pointers (inode_on example_disk 8320) = [20, 0, 0, 0, 0, 0, 0]"
  by (simp_all add: inode_on_def load_inode_def load32_def at_disk_def example_disk_def upt_rec)

lemma example_path_buffers: "path_buffers example_fs"
proof -
  have "512 \<le> unat (block_buffer example_fs + of_nat k - sector_buffer example_fs)" if "k < 4096" for k
  proof -
    have e: "block_buffer example_fs + of_nat k - sector_buffer example_fs = 0xFFFF0000 + of_nat k"
      by (simp add: example_fs_def)
    have u: "unat (0xFFFF0000 + (of_nat k :: u32)) = 0xFFFF0000 + k" using that by (simp add: unat_add_no_wrap)
    show ?thesis unfolding e u by simp
  qed
  moreover have "outside example_fs (str_buffer example_fs + of_nat k)" if "k < 60" for k
  proof -
    have e: "str_buffer example_fs + of_nat k - block_buffer example_fs = 0x20000 + of_nat k"
      "str_buffer example_fs + of_nat k - sector_buffer example_fs = 0x10000 + of_nat k" by (simp_all add: example_fs_def)
    have u: "unat (0x20000 + (of_nat k :: u32)) = 0x20000 + k" "unat (0x10000 + (of_nat k :: u32)) = 0x10000 + k"
      using that by (simp_all add: unat_add_no_wrap)
    show ?thesis unfolding outside_def e u by simp
  qed
  ultimately show ?thesis by (simp add: path_buffers_def buffers_apart_def)
qed

lemma example_outside: "outside_path example_fs 0x1000" "outside_path example_fs 0x1001" "outside_path example_fs 0x1002"
  by (simp_all add: outside_path_def outside_def example_fs_def)

lemma get_inode_in_dir_finds_witness:
  "\<exists>v s'. get_inode_in_dir (example_ata example_disk_drive) example_root 0x1001 example_fs = Some (v, s') \<and> i_number v = 2"
proof -
  have name: "cstr_at (cmem example_fs) 0x1001 [97]" by (simp add: example_fs_def)
  have out: "outside example_fs (0x1001 + of_nat i)" if "i \<le> length [97 :: u8]" for i
    using that example_outside by (cases i) (auto simp: outside_path_def)
  have apart: "buffers_apart example_fs" using example_path_buffers by (simp add: path_buffers_def)
  have place: "inode_place (superblock example_fs) 2 = 8320" by (simp add: inode_place_def example_fs_def)
  show ?thesis
    using get_inode_in_dir_finds [OF example_fs_ready apart name out, of example_root] example_dir_ok
    by (auto simp: example_fs_disk example_find example_slot_numbers place example_inode)
qed

theorem get_inode_resolves_witness:
  "\<exists>v s'. get_inode (example_ata example_disk_drive) 0x1000 example_fs = Some (v, s') \<and> i_number v = 2"
proof -
  have path: "cstr_at (cmem example_fs) 0x1000 [47, 97]" by (simp add: example_fs_def)
  have out: "outside_path example_fs (0x1000 + of_nat i)" if "i \<le> length [47, 97 :: u8]" for i
  proof -
    have "i = 0 \<or> i = 1 \<or> i = 2" using that by auto
    then show ?thesis using example_outside by auto
  qed
  have place: "inode_place (superblock example_fs) 2 = 8320" by (simp add: inode_place_def example_fs_def)
  have root: "root_inode example_fs = example_root" by (simp add: example_fs_def)
  have look: "lookup example_disk (superblock example_fs) example_root [97] = inode_on example_disk 8320"
    by (simp add: lookup_def example_find example_slot_numbers place)
  have res: "resolvable (disk_of example_disk_drive example_fs) (superblock example_fs) (root_inode example_fs)
      (current_dir_inode example_fs) [47, 97]"
    using example_dir_ok by (simp add: resolvable_def root example_fs_disk)
  show ?thesis
    using get_inode_resolves [OF example_fs_ready example_path_buffers path out res]
    by (auto simp: resolve_path_def root example_fs_disk look example_inode Let_def)
qed

end
