(* ===== verification/FsFiles.thy ===== *)
theory FsFiles
  imports FsLookup
begin

text \<open>
  Whole files: \<open>load_file\<close> and \<open>save_file\<close> copy the direct blocks of an inode between the disk
  and memory. The lemmas describe the loop in both directions, for any start value of the
  uninitialised \<open>offset\<close>; the property composes a save and a load.
\<close>

section \<open>The transfer loop\<close>

text \<open>Direct pointer \<open>i\<close> of the inode at \<open>node\<close>, and its blocks.\<close>

definition pointer_at :: "memory \<Rightarrow> u32 \<Rightarrow> nat \<Rightarrow> u32" where
  "pointer_at m node i = load32 m (node + 33 + 4 * of_nat i)"

definition file_blocks :: "memory \<Rightarrow> u32 \<Rightarrow> nat" where
  "file_blocks m node = unat (bytes_to_blocks (load32 m (node + 5)))"

text \<open>The bytes of an inode keep clear of \<open>n\<close> bytes at \<open>a\<close>.\<close>

definition node_clear :: "u32 \<Rightarrow> u32 \<Rightarrow> nat \<Rightarrow> bool" where
  "node_clear node a n \<longleftrightarrow> (\<forall>t < 64. n \<le> unat (node + of_nat t - a))"

lemma pointer_put:
  assumes "node_clear node a n" and "i < 7"
  shows "pointer_at (put_bytes a n f m) node i = pointer_at m node i"
  unfolding pointer_at_def
proof (rule load32_cong)
  fix k :: u32 assume k: "k < 4"
  have "node + 33 + 4 * of_nat i + k = node + of_nat (33 + 4 * i + unat k)" by (simp add: add.assoc)
  moreover have "33 + 4 * i + unat k < 64" using assms(2) k by (simp add: word_less_nat_alt)
  ultimately show "put_bytes a n f m (node + 33 + 4 * of_nat i + k) = m (node + 33 + 4 * of_nat i + k)"
    using assms(1) unfolding node_clear_def put_bytes_def by (metis not_less)
qed

lemma size_put:
  assumes "node_clear node a n"
  shows "load32 (put_bytes a n f m) (node + 5) = load32 m (node + 5)"
proof (rule load32_cong)
  fix k :: u32 assume k: "k < 4"
  have "node + 5 + k = node + of_nat (5 + unat k)" by (simp add: add.assoc)
  moreover have "5 + unat k < 64" using k by (simp add: word_less_nat_alt)
  ultimately show "put_bytes a n f m (node + 5 + k) = m (node + 5 + k)"
    using assms unfolding node_clear_def put_bytes_def by (metis not_less)
qed

lemma node_clear_next:
  assumes "node_clear node a (4096 + n)" and "4096 + n \<le> 2 ^ 32"
  shows "node_clear node (a + 4096) n" "node_clear node a 4096"
proof -
  have "n \<le> unat (node + of_nat t - (a + 4096)) \<and> 4096 \<le> unat (node + of_nat t - a)" if "t < 64" for t
  proof -
    have le: "4096 + n \<le> unat (node + of_nat t - a)" using assms(1) that by (simp add: node_clear_def)
    have "node + of_nat t - (a + 4096) = (node + of_nat t - a) - 4096" by simp
    then have "unat (node + of_nat t - (a + 4096)) = unat (node + of_nat t - a) - 4096"
      using le by (simp only: unat_sub_if_size) simp
    then show ?thesis using le by simp
  qed
  then show "node_clear node (a + 4096) n" "node_clear node a 4096" by (simp_all add: node_clear_def)
qed

lemma file_loop_read:
  fixes s :: "'a fs_scheme"
  assumes "disk_ready d0 dev s" and "i + k \<le> 7" and "node_clear node (address + offset) (4096 * k)"
    and "\<And>j. i \<le> j \<Longrightarrow> j < i + k \<Longrightarrow> block_ok (pointer_at (cmem s) node j)"
  shows "\<exists>s'. file_loop k dev node (of_nat i) address offset READ s = Some s' \<and> disk_ready d0 dev s' \<and> io_step s s' \<and>
    disk_of d0 s' = disk_of d0 s \<and>
    cmem s' = put_bytes (address + offset) (4096 * k)
      (\<lambda>x. disk_of d0 s (4096 * unat (pointer_at (cmem s) node (i + x div 4096)) + x mod 4096)) (cmem s)"
  using assms
proof (induction k arbitrary: i offset s)
  case 0
  then show ?case using io_step_refl [of s] by simp
next
  case (Suc k)
  let ?P = "pointer_at (cmem s) node"
  let ?p = "disk_of d0 s"
  have ok: "block_ok (?P i)" using Suc.prems(4) [of i] by simp
  obtain s1 where s1: "rw_sectors dev SECTORS_PER_BLOCK (?P i * SECTORS_PER_BLOCK) (address + offset) READ s = Some s1"
    "disk_ready d0 dev s1" "io_step s s1" "disk_of d0 s1 = ?p"
    "cmem s1 = put_bytes (address + offset) 4096 (\<lambda>x. ?p (4096 * unat (?P i) + x)) (cmem s)"
    using read_block [OF Suc.prems(1) ok] by blast
  have clear: "node_clear node (address + offset + 4096) (4096 * k)" "node_clear node (address + offset) 4096"
    using node_clear_next [of node "address + offset" "4096 * k"] Suc.prems(2,3) by simp_all
  have P: "pointer_at (cmem s1) node j = ?P j" if "j < 7" for j
    unfolding s1(5) by (rule pointer_put [OF clear(2) that])
  have "block_ok (pointer_at (cmem s1) node j)" if "i + 1 \<le> j" "j < i + 1 + k" for j
    using Suc.prems(2) Suc.prems(4) [of j] that P [of j] by simp
  then obtain s2 where s2: "file_loop k dev node (of_nat (i + 1)) address (offset + 4096) READ s1 = Some s2"
    "disk_ready d0 dev s2" "io_step s1 s2" "disk_of d0 s2 = ?p"
    "cmem s2 = put_bytes (address + offset + 4096) (4096 * k)
      (\<lambda>x. ?p (4096 * unat (pointer_at (cmem s1) node (i + 1 + x div 4096)) + x mod 4096)) (cmem s1)"
    using Suc.IH [of s1 "i + 1" "offset + 4096", unfolded s1(4), OF s1(2)] Suc.prems(2) clear(1)
    by (auto simp: add.assoc)
  have ap: "put_bytes (address + offset + 4096) (4096 * k) g (put_bytes (address + offset) 4096 f m) =
      put_bytes (address + offset) (4096 + 4096 * k) (\<lambda>x. if x < 4096 then f x else g (x - 4096)) m" for g f m
    using put_bytes_append [of 4096 "4096 * k" "address + offset"] Suc.prems(2) by simp
  have "cmem s2 = put_bytes (address + offset) (4096 + 4096 * k)
      (\<lambda>x. if x < 4096 then ?p (4096 * unat (?P i) + x)
           else ?p (4096 * unat (pointer_at (cmem s1) node (i + 1 + (x - 4096) div 4096)) + (x - 4096) mod 4096)) (cmem s)"
    unfolding s2(5) s1(5) by (rule ap)
  also have "\<dots> = put_bytes (address + offset) (4096 * Suc k) (\<lambda>x. ?p (4096 * unat (?P (i + x div 4096)) + x mod 4096)) (cmem s)"
  proof -
    have eqx: "(if x < 4096 then ?p (4096 * unat (?P i) + x)
           else ?p (4096 * unat (pointer_at (cmem s1) node (i + 1 + (x - 4096) div 4096)) + (x - 4096) mod 4096)) =
        ?p (4096 * unat (?P (i + x div 4096)) + x mod 4096)" if x: "x < 4096 + 4096 * k" for x
    proof (cases "x < 4096")
      case False
      then obtain y where y: "x = y + 4096" by (metis add.commute le_Suc_ex not_less)
      have "y div 4096 < k" using x y by (simp add: less_mult_imp_div_less)
      then have "i + 1 + y div 4096 < 7" using Suc.prems(2) by simp
      moreover have "(y + 4096) div 4096 = y div 4096 + 1" by (rule div_add_self2) simp
      ultimately show ?thesis using P [of "i + 1 + y div 4096"] by (simp add: y)
    qed simp
    show ?thesis unfolding mult_Suc_right by (rule put_bytes_cong) (rule eqx)
  qed
  finally have mem: "cmem s2 = put_bytes (address + offset) (4096 * Suc k)
      (\<lambda>x. ?p (4096 * unat (?P (i + x div 4096)) + x mod 4096)) (cmem s)" .
  have "file_loop (Suc k) dev node (of_nat i) address offset READ s = Some s2"
    using s1(1) s2(1) by (simp add: pointer_at_def add.commute)
  then show ?case using s2(2,4) io_step_trans [OF s1(3) s2(3)] mem by blast
qed


lemma file_loop_write:
  fixes s :: "'a fs_scheme"
  assumes "disk_ready d0 dev s"
    and "\<And>j. i \<le> j \<Longrightarrow> j < i + k \<Longrightarrow> block_ok (pointer_at (cmem s) node j)"
    and "inj_on (pointer_at (cmem s) node) {i..<i + k}"
  shows "\<exists>s'. file_loop k dev node (of_nat i) address offset WRITE s = Some s' \<and> disk_ready d0 dev s' \<and> io_step s s' \<and>
    cmem s' = cmem s \<and>
    (\<forall>j < k. \<forall>x < 4096. disk_of d0 s' (4096 * unat (pointer_at (cmem s) node (i + j)) + x) =
       cmem s (address + offset + of_nat (4096 * j + x))) \<and>
    (\<forall>c. (\<forall>j < k. c div 4096 \<noteq> unat (pointer_at (cmem s) node (i + j))) \<longrightarrow> disk_of d0 s' c = disk_of d0 s c)"
  using assms
proof (induction k arbitrary: i offset s)
  case 0
  then show ?case using io_step_refl [of s] by simp
next
  case (Suc k)
  let ?P = "pointer_at (cmem s) node"
  let ?p = "disk_of d0 s"
  have ok: "block_ok (?P i)" using Suc.prems(2) [of i] by simp
  obtain s1 where s1: "rw_sectors dev SECTORS_PER_BLOCK (?P i * SECTORS_PER_BLOCK) (address + offset) WRITE s = Some s1"
    "disk_ready d0 dev s1" "io_step s s1" "cmem s1 = cmem s"
    "disk_of d0 s1 = put_disk (4096 * unat (?P i)) 4096 (\<lambda>x. cmem s (address + offset + of_nat x)) ?p"
    using write_block [OF Suc.prems(1) ok] by blast
  have "inj_on ?P {i + 1..<i + 1 + k}" using Suc.prems(3) by (rule inj_on_subset) auto
  then obtain s2 where s2: "file_loop k dev node (of_nat (i + 1)) address (offset + 4096) WRITE s1 = Some s2"
    "disk_ready d0 dev s2" "io_step s1 s2" "cmem s2 = cmem s"
    "\<forall>j < k. \<forall>x < 4096. disk_of d0 s2 (4096 * unat (?P (i + 1 + j)) + x) =
       cmem s (address + (offset + 4096) + of_nat (4096 * j + x))"
    "\<forall>c. (\<forall>j < k. c div 4096 \<noteq> unat (?P (i + 1 + j))) \<longrightarrow> disk_of d0 s2 c = disk_of d0 s1 c"
    using Suc.IH [of s1 "i + 1" "offset + 4096", unfolded s1(4), OF s1(2)] Suc.prems(2) by fastforce
  have first: "disk_of d0 s2 (4096 * unat (?P i) + x) = cmem s (address + offset + of_nat x)" if "x < 4096" for x
  proof -
    have "?P (i + 1 + j) \<noteq> ?P i" if "j < k" for j
      using inj_onD [OF Suc.prems(3), of "i + 1 + j" i] that by auto
    then have "\<forall>j < k. (4096 * unat (?P i) + x) div 4096 \<noteq> unat (?P (i + 1 + j))"
      using \<open>x < 4096\<close> by (simp add: word_unat_eq_iff) metis
    then show ?thesis using s2(6) that by (simp add: s1(5) put_disk_def)
  qed
  have "disk_of d0 s2 (4096 * unat (?P (i + j)) + x) = cmem s (address + offset + of_nat (4096 * j + x))"
    if "j < Suc k" "x < 4096" for j x
  proof (cases j)
    case 0
    then show ?thesis using first [OF that(2)] by simp
  next
    case (Suc l)
    then show ?thesis using s2(5) [rule_format, of l x] that by (simp add: algebra_simps)
  qed
  moreover have "disk_of d0 s2 c = ?p c" if c: "\<forall>j < Suc k. c div 4096 \<noteq> unat (?P (i + j))" for c
  proof -
    have "c div 4096 \<noteq> unat (?P (i + 1 + j))" if "j < k" for j
      using c [rule_format, of "Suc j"] that by simp
    moreover have "c div 4096 \<noteq> unat (?P i)" using c [rule_format, of 0] by simp
    then have "c < 4096 * unat (?P i) \<or> 4096 * unat (?P i) + 4096 \<le> c" by auto
    then have "disk_of d0 s1 c = ?p c" by (auto simp: s1(5) put_disk_def)
    ultimately show ?thesis using s2(6) by simp
  qed
  moreover have "file_loop (Suc k) dev node (of_nat i) address offset WRITE s = Some s2"
    using s1(1) s2(1) by (simp add: pointer_at_def add.commute)
  ultimately show ?case using s2(2,4) io_step_trans [OF s1(3) s2(3)] by blast
qed

section \<open>Saving and loading\<close>

text \<open>An inode in memory whose blocks can be transferred: at most 7 of them, on the disk, all different.\<close>

definition file_ok :: "memory \<Rightarrow> u32 \<Rightarrow> bool" where
  "file_ok m node \<longleftrightarrow> file_blocks m node \<le> 7 \<and> (\<forall>j < file_blocks m node. block_ok (pointer_at m node j)) \<and>
     inj_on (pointer_at m node) {0..<file_blocks m node}"

lemma load_file_effect:
  fixes s :: "'a fs_scheme"
  assumes "disk_ready d0 dev s" and "file_ok (cmem s) node"
    and "node_clear node (address + offset) (4096 * file_blocks (cmem s) node)"
  shows "\<exists>s'. load_file dev offset node address s = Some (True, s') \<and> disk_ready d0 dev s' \<and> io_step s s' \<and>
    disk_of d0 s' = disk_of d0 s \<and>
    cmem s' = put_bytes (address + offset) (4096 * file_blocks (cmem s) node)
      (\<lambda>x. disk_of d0 s (4096 * unat (pointer_at (cmem s) node (x div 4096)) + x mod 4096)) (cmem s)"
  using file_loop_read [OF assms(1), of 0 "file_blocks (cmem s) node" node address offset] assms(2,3)
  by (auto simp: load_file_def file_ok_def file_blocks_def [symmetric] Let_def)

lemma save_file_effect:
  fixes s :: "'a fs_scheme"
  assumes "disk_ready d0 dev s" and "file_ok (cmem s) node"
  shows "\<exists>s'. save_file dev offset node address s = Some (True, s') \<and> disk_ready d0 dev s' \<and> io_step s s' \<and>
    cmem s' = cmem s \<and>
    (\<forall>j < file_blocks (cmem s) node. \<forall>x < 4096. disk_of d0 s' (4096 * unat (pointer_at (cmem s) node j) + x) =
       cmem s (address + offset + of_nat (4096 * j + x))) \<and>
    (\<forall>c. (\<forall>j < file_blocks (cmem s) node. c div 4096 \<noteq> unat (pointer_at (cmem s) node j)) \<longrightarrow> disk_of d0 s' c = disk_of d0 s c)"
  using file_loop_write [OF assms(1), of 0 "file_blocks (cmem s) node" node address offset] assms(2)
  by (auto simp: save_file_def file_ok_def file_blocks_def [symmetric] Let_def)

text \<open>
  C24. Saving a file from \<open>a\<close> and loading it to \<open>b\<close> copies its blocks through the disk, and
  touches no other block of the disk and no other memory. Both addresses are shifted by
  whatever the uninitialised locals \<open>offset\<close> held: the bytes at \<open>a + o1\<close> arrive at \<open>b + o2\<close>.
\<close>

theorem save_load_file:
  fixes s :: "'a fs_scheme"
  assumes "disk_ready d0 dev s" and "file_ok (cmem s) node"
    and "node_clear node (b + o2) (4096 * file_blocks (cmem s) node)"
  shows "\<exists>s1 s2. save_file dev o1 node a s = Some (True, s1) \<and> load_file dev o2 node b s1 = Some (True, s2) \<and>
    (\<forall>x < 4096 * file_blocks (cmem s) node. cmem s2 (b + o2 + of_nat x) = cmem s (a + o1 + of_nat x)) \<and>
    (\<forall>x. 4096 * file_blocks (cmem s) node \<le> unat (x - (b + o2)) \<longrightarrow> cmem s2 x = cmem s x) \<and>
    (\<forall>c. (\<forall>j < file_blocks (cmem s) node. c div 4096 \<noteq> unat (pointer_at (cmem s) node j)) \<longrightarrow> disk_of d0 s2 c = disk_of d0 s c)"
proof -
  let ?n = "file_blocks (cmem s) node"
  obtain s1 where s1: "save_file dev o1 node a s = Some (True, s1)" "disk_ready d0 dev s1" "cmem s1 = cmem s"
    "\<forall>j < ?n. \<forall>x < 4096. disk_of d0 s1 (4096 * unat (pointer_at (cmem s) node j) + x) = cmem s (a + o1 + of_nat (4096 * j + x))"
    "\<forall>c. (\<forall>j < ?n. c div 4096 \<noteq> unat (pointer_at (cmem s) node j)) \<longrightarrow> disk_of d0 s1 c = disk_of d0 s c"
    using save_file_effect [OF assms(1,2), of o1 a] by blast
  obtain s2 where s2: "load_file dev o2 node b s1 = Some (True, s2)" "disk_of d0 s2 = disk_of d0 s1"
    "cmem s2 = put_bytes (b + o2) (4096 * ?n)
      (\<lambda>x. disk_of d0 s1 (4096 * unat (pointer_at (cmem s) node (x div 4096)) + x mod 4096)) (cmem s)"
    using load_file_effect [of d0 dev s1 node b o2] s1(2,3) assms(2,3) by auto
  have n: "?n \<le> 7" using assms(2) by (simp add: file_ok_def)
  have "cmem s2 (b + o2 + of_nat x) = cmem s (a + o1 + of_nat x)" if "x < 4096 * ?n" for x
  proof -
    have "cmem s2 (b + o2 + of_nat x) = disk_of d0 s1 (4096 * unat (pointer_at (cmem s) node (x div 4096)) + x mod 4096)"
      unfolding s2(3) using that n by (intro put_bytes_at) auto
    also have "\<dots> = cmem s (a + o1 + of_nat (4096 * (x div 4096) + x mod 4096))"
      using s1(4) [rule_format, of "x div 4096" "x mod 4096"] that
      by (simp add: less_mult_imp_div_less mult.commute del: mult_div_mod_eq div_mult_mod_eq)
    finally show ?thesis by simp
  qed
  moreover have "cmem s2 x = cmem s x" if "4096 * ?n \<le> unat (x - (b + o2))" for x
    using that by (simp add: s2(3) put_bytes_def)
  ultimately show ?thesis using s1(1,5) s2(1,2) by auto
qed


text \<open>An inode at 0x50000 with one block, number 20; the second load starts with \<open>offset\<close> 16.\<close>

definition example_file_fs :: fs where
  "example_file_fs = example_fs\<lparr>cmem := (cmem example_fs)(0x50006 := 0x10, 0x50021 := 20, 0x70003 := 99)\<rparr>"

lemma example_file:
  "file_blocks (cmem example_file_fs) 0x50000 = 1" "pointer_at (cmem example_file_fs) 0x50000 0 = 20"
  by (simp_all add: file_blocks_def pointer_at_def example_file_fs_def example_fs_def load32_def bytes_to_blocks_def fs_constants)

theorem save_load_file_witness:
  "\<exists>s1 s2. save_file (example_ata example_disk_drive) 0 0x50000 0x70000 example_file_fs = Some (True, s1) \<and>
     load_file (example_ata example_disk_drive) 16 0x50000 0x60000 s1 = Some (True, s2) \<and> cmem s2 0x60013 = 99"
proof -
  have ready: "disk_ready example_disk_drive (example_ata example_disk_drive) example_file_fs"
    using example_fs_ready by (simp add: example_file_fs_def)
  have ok: "file_ok (cmem example_file_fs) 0x50000"
    by (simp add: file_ok_def example_file block_ok_def)
  have clear: "node_clear 0x50000 (0x60000 + 16) (4096 * file_blocks (cmem example_file_fs) 0x50000)"
    unfolding node_clear_def example_file
  proof (intro allI impI)
    fix t :: nat assume t: "t < 64"
    have e: "0x50000 + of_nat t - (0x60000 + 16 :: u32) = 0xFFFEFFF0 + of_nat t" by simp
    have u: "unat (0xFFFEFFF0 + (of_nat t :: u32)) = 0xFFFEFFF0 + t" using t by (simp add: unat_add_no_wrap)
    show "4096 * 1 \<le> unat (0x50000 + of_nat t - (0x60000 + 16 :: u32))" unfolding e u by simp
  qed
  obtain s1 s2 where s: "save_file (example_ata example_disk_drive) 0 0x50000 0x70000 example_file_fs = Some (True, s1)"
    "load_file (example_ata example_disk_drive) 16 0x50000 0x60000 s1 = Some (True, s2)"
    "\<forall>x < 4096 * file_blocks (cmem example_file_fs) 0x50000.
       cmem s2 (0x60000 + 16 + of_nat x) = cmem example_file_fs (0x70000 + 0 + of_nat x)"
    using save_load_file [OF ready ok clear, of 0 "0x70000"] by blast
  have "cmem s2 0x60013 = 99"
    using s(3) [unfolded example_file(1), rule_format, of 3] by (simp add: example_file_fs_def)
  with s(1,2) show ?thesis by blast
qed

end
