(* ===== verification/FsCreate.thy ===== *)
theory FsCreate
  imports FsPath FsFiles
begin

text \<open>
  Creating a file: \<open>create_file\<close> of \<^verbatim>\<open>kernel/fs/fs_commands.c\<close> in the current directory, when the
  directory has a free slot. The steps are treated one by one, each with the part of the disk
  and of the memory that it may change, and put together into what the operation is for: the
  file that was created is found by its name.
\<close>

section \<open>What a step may change\<close>

text \<open>
  \<open>touches d0 dev D M s s'\<close>: the disk has changed within \<open>D\<close>, memory within \<open>M\<close>, and of the globals
  at most the superblock's two hints for free bits.
\<close>

definition same_place :: "super_block \<Rightarrow> super_block \<Rightarrow> bool" where
  "same_place a b \<longleftrightarrow> (\<exists>i d. b = a\<lparr>first_free_inode_bit := i, first_free_data_bit := d\<rparr>)"

definition same_globals :: "'a fs_scheme \<Rightarrow> 'a fs_scheme \<Rightarrow> bool" where
  "same_globals s s' \<longleftrightarrow> same_place (superblock s) (superblock s') \<and> current_dir_inode s' = current_dir_inode s \<and>
     root_inode s' = root_inode s \<and> block_buffer s' = block_buffer s \<and> sector_buffer s' = sector_buffer s \<and>
     entry_local s' = entry_local s"

definition touches :: "drive \<Rightarrow> device \<Rightarrow> nat set \<Rightarrow> u32 set \<Rightarrow> 'a fs_scheme \<Rightarrow> 'a fs_scheme \<Rightarrow> bool" where
  "touches d0 dev D M s s' \<longleftrightarrow> disk_ready d0 dev s' \<and> same_globals s s' \<and>
     (\<forall>x. x \<notin> D \<longrightarrow> disk_of d0 s' x = disk_of d0 s x) \<and> (\<forall>x. x \<notin> M \<longrightarrow> cmem s' x = cmem s x)"

definition span :: "u32 \<Rightarrow> nat \<Rightarrow> u32 set" where
  "span a n = {x. unat (x - a) < n}"

lemma same_place_refl [simp]: "same_place a a"
  unfolding same_place_def by (intro exI [of _ "first_free_inode_bit a"] exI [of _ "first_free_data_bit a"]) simp

lemma same_place_trans: "same_place a b \<Longrightarrow> same_place b c \<Longrightarrow> same_place a c"
  unfolding same_place_def by (elim exE, hypsubst) (intro exI, simp)

lemma unat_minus_nat:
  fixes w :: u32
  assumes "k \<le> unat w"
  shows "unat (w - of_nat k) = unat w - k"
proof -
  have "w - of_nat k = of_nat (unat w) - of_nat k" by simp
  also have "\<dots> = of_nat (unat w - k)" using assms by (simp only: of_nat_diff)
  finally show ?thesis by (simp add: less_imp_diff_less)
qed

lemma same_place_fields:
  assumes "same_place a b"
  shows "first_inode_block b = first_inode_block a" "first_inode_bitmap b = first_inode_bitmap a"
    "first_data_bitmap b = first_data_bitmap a" "first_inode_bitmap_block b = first_inode_bitmap_block a"
    "num_inodes_bitmap b = num_inodes_bitmap a" "first_data_bitmap_block b = first_data_bitmap_block a"
    "num_data_bitmap b = num_data_bitmap a" "first_data_block b = first_data_block a"
    "sb_padding b = sb_padding a" "inode_place b n = inode_place a n" "inode_ok b n = inode_ok a n"
  using assms by (auto simp: same_place_def inode_place_def inode_ok_def)

lemma touches_refl: "disk_ready d0 dev s \<Longrightarrow> touches d0 dev D M s s"
  by (simp add: touches_def same_globals_def)

lemma touches_trans:
  "touches d0 dev D M s t \<Longrightarrow> touches d0 dev D' M' t u \<Longrightarrow> touches d0 dev (D \<union> D') (M \<union> M') s u"
  by (auto simp: touches_def same_globals_def intro: same_place_trans)

lemma touches_mono: "touches d0 dev D M s t \<Longrightarrow> D \<subseteq> D' \<Longrightarrow> M \<subseteq> M' \<Longrightarrow> touches d0 dev D' M' s t"
  by (auto simp: touches_def)

lemma touches_io:
  fixes s s' :: "'a fs_scheme"
  assumes "disk_ready d0 dev s'" and "io_step s s'"
    and "\<And>x. x \<notin> D \<Longrightarrow> disk_of d0 s' x = disk_of d0 s x" and "\<And>x. x \<notin> M \<Longrightarrow> cmem s' x = cmem s x"
  shows "touches d0 dev D M s s'"
  using assms io_step_fs [OF assms(2)] by (simp add: touches_def same_globals_def)

lemma touches_cmem:
  assumes "disk_ready d0 dev s" and "\<And>x. x \<notin> M \<Longrightarrow> m x = cmem s x"
  shows "touches d0 dev {} M s (s\<lparr>cmem := m\<rparr>)"
  using assms by (simp add: touches_def same_globals_def)

lemma touches_hints:
  assumes "disk_ready d0 dev s"
  shows "touches d0 dev {} {} s (s\<lparr>superblock := (superblock s)\<lparr>first_free_inode_bit := i\<rparr>\<rparr>)"
    and "touches d0 dev {} {} s (s\<lparr>superblock := (superblock s)\<lparr>first_free_data_bit := i\<rparr>\<rparr>)"
proof -
  have a: "same_place sb (sb\<lparr>first_free_inode_bit := i\<rparr>)" for sb :: super_block
    unfolding same_place_def by (intro exI [of _ i] exI [of _ "first_free_data_bit sb"]) simp
  have b: "same_place sb (sb\<lparr>first_free_data_bit := i\<rparr>)" for sb :: super_block
    unfolding same_place_def by (intro exI [of _ "first_free_inode_bit sb"] exI [of _ i]) simp
  show "touches d0 dev {} {} s (s\<lparr>superblock := (superblock s)\<lparr>first_free_inode_bit := i\<rparr>\<rparr>)"
    "touches d0 dev {} {} s (s\<lparr>superblock := (superblock s)\<lparr>first_free_data_bit := i\<rparr>\<rparr>)"
    using assms a b by (simp_all add: touches_def same_globals_def disk_ready_def disk_of_def)
qed

lemma cstr_at_touches:
  assumes "touches d0 dev D M s s'" and "cstr_at (cmem s) p str" and "\<And>i. i \<le> length str \<Longrightarrow> p + of_nat i \<notin> M"
  shows "cstr_at (cmem s') p str"
proof -
  have "cstr_at (cmem s') p str \<longleftrightarrow> cstr_at (cmem s) p str"
    using assms(1,3) by (intro cstr_at_cong) (simp add: touches_def)
  then show ?thesis using assms(2) by simp
qed

section \<open>The bitmaps\<close>

definition block_bytes :: "u32 \<Rightarrow> nat set" where
  "block_bytes b = {4096 * unat b..<4096 * unat b + 4096}"

lemma set_bitmap_touches:
  fixes s :: "'a fs_scheme"
  assumes ready: "disk_ready d0 dev s" and ok: "block_ok (first + n div 32768)"
  shows "\<exists>s'. set_bitmap dev first n b s = Some s' \<and>
    touches d0 dev (block_bytes (first + n div 32768)) (span (block_buffer s) 4096) s s' \<and> superblock s' = superblock s"
proof -
  let ?blk = "first + n div 32768" and ?bb = "block_buffer s"
  let ?i = "n mod 32768 div 64"
  obtain s1 where s1: "rw_sectors dev SECTORS_PER_BLOCK (?blk * SECTORS_PER_BLOCK) ?bb READ s = Some s1"
    "disk_ready d0 dev s1" "io_step s s1" "disk_of d0 s1 = disk_of d0 s"
    "cmem s1 = put_bytes ?bb 4096 (\<lambda>i. disk_of d0 s (4096 * unat ?blk + i)) (cmem s)"
    using read_block [OF ready ok] by blast
  let ?M = "store64 (cmem s1) (?bb + 8 * ?i) (mark_bit (n mod 32768) b (load64 (cmem s1) (?bb + 8 * ?i)))"
  obtain s3 where s3: "rw_sectors dev SECTORS_PER_BLOCK (?blk * SECTORS_PER_BLOCK) ?bb WRITE (s1\<lparr>cmem := ?M\<rparr>) = Some s3"
    "disk_ready d0 dev s3" "io_step (s1\<lparr>cmem := ?M\<rparr>) s3" "cmem s3 = ?M"
    "disk_of d0 s3 = put_disk (4096 * unat ?blk) 4096 (\<lambda>i. ?M (?bb + of_nat i)) (disk_of d0 s)"
    using write_block [of d0 dev "s1\<lparr>cmem := ?M\<rparr>", OF _ ok, of ?bb] s1(2,4) by auto
  have "unat ?i < 512"
  proof -
    have "n mod 32768 < 32768" by (simp add: word_mod_less_divisor)
    then show ?thesis by (simp add: unat_div word_less_nat_alt)
  qed
  then have i: "unat (8 * ?i) = 8 * unat ?i" "unat (8 * ?i) \<le> 4088" by (simp_all add: unat_word_ariths)
  have kept: "?M x = cmem s x" if "x \<notin> span ?bb 4096" for x
  proof -
    have x: "4096 \<le> unat (x - ?bb)" using that by (simp add: span_def)
    have "unat (x - ?bb - 8 * ?i) = unat (x - ?bb) - unat (8 * ?i)"
      using unat_minus_nat [of "unat (8 * ?i)" "x - ?bb"] x i(2) by simp
    moreover have "x - ?bb - 8 * ?i = x - (?bb + 8 * ?i)" by simp
    ultimately have d: "8 \<le> unat (x - (?bb + 8 * ?i))" using x i(2) by simp
    then have "4 \<le> x - (?bb + 8 * ?i)" by (simp add: word_le_nat_alt)
    moreover have "4 \<le> x - (?bb + 8 * ?i + 4)"
    proof -
      have "unat (x - (?bb + 8 * ?i) - 4) = unat (x - (?bb + 8 * ?i)) - 4"
        using unat_minus_nat [of 4 "x - (?bb + 8 * ?i)"] d by simp
      moreover have "x - (?bb + 8 * ?i) - 4 = x - (?bb + 8 * ?i + 4)" by simp
      ultimately show ?thesis using d by (simp add: word_le_nat_alt)
    qed
    ultimately show ?thesis using x by (simp add: store64_def store32_other s1(5) put_bytes_def)
  qed
  note step = io_step_trans [OF io_step_trans [OF s1(3) io_step_cmem] s3(3)]
  have "touches d0 dev (block_bytes ?blk) (span ?bb 4096) s s3"
    using kept s3(2,4,5) step by (intro touches_io) (auto simp: put_disk_def block_bytes_def)
  moreover have "set_bitmap dev first n b s = Some s3"
    using s1(1) s3(1) io_step_fs [OF s1(3)] by (simp add: set_bitmap_def Let_def)
  ultimately show ?thesis using io_step_fs(1) [OF step] by blast
qed

lemma find_free_touches:
  fixes s :: "'a fs_scheme"
  assumes "disk_ready d0 dev s" and "unat start + n \<le> 2 ^ 25"
  shows "\<exists>v s'. free_block_loop n dev start s = Some (v, s') \<and> touches d0 dev {} (span (block_buffer s) 4096) s s' \<and>
    superblock s' = superblock s"
  using assms
proof (induction n arbitrary: start s)
  case 0
  then show ?case by (simp add: touches_refl)
next
  case (Suc n)
  have ok: "block_ok start" using Suc.prems(2) by (simp add: block_ok_def)
  obtain s1 where s1: "rw_sectors dev SECTORS_PER_BLOCK (start * SECTORS_PER_BLOCK) (block_buffer s) READ s = Some s1"
    "disk_ready d0 dev s1" "io_step s s1" "disk_of d0 s1 = disk_of d0 s"
    "cmem s1 = put_bytes (block_buffer s) 4096 (\<lambda>i. disk_of d0 s (4096 * unat start + i)) (cmem s)"
    using read_block [OF Suc.prems(1) ok] by blast
  have t: "touches d0 dev {} (span (block_buffer s) 4096) s s1"
    using s1(2-5) by (intro touches_io) (auto simp: span_def put_bytes_def)
  have "unat (start + 1) + n \<le> 2 ^ 25" using Suc.prems(2) by (simp add: unat_add_no_wrap)
  then obtain v s2 where "free_block_loop n dev (start + 1) s1 = Some (v, s2)"
    "touches d0 dev {} (span (block_buffer s1) 4096) s1 s2" "superblock s2 = superblock s1" using Suc.IH [OF s1(2)] by blast
  moreover from touches_trans [OF t calculation(2)] have "touches d0 dev {} (span (block_buffer s) 4096) s s2"
    using io_step_fs(4) [OF s1(3)] by simp
  ultimately show ?case
    using s1(1) t io_step_fs(1) [OF s1(3)] by (cases "free_word 1024 0 (block_buffer s1) (cmem s1)") auto
qed

lemma new_file_inode_touches:
  fixes s :: "'a fs_scheme"
  defines "sb \<equiv> superblock s"
  defines "n \<equiv> first_free_inode_bit sb" and "block \<equiv> first_data_block sb + first_free_data_bit sb"
  assumes ready: "disk_ready d0 dev s"
    and ok: "block_ok (first_inode_bitmap sb + n div 32768)" "block_ok (first_data_bitmap sb + block div 32768)"
    and range: "unat (first_inode_bitmap_block sb) + unat (num_inodes_bitmap sb) \<le> 2 ^ 25"
      "unat (first_data_bitmap_block sb) + unat (num_data_bitmap sb) \<le> 2 ^ 25"
  shows "\<exists>s'. new_file_inode dev s = Some (zero_inode\<lparr>i_number := n, direct_pointers := (replicate 7 0)[0 := block],
      file_type := file_type_file, inode_size := FS_BLOCK\<rparr>, s') \<and>
    touches d0 dev (block_bytes (first_inode_bitmap sb + n div 32768) \<union> block_bytes (first_data_bitmap sb + block div 32768))
      (span (block_buffer s) 4096) s s'"
proof -
  let ?M = "span (block_buffer s) 4096"
  have bb: "block_buffer t = block_buffer s" if "touches d0 dev D M s t" for D M and t :: "'a fs_scheme"
    using that by (simp add: touches_def same_globals_def)
  have ready': "disk_ready d0 dev t" if "touches d0 dev D M s t" for D M and t :: "'a fs_scheme"
    using that by (simp add: touches_def)
  obtain s1 where 1: "set_bitmap dev (first_inode_bitmap sb) n True s = Some s1"
    "touches d0 dev (block_bytes (first_inode_bitmap sb + n div 32768)) ?M s s1" "superblock s1 = sb"
    using set_bitmap_touches [OF ready ok(1)] by (auto simp: sb_def)
  obtain v s2 where 2: "free_block_loop (unat (num_inodes_bitmap sb)) dev (first_inode_bitmap_block sb) s1 = Some (v, s2)"
    "touches d0 dev {} ?M s1 s2" "superblock s2 = sb"
    using find_free_touches [OF ready' [OF 1(2)] range(1)] bb [OF 1(2)] 1(3) by auto
  let ?s3 = "s2\<lparr>superblock := (superblock s2)\<lparr>first_free_inode_bit := v\<rparr>\<rparr>"
  have "disk_ready d0 dev s2" using 2(2) by (simp add: touches_def)
  note t3 = touches_trans [OF touches_trans [OF 1(2) 2(2)] touches_hints(1) [OF this]]
  have ok3: "block_ok (first_data_bitmap sb + block div 32768)" using ok(2) .
  obtain s4 where 4: "set_bitmap dev (first_data_bitmap sb) block True ?s3 = Some s4"
    "touches d0 dev (block_bytes (first_data_bitmap sb + block div 32768)) ?M ?s3 s4" "superblock s4 = sb\<lparr>first_free_inode_bit := v\<rparr>"
    using set_bitmap_touches [OF ready' [OF t3] ok3] bb [OF t3] 2(3) by auto
  note t4 = touches_trans [OF t3 4(2)]
  obtain w s5 where 5: "free_block_loop (unat (num_data_bitmap sb)) dev (first_data_bitmap_block sb) s4 = Some (w, s5)"
    "touches d0 dev {} ?M s4 s5"
    using find_free_touches [OF ready' [OF t4] range(2)] bb [OF t4] by auto
  have "disk_ready d0 dev s5" using 5(2) by (simp add: touches_def)
  note t6 = touches_trans [OF touches_trans [OF t4 5(2)] touches_hints(2) [OF this, where i = w]]
  have "new_file_inode dev s = Some (zero_inode\<lparr>i_number := n, direct_pointers := (replicate 7 0)[0 := block],
      file_type := file_type_file, inode_size := FS_BLOCK\<rparr>,
      s5\<lparr>superblock := (superblock s5)\<lparr>first_free_data_bit := w\<rparr>\<rparr>)"
    using 1(1,3) 2(1,3) 4(1,3) 5(1)
    by (simp add: new_file_inode_def Let_def set_inode_bitmap_def set_data_bitmap_def find_free_bit_def
        sb_def [symmetric] n_def [symmetric] block_def [symmetric])
  then show ?thesis using touches_mono [OF t6] by (intro exI conjI) (assumption, auto)
qed

section \<open>The directory entry\<close>

lemma cstr_at_nth: "cstr_at m p str \<Longrightarrow> i \<le> length str \<Longrightarrow> m (p + of_nat i) = (str @ [0]) ! i"
proof (induction str arbitrary: p i)
  case (Cons c cs)
  show ?case
  proof (cases i)
    case (Suc j)
    then show ?thesis using Cons.IH [of "p + 1" j] Cons.prems by (simp add: add.assoc)
  qed (use Cons.prems in simp)
qed simp

lemma get_name_loop_plain: "cstr_at m p name \<Longrightarrow> 47 \<notin> set name \<Longrightarrow> get_name_loop m p q = Some q"
proof (induction name arbitrary: p)
  case Nil
  then show ?case by (subst get_name_loop.simps) simp
next
  case (Cons c cs)
  then show ?case by (subst get_name_loop.simps) auto
qed

text \<open>The 64 bytes of an entry with a name.\<close>

definition named_entry :: "u32 \<Rightarrow> u8 list \<Rightarrow> u8 list" where
  "named_entry n name = entry_bytes \<lparr>entry_i_number = n, entry_name = name @ replicate (60 - length name) 0\<rparr>"

lemma length_named_entry: "length name \<le> 60 \<Longrightarrow> length (named_entry n name) = 64"
  by (simp add: named_entry_def)

lemma named_entry_nth:
  assumes "length name < 60"
  shows "k < 4 \<Longrightarrow> named_entry n name ! k = bytes32 n ! k"
    and "4 \<le> k \<Longrightarrow> k < 4 + length name \<Longrightarrow> named_entry n name ! k = name ! (k - 4)"
    and "4 + length name \<le> k \<Longrightarrow> k < 64 \<Longrightarrow> named_entry n name ! k = 0"
  using assms by (auto simp: named_entry_def entry_bytes_def nth_append bytes_lengths)

lemma make_entry_names:
  fixes s :: "'a fs_scheme"
  assumes ready: "disk_ready d0 dev s" and str: "cstr_at (cmem s) path name" "47 \<notin> set name" "length name < 60"
    and apart: "\<And>i. i \<le> length name \<Longrightarrow> path + of_nat i \<notin> span (entry_local s) 64"
  shows "\<exists>s'. make_entry n path s = Some s' \<and> touches d0 dev {} (span (entry_local s) 64) s s' \<and> superblock s' = superblock s \<and>
    (\<forall>k < 64. cmem s' (entry_local s + of_nat k) = named_entry n name ! k)"
proof -
  define e where "e = entry_local s"
  define m1 where "m1 = store32 (memset (cmem s) e 0 64) e n"
  have m1: "m1 x = (if unat (x - e) < 4 then ucast (drop_bit (8 * unat (x - e)) n) else if unat (x - e) < 64 then 0 else cmem s x)" for x
    by (simp add: m1_def store32_put_bytes put_bytes_def memset_effect word_less_nat_alt)
  have out: "64 \<le> unat (path + of_nat i - e)" if "i \<le> length name" for i
    using apart [OF that] by (simp add: span_def e_def)
  have "m1 (path + of_nat i) = cmem s (path + of_nat i)" if "i \<le> length name" for i
    using out [OF that] by (simp add: m1)
  then have "cstr_at m1 path name \<longleftrightarrow> cstr_at (cmem s) path name" by (intro cstr_at_cong)
  then have str1: "cstr_at m1 path name" using str(1) by simp
  have len: "unat (of_nat (length name) + 1 :: u32) = length name + 1" using str(3) by (simp add: unat_add_no_wrap)
  have "of_nat (length name) + 1 \<le> e + 4 - path"
  proof (rule ccontr)
    assume "\<not> of_nat (length name) + 1 \<le> e + 4 - path"
    then have "unat (e + 4 - path) \<le> length name" by (simp add: word_le_nat_alt len)
    from out [OF this] show False by simp
  qed
  then have "copy_ok (e + 4) path (of_nat (length name) + 1)" by (simp add: copy_ok_def)
  then obtain m2 where m2: "strcpy m1 (e + 4) path = Some m2" "cstr_at m2 (e + 4) name"
    "\<And>a. length name + 1 \<le> unat (a - (e + 4)) \<Longrightarrow> m2 a = m1 a"
    using strcpy_copies [OF str1, of "e + 4"] str(3) by (auto simp: word_le_nat_alt len)
  have bytes: "m2 (e + of_nat k) = named_entry n name ! k" if k: "k < 64" for k
  proof -
    have uk: "unat (e + of_nat k - e) = k" using k by simp
    consider "k < 4" | j where "k = 4 + j" "j < length name" | "k = 4 + length name" | j where "k = 4 + j" "length name < j"
      by (metis le_add_diff_inverse linorder_neqE_nat not_less)
    then show ?thesis
    proof cases
      case 1
      then have "k = 0 \<or> k = 1 \<or> k = 2 \<or> k = 3" by auto
      then have "length name + 1 \<le> unat (e + of_nat k - (e + 4))"
        using str(3) by (auto simp: unsigned_minus_1_eq_mask mask_eq_exp_minus_1)
      then have "m2 (e + of_nat k) = m1 (e + of_nat k)" by (rule m2(3))
      then show ?thesis
        using 1 \<open>k = 0 \<or> k = 1 \<or> k = 2 \<or> k = 3\<close> named_entry_nth(1) [OF str(3) 1, of n]
        by (auto simp: m1 bytes32_def)
    next
      case 2
      then have "m2 (e + 4 + of_nat j) = name ! j" using cstr_at_nth [OF m2(2), of j] by (simp add: nth_append)
      then show ?thesis using 2 named_entry_nth(2) [OF str(3), of k n] by (simp add: add.assoc)
    next
      case 3
      then have "m2 (e + 4 + of_nat (length name)) = 0" using cstr_at_nth [OF m2(2), of "length name"] by simp
      then show ?thesis using 3 k named_entry_nth(3) [OF str(3), of k n] by (simp add: add.assoc)
    next
      case 4
      then have "unat (e + of_nat k - (e + 4)) = j" using k by simp
      then have "m2 (e + of_nat k) = m1 (e + of_nat k)" using 4 by (intro m2(3)) simp
      then show ?thesis using 4 k uk named_entry_nth(3) [OF str(3), of k n] by (simp add: m1)
    qed
  qed
  have kept: "m2 x = cmem s x" if "x \<notin> span e 64" for x
  proof -
    have x: "64 \<le> unat (x - e)" using that by (simp add: span_def)
    then have "unat (x - (e + 4)) = unat (x - e) - 4"
      using unat_minus_nat [of 4 "x - e"] by (simp add: algebra_simps)
    then have "m2 x = m1 x" using x str(3) by (intro m2(3)) simp
    then show ?thesis using x by (simp add: m1)
  qed
  have "make_entry n path s = Some (s\<lparr>cmem := m2\<rparr>)"
    using get_name_loop_plain [OF str1 str(2)] m2(1)
    by (simp add: make_entry_def Let_def get_name_path_def e_def [symmetric] m1_def [symmetric])
  then show ?thesis using touches_cmem [OF ready kept] bytes by (auto simp: e_def)
qed

section \<open>Linking\<close>

lemma find_empty_find:
  assumes buf: "\<And>i. i < 4096 \<Longrightarrow> m (a + of_nat i) = p (4096 * b + i)"
    and slots: "\<And>j. j < 64 \<Longrightarrow> slot_ok p sb (4096 * b + 64 * j)" and "k \<le> 64"
  shows "find_empty k (a + 64 * of_nat (64 - k)) m =
    map_option (\<lambda>c. a + of_nat (c - 4096 * b)) (find (\<lambda>c. disk32 p c = 0) (map (\<lambda>j. 4096 * b + 64 * j) [64 - k..<64]))"
  using \<open>k \<le> 64\<close>
proof (induction k)
  case (Suc k)
  define j where "j = 64 - Suc k"
  then have j: "j < 64" "64 - k = Suc j" using Suc.prems by simp_all
  then have upt: "[j..<64] = j # [64 - k..<64]" by (metis upt_conv_Cons)
  have next_e: "a + 64 * of_nat j + 64 = a + 64 * of_nat (64 - k)" unfolding j(2) by (simp add: algebra_simps)
  have "load32 m (a + 64 * of_nat j) = disk32 p (4096 * b + 64 * j)"
    by (rule slot_in_buffer(1) [OF buf j(1) slots [OF j(1)]])
  then have "find_empty (Suc k) (a + 64 * of_nat j) m =
    map_option (\<lambda>c. a + of_nat (c - 4096 * b)) (find (\<lambda>c. disk32 p c = 0) (map (\<lambda>j. 4096 * b + 64 * j) [j..<64]))"
    using Suc.IH Suc.prems unfolding upt find_empty.simps next_e by simp
  then show ?case unfolding j_def .
qed simp

text \<open>A 64-byte slot of a block, changed in the buffer and written back with the block.\<close>

lemma put_disk_slot:
  assumes j: "j < 64" and buf: "\<And>i. i < 4096 \<Longrightarrow> m (a + of_nat i) = p (4096 * b + i)"
  shows "put_disk (4096 * b) 4096 (\<lambda>i. put_bytes (a + of_nat (64 * j)) 64 f m (a + of_nat i)) p =
    put_disk (4096 * b + 64 * j) 64 f p"
proof -
  have "put_bytes (a + of_nat (64 * j)) 64 f m (a + of_nat i) =
      (if 64 * j \<le> i \<and> i < 64 * j + 64 then f (i - 64 * j) else p (4096 * b + i))" if "i < 4096" for i
    using put_bytes_inner [of i "64 * j" 64 a f m] buf [OF that] that j by simp
  then have "put_disk (4096 * b) 4096 (\<lambda>i. put_bytes (a + of_nat (64 * j)) 64 f m (a + of_nat i)) p =
      put_disk (4096 * b) 4096 (\<lambda>i. if 64 * j \<le> i \<and> i < 64 * j + 64 then f (i - 64 * j) else p (4096 * b + i)) p"
    by (rule put_disk_cong)
  also have "\<dots> = put_disk (4096 * b + 64 * j) 64 f p"
    using j by (auto simp: put_disk_def fun_eq_iff)
  finally show ?thesis .
qed

lemma link_block:
  fixes s :: "'a fs_scheme"
  assumes ready: "disk_ready d0 dev s" and ok: "block_ok b" and j: "j < 64"
    and buf: "\<And>i. i < 4096 \<Longrightarrow> cmem s (block_buffer s + of_nat i) = disk_of d0 s (4096 * unat b + i)"
    and entry: "\<And>k. k < 64 \<Longrightarrow> cmem s (src + of_nat k) = bs ! k"
  shows "\<exists>s'. rw_sectors dev SECTORS_PER_BLOCK (b * SECTORS_PER_BLOCK) (block_buffer s) WRITE
      (s\<lparr>cmem := copy_entry (block_buffer s + of_nat (64 * j)) src (cmem s)\<rparr>) = Some s' \<and>
    disk_of d0 s' = put_disk (4096 * unat b + 64 * j) 64 (\<lambda>k. bs ! k) (disk_of d0 s) \<and>
    touches d0 dev {4096 * unat b + 64 * j..<4096 * unat b + 64 * j + 64} (span (block_buffer s) 4096) s s' \<and>
    superblock s' = superblock s"
proof -
  let ?c = "4096 * unat b + 64 * j" and ?bb = "block_buffer s" and ?p = "disk_of d0 s"
  let ?m = "copy_entry (?bb + of_nat (64 * j)) src (cmem s)"
  obtain s2 where s2: "rw_sectors dev SECTORS_PER_BLOCK (b * SECTORS_PER_BLOCK) ?bb WRITE (s\<lparr>cmem := ?m\<rparr>) = Some s2"
    "disk_ready d0 dev s2" "io_step (s\<lparr>cmem := ?m\<rparr>) s2" "cmem s2 = ?m"
    "disk_of d0 s2 = put_disk (4096 * unat b) 4096 (\<lambda>i. ?m (?bb + of_nat i)) ?p"
    using write_block [of d0 dev "s\<lparr>cmem := ?m\<rparr>", OF _ ok, of ?bb] ready by auto
  have "disk_of d0 s2 = put_disk ?c 64 (\<lambda>k. cmem s (src + of_nat k)) ?p"
    unfolding s2(5) copy_entry_def by (rule put_disk_slot [where p = ?p, OF j buf])
  also have "\<dots> = put_disk ?c 64 (\<lambda>k. bs ! k) ?p" by (rule put_disk_cong) (rule entry)
  finally have disk: "disk_of d0 s2 = put_disk ?c 64 (\<lambda>k. bs ! k) ?p" .
  have "?m x = cmem s x" if "x \<notin> span ?bb 4096" for x
  proof -
    have x: "4096 \<le> unat (x - ?bb)" using that by (simp add: span_def)
    then have "unat (x - ?bb - of_nat (64 * j)) = unat (x - ?bb) - 64 * j" using j by (intro unat_minus_nat) simp
    then have "unat (x - (?bb + of_nat (64 * j))) = unat (x - ?bb) - 64 * j" by (simp only: diff_diff_eq)
    then have "\<not> unat (x - (?bb + of_nat (64 * j))) < 64" using x j by linarith
    then show ?thesis by (simp only: copy_entry_def put_bytes_def if_False)
  qed
  then have "touches d0 dev {?c..<?c + 64} (span ?bb 4096) s s2"
    using s2(2,4) io_step_trans [OF io_step_cmem s2(3)] by (intro touches_io) (auto simp: disk put_disk_def)
  then show ?thesis using s2(1) disk io_step_fs(1) [OF io_step_trans [OF io_step_cmem s2(3)]] by blast
qed

lemma link_loop_links:
  fixes s :: "'a fs_scheme"
  assumes "disk_ready d0 dev s" and "\<And>k. k < 64 \<Longrightarrow> cmem s (entry_local s + of_nat k) = bs ! k"
    and "\<And>k. k < 64 \<Longrightarrow> entry_local s + of_nat k \<notin> span (block_buffer s) 4096"
    and "i + n \<le> 7" and "length (direct_pointers dir) = 7"
    and "list_all block_ok (take n (drop i (direct_pointers dir)))"
    and "list_all (slot_ok (disk_of d0 s) (superblock s)) (concat (map block_slots (take n (drop i (direct_pointers dir)))))"
    and "find (\<lambda>c. disk32 (disk_of d0 s) c = 0) (concat (map block_slots (take n (drop i (direct_pointers dir))))) = Some c"
  shows "\<exists>s'. link_loop n dev i dir s = Some s' \<and> disk_of d0 s' = put_disk c 64 (\<lambda>k. bs ! k) (disk_of d0 s) \<and>
    touches d0 dev {c..<c + 64} (span (block_buffer s) 4096) s s' \<and> superblock s' = superblock s"
  using assms
proof (induction n arbitrary: i s)
  case (Suc n)
  let ?p = "disk_of d0 s" and ?bb = "block_buffer s"
  define b where "b = direct_pointers dir ! i"
  have i: "i < 7" "take (Suc n) (drop i (direct_pointers dir)) = b # take n (drop (i + 1) (direct_pointers dir))"
    using Suc.prems(4,5) by (simp_all add: Cons_nth_drop_Suc [symmetric] b_def)
  note ok = Suc.prems(6-8) [unfolded i(2)]
  have bok: "block_ok b" using ok(1) by simp
  obtain s1 where s1: "rw_sectors dev SECTORS_PER_BLOCK (b * SECTORS_PER_BLOCK) ?bb READ s = Some s1"
    "fs_read_step d0 dev s s1" "\<forall>i < 4096. cmem s1 (?bb + of_nat i) = ?p (4096 * unat b + i)"
    "cmem s1 = put_bytes ?bb 4096 (\<lambda>i. ?p (4096 * unat b + i)) (cmem s)"
    using read_block [OF Suc.prems(1) bok, of ?bb] by (auto simp: fs_read_step_def outside_def put_bytes_def)
  have same: "disk_ready d0 dev s1" "disk_of d0 s1 = ?p" "superblock s1 = superblock s" "block_buffer s1 = ?bb"
    "entry_local s1 = entry_local s"
    using s1(2) io_step_fs [of s s1] by (simp_all add: fs_read_step_def)
  have t1: "touches d0 dev {} (span ?bb 4096) s s1"
    using s1(2,4) by (intro touches_io) (auto simp: fs_read_step_def span_def put_bytes_def)
  have buf: "cmem s1 (block_buffer s1 + of_nat k) = disk_of d0 s1 (4096 * unat b + k)" if "k < 4096" for k
    using s1(3) that same by simp
  have slots: "slot_ok ?p (superblock s) (4096 * unat b + 64 * j)" if "j < 64" for j
    using ok(2) that by (simp add: block_slots_ok)
  have entry: "cmem s1 (entry_local s1 + of_nat k) = bs ! k" if "k < 64" for k
    using Suc.prems(2,3) [OF that] t1 by (simp add: touches_def same(5))
  have empty: "find_empty 64 (block_buffer s1) (cmem s1) =
      map_option (\<lambda>c. ?bb + of_nat (c - 4096 * unat b)) (find (\<lambda>c. disk32 ?p c = 0) (block_slots b))"
    using find_empty_find [OF buf [unfolded same] slots, of 64] by (simp add: same block_slots_def del: upt_rec_numeral)
  show ?case
  proof (cases "find (\<lambda>c. disk32 ?p c = 0) (block_slots b)")
    case None
    have "concat (map block_slots (b # xs)) = block_slots b @ concat (map block_slots xs)" for xs by simp
    then have "find (\<lambda>c. disk32 ?p c = 0) (concat (map block_slots (take n (drop (i + 1) (direct_pointers dir))))) = Some c"
      using ok(3) None by (simp add: find_append_case)
    then obtain s2 where s2: "link_loop n dev (i + 1) dir s1 = Some s2"
      "disk_of d0 s2 = put_disk c 64 (\<lambda>k. bs ! k) ?p" "touches d0 dev {c..<c + 64} (span ?bb 4096) s1 s2"
      "superblock s2 = superblock s"
      using Suc.IH [OF same(1) entry, of "i + 1"] Suc.prems(3-5) ok(1,2) by (auto simp: same)
    then show ?thesis
      using s1(1) i(1) None empty touches_trans [OF t1 s2(3)]
      by (simp add: b_def [symmetric] DIR_ENTRIES_PER_BLOCK_def)
  next
    case (Some c')
    then have c': "c' = c" using ok(3) by (simp add: find_append_case)
    obtain j where j: "j < 64" "c = 4096 * unat b + 64 * j"
      using Some unfolding c' by (auto simp: find_Some_iff block_slots_def simp del: upt_rec_numeral)
    then have diff: "c - 4096 * unat b = 64 * j" by simp
    obtain s2 where s2: "rw_sectors dev SECTORS_PER_BLOCK (b * SECTORS_PER_BLOCK) (block_buffer s1) WRITE
        (s1\<lparr>cmem := copy_entry (block_buffer s1 + of_nat (64 * j)) (entry_local s1) (cmem s1)\<rparr>) = Some s2"
      "disk_of d0 s2 = put_disk c 64 (\<lambda>k. bs ! k) ?p" "touches d0 dev {c..<c + 64} (span ?bb 4096) s1 s2"
      "superblock s2 = superblock s"
      using link_block [OF same(1) bok j(1) buf entry] by (auto simp: same j(2))
    then show ?thesis
      using s1(1) i(1) Some empty touches_trans [OF t1 s2(3)] unfolding c'
      by (simp add: b_def [symmetric] DIR_ENTRIES_PER_BLOCK_def diff same)
  qed
qed simp

section \<open>The other steps\<close>

lemma update_superblock_touches:
  fixes s :: "'a fs_scheme"
  assumes "disk_ready d0 dev s" and "length (sb_padding (superblock s)) = 52"
  shows "\<exists>s'. update_superblock dev s = Some s' \<and> touches d0 dev {4096..<4608} (span SUPERBLOCK_ADDRESS 128) s s' \<and>
    superblock s' = superblock s"
proof -
  let ?m = "put_list SUPERBLOCK_ADDRESS (superblock_bytes (superblock s)) (cmem s)"
  have sec: "unat SUPERBLOCK_DISK_SECTOR < 2 ^ 28" by (simp add: SUPERBLOCK_DISK_SECTOR_def)
  obtain s' where s': "rw_sectors dev 1 SUPERBLOCK_DISK_SECTOR SUPERBLOCK_ADDRESS WRITE (s\<lparr>cmem := ?m\<rparr>) = Some s'"
    "disk_ready d0 dev s'" "io_step (s\<lparr>cmem := ?m\<rparr>) s'" "cmem s' = ?m"
    "disk_of d0 s' = put_disk (512 * unat SUPERBLOCK_DISK_SECTOR) 512 (\<lambda>i. ?m (SUPERBLOCK_ADDRESS + of_nat i)) (disk_of d0 s)"
    using write_sector [of d0 dev "s\<lparr>cmem := ?m\<rparr>", OF _ sec] assms(1) by auto
  have "touches d0 dev {4096..<4608} (span SUPERBLOCK_ADDRESS 128) s s'"
    using s'(2,4,5) io_step_trans [OF io_step_cmem s'(3)] assms(2)
    by (intro touches_io) (auto simp: put_disk_def SUPERBLOCK_DISK_SECTOR_def put_list_outside span_def)
  then show ?thesis
    using s'(1) io_step_fs(1) [OF io_step_trans [OF io_step_cmem s'(3)]] by (auto simp: update_superblock_def)
qed

lemma update_inode_touches:
  fixes s :: "'a fs_scheme"
  assumes "disk_ready d0 dev s" and "inode_ok (superblock s) (i_number i)" and "length (direct_pointers i) = 7"
  shows "\<exists>s'. update_inode dev i s = Some s' \<and> superblock s' = superblock s \<and>
    touches d0 dev {inode_place (superblock s) (i_number i)..<inode_place (superblock s) (i_number i) + 64}
      (span (sector_buffer s) 512) s s' \<and>
    disk_of d0 s' = put_disk (inode_place (superblock s) (i_number i)) 64 (\<lambda>k. inode_bytes i ! k) (disk_of d0 s)"
proof -
  obtain s' where s': "update_inode dev i s = Some s'" "disk_ready d0 dev s'" "io_step s s'"
    "disk_of d0 s' = put_disk (inode_place (superblock s) (i_number i)) 64 (\<lambda>k. inode_bytes i ! k) (disk_of d0 s)"
    "\<forall>x. 512 \<le> unat (x - sector_buffer s) \<longrightarrow> cmem s' x = cmem s x"
    using update_inode_disk [OF assms] by blast
  then have "touches d0 dev {inode_place (superblock s) (i_number i)..<inode_place (superblock s) (i_number i) + 64}
      (span (sector_buffer s) 512) s s'"
    by (intro touches_io) (auto simp: put_disk_def span_def)
  then show ?thesis using s'(1,4) io_step_fs(1) [OF s'(3)] by blast
qed

text \<open>A path without a slash names a file of the current directory.\<close>

lemma get_parent_current:
  fixes s :: "'a fs_scheme"
  assumes ready: "disk_ready d0 dev s" and str: "cstr_at (cmem s) path name" "47 \<notin> set name" "length name < 60"
    and apart: "\<And>i. i \<le> length name \<Longrightarrow> path + of_nat i \<notin> span (path_copy s) (length name + 1)"
  shows "\<exists>s'. get_parent_inode dev path s = Some (current_dir_inode s, s') \<and>
    touches d0 dev {} (span (path_copy s) (length name + 1)) s s' \<and> superblock s' = superblock s"
proof -
  have len: "unat (of_nat (length name) + 1 :: u32) = length name + 1" using str(3) by (simp add: unat_add_no_wrap)
  have "of_nat (length name) + 1 \<le> path_copy s - path"
  proof (rule ccontr)
    assume "\<not> of_nat (length name) + 1 \<le> path_copy s - path"
    then have "unat (path_copy s - path) \<le> length name" by (simp add: word_le_nat_alt len)
    from apart [OF this] show False by (simp add: span_def)
  qed
  then have "copy_ok (path_copy s) path (of_nat (length name) + 1)" by (simp add: copy_ok_def)
  then obtain m where m: "strcpy (cmem s) (path_copy s) path = Some m"
    "\<And>a. length name + 1 \<le> unat (a - path_copy s) \<Longrightarrow> m a = cmem s a"
    using strcpy_copies [OF str(1)] str(3) by (auto simp: word_le_nat_alt len)
  have t: "touches d0 dev {} (span (path_copy s) (length name + 1)) s (s\<lparr>cmem := m\<rparr>)"
    using m(2) by (intro touches_cmem [OF ready]) (simp add: span_def)
  have str1: "cstr_at m path name"
    using cstr_at_touches [OF t str(1) apart] by simp
  have "rindex 47 name = None" using str(2) by (simp add: rindex_None)
  then have "strrchr m path 47 = Some 0" using strrchr_last_occurrence [OF str1, of 47] by simp
  then have "get_parent_inode dev path s = Some (current_dir_inode s, s\<lparr>cmem := m\<rparr>)"
    using strlen_cstr [OF str(1)] m(1) by (simp add: get_parent_inode_def)
  then show ?thesis using t by auto
qed

section \<open>Looking up the new entry\<close>

lemma disk32_cong: "(\<And>k. k < 4 \<Longrightarrow> p' (c + k) = p (c + k)) \<Longrightarrow> disk32 p' c = disk32 p c"
  unfolding disk32_def by (rule load32_cong) (simp add: at_disk_def word_less_nat_alt)

lemma slot_cong:
  assumes "\<And>k. k < 64 \<Longrightarrow> p' (c + k) = p (c + k)"
  shows "disk32 p' c = disk32 p c" "slot_has p' name c = slot_has p name c" "slot_ok p' sb c = slot_ok p sb c"
proof -
  show d: "disk32 p' c = disk32 p c" using assms by (intro disk32_cong) simp
  have name: "p' (c + 4 + k) = p (c + 4 + k)" if "k < 60" for k using assms [of "4 + k"] that by (simp add: add.assoc)
  then have "name_on p' (c + 4) = name_on p (c + 4)"
    unfolding name_on_def by (intro arg_cong [of _ _ "takeWhile _"] map_cong [OF refl]) (simp only: set_upt atLeastLessThan_iff)
  then show "slot_has p' name c = slot_has p name c" by (simp add: slot_has_def d)
  have "(\<lambda>k. p' (c + 4 + k)) ` {..<60} = (\<lambda>k. p (c + 4 + k)) ` {..<60}" using name by (intro image_cong) simp_all
  then show "slot_ok p' sb c = slot_ok p sb c" by (simp add: slot_ok_def d)
qed

lemma named_slot:
  assumes p: "\<And>k. k < 64 \<Longrightarrow> p (c + k) = named_entry n name ! k" and name: "length name < 60" "0 \<notin> set name"
  shows "disk32 p c = n" "name_on p (c + 4) = name" "inode_ok sb n \<Longrightarrow> slot_ok p sb c"
proof -
  show d: "disk32 p c = n"
    unfolding disk32_def
    by (rule load32_bytes)
      (use p [of 0] p [of 1] p [of 2] p [of 3] in \<open>simp_all add: at_disk_def named_entry_nth(1) [OF name(1)] bytes32_def\<close>)
  have b: "p (c + 4 + k) = (if k < length name then name ! k else 0)" if "k < 60" for k
    using p [of "4 + k"] named_entry_nth(2,3) [OF name(1), of "4 + k" n] that by (simp add: add.assoc)
  have "map (\<lambda>k. p (c + 4 + k)) [0..<60] = name @ replicate (60 - length name) 0"
    by (rule nth_equalityI) (use name(1) b in \<open>simp_all add: nth_append del: upt_rec_numeral\<close>)
  moreover have "takeWhile (\<lambda>b. b \<noteq> 0) (name @ replicate (60 - length name) 0) = name"
    using name by (subst takeWhile_append2) (auto simp: takeWhile_eq_Nil_iff)
  ultimately show "name_on p (c + 4) = name" by (simp only: name_on_def)
  have "p (c + 4 + length name) = 0" using b [OF name(1)] by simp
  then have "0 \<in> (\<lambda>k. p (c + 4 + k)) ` {..<60}" using name(1) by (auto simp: image_iff intro!: bexI [of _ "length name"])
  then show "slot_ok p sb c" if "inode_ok sb n" using that by (simp add: slot_ok_def d)
qed

lemma find_only:
  assumes "c \<in> set xs" and "P c" and "\<And>d. d \<in> set xs \<Longrightarrow> d \<noteq> c \<Longrightarrow> \<not> P d"
  shows "find P xs = Some c"
proof (cases "find P xs")
  case None
  then show ?thesis using assms(1,2) by (simp add: find_None_iff)
next
  case (Some d)
  then have "d \<in> set xs" "P d" by (auto simp: find_Some_iff)
  then show ?thesis using Some assms(3) by metis
qed

lemma lookup_linked:
  assumes "c \<in> set (dir_slots dir)" and "\<And>k. k < 64 \<Longrightarrow> p' (c + k) = named_entry n name ! k"
    and "\<And>d k. d \<in> set (dir_slots dir) \<Longrightarrow> d \<noteq> c \<Longrightarrow> k < 64 \<Longrightarrow> p' (d + k) = p (d + k)"
    and "n \<noteq> 0" and "length name < 60" and "0 \<notin> set name" and "find (slot_has p name) (dir_slots dir) = None"
  shows "lookup p' sb dir name = inode_on p' (inode_place sb n)"
proof -
  note slot = named_slot [OF assms(2,5,6)]
  have "find (slot_has p' name) (dir_slots dir) = Some c"
  proof (rule find_only [OF assms(1)])
    show "slot_has p' name c" using slot(1,2) assms(4) by (simp add: slot_has_def)
    show "\<not> slot_has p' name d" if d: "d \<in> set (dir_slots dir)" "d \<noteq> c" for d
      using slot_cong(2) [of p' d p name, OF assms(3) [OF d]] assms(7) d(1) by (simp add: find_None_iff)
  qed
  then show ?thesis by (simp add: lookup_def slot(1))
qed

lemma dir_ok_linked:
  assumes "dir_ok p sb dir" and "\<And>k. k < 64 \<Longrightarrow> p' (c + k) = named_entry n name ! k"
    and "\<And>d k. d \<in> set (dir_slots dir) \<Longrightarrow> d \<noteq> c \<Longrightarrow> k < 64 \<Longrightarrow> p' (d + k) = p (d + k)"
    and "inode_ok sb n" and "length name < 60" and "0 \<notin> set name"
  shows "dir_ok p' sb dir"
proof -
  have "slot_ok p' sb d" if d: "d \<in> set (dir_slots dir)" for d
  proof (cases "d = c")
    case True
    then show ?thesis using named_slot(3) [OF assms(2,5,6,4)] by simp
  next
    case False
    have "slot_ok p sb d" using assms(1) d by (simp add: dir_ok_def list_all_iff)
    then show ?thesis using slot_cong(3) [of p' d p sb, OF assms(3) [OF d False]] by simp
  qed
  then show ?thesis using assms(1) by (simp add: dir_ok_def list_all_iff)
qed

section \<open>Creating a file\<close>

definition new_block :: "super_block \<Rightarrow> u32" where
  "new_block sb = first_data_block sb + first_free_data_bit sb"

definition inode_bit_block :: "super_block \<Rightarrow> u32" where
  "inode_bit_block sb = first_inode_bitmap sb + first_free_inode_bit sb div 32768"

definition data_bit_block :: "super_block \<Rightarrow> u32" where
  "data_bit_block sb = first_data_bitmap sb + new_block sb div 32768"

definition new_inode :: "super_block \<Rightarrow> inode" where
  "new_inode sb = zero_inode\<lparr>i_number := first_free_inode_bit sb, direct_pointers := (replicate 7 0)[0 := new_block sb],
     file_type := file_type_file, inode_size := FS_BLOCK\<rparr>"

text \<open>
  The buffers that creating a file writes to. The path is not among them, nor is the entry under
  construction in the block buffer.
\<close>

definition create_writes :: "'a fs_scheme \<Rightarrow> u8 list \<Rightarrow> u32 set" where
  "create_writes s name = span (path_copy s) (length name + 1) \<union> span (block_buffer s) 4096 \<union> span (sector_buffer s) 512 \<union>
     span (entry_local s) 64 \<union> span SUPERBLOCK_ADDRESS 128"

definition create_buffers :: "'a fs_scheme \<Rightarrow> u32 \<Rightarrow> u8 list \<Rightarrow> bool" where
  "create_buffers s path name \<longleftrightarrow> cstr_at (cmem s) path name \<and> 47 \<notin> set name \<and> length name < 60 \<and> buffers_apart s \<and>
     (\<forall>i \<le> length name. path + of_nat i \<notin> create_writes s name) \<and>
     (\<forall>k < 64. entry_local s + of_nat k \<notin> span (block_buffer s) 4096)"

text \<open>
  The layout of the disk: superblock and bitmaps before the inode table, the directory's blocks
  behind it, and room for one more entry in the last of them.
\<close>

definition create_layout :: "super_block \<Rightarrow> inode \<Rightarrow> bool" where
  "create_layout sb dir \<longleftrightarrow>
     block_ok (inode_bit_block sb) \<and> block_ok (data_bit_block sb) \<and>
     unat (first_inode_bitmap_block sb) + unat (num_inodes_bitmap sb) \<le> 2 ^ 25 \<and>
     unat (first_data_bitmap_block sb) + unat (num_data_bitmap sb) \<le> 2 ^ 25 \<and>
     length (sb_padding sb) = 52 \<and>
     inode_bit_block sb < first_inode_block sb \<and> data_bit_block sb < first_inode_block sb \<and> 2 \<le> first_inode_block sb \<and>
     first_free_inode_bit sb \<noteq> 0 \<and> first_free_inode_bit sb \<noteq> i_number dir \<and>
     inode_ok sb (first_free_inode_bit sb) \<and> inode_ok sb (i_number dir) \<and>
     (\<forall>c \<in> set (dir_slots dir). inode_place sb (first_free_inode_bit sb) + 64 \<le> c \<and> inode_place sb (i_number dir) + 64 \<le> c) \<and>
     bytes_to_blocks (inode_size dir + 64) = bytes_to_blocks (inode_size dir)"

definition create_changes :: "super_block \<Rightarrow> inode \<Rightarrow> nat \<Rightarrow> nat set" where
  "create_changes sb dir c = block_bytes (inode_bit_block sb) \<union> block_bytes (data_bit_block sb) \<union>
     {inode_place sb (first_free_inode_bit sb)..<inode_place sb (first_free_inode_bit sb) + 64} \<union> {c..<c + 64} \<union>
     {inode_place sb (i_number dir)..<inode_place sb (i_number dir) + 64} \<union> {4096..<4608}"

lemma inode_places_apart: "n \<noteq> m \<Longrightarrow> inode_place sb n + 64 \<le> inode_place sb m \<or> inode_place sb m + 64 \<le> inode_place sb n"
  by (auto simp: inode_place_def word_unat_eq_iff)

lemma bitmap_below:
  assumes "create_layout sb dir" and "x \<in> block_bytes (inode_bit_block sb) \<union> block_bytes (data_bit_block sb) \<union> {4096..<4608}"
  shows "x < inode_place sb n"
proof -
  have "unat (inode_bit_block sb) + 1 \<le> unat (first_inode_block sb)" "unat (data_bit_block sb) + 1 \<le> unat (first_inode_block sb)"
    "2 \<le> unat (first_inode_block sb)"
    using assms(1) by (simp_all add: create_layout_def word_less_nat_alt word_le_nat_alt)
  then show ?thesis using assms(2) by (auto simp: inode_place_def block_bytes_def)
qed

lemma put_list_disk: "k < 64 \<Longrightarrow> put_disk c 64 (\<lambda>k. bs ! k) p (c + k) = bs ! k"
  by (simp add: put_disk_def)

text \<open>
  The first half of \<open>create_file\<close>: the inode is on the disk, the entry in memory.
\<close>

lemma create_file_inode:
  fixes s :: "'a fs_scheme"
  defines "sb \<equiv> superblock s" and "dir \<equiv> current_dir_inode s"
  defines "n \<equiv> first_free_inode_bit sb"
  assumes ready: "disk_ready d0 dev s" and bufs: "create_buffers s path name" and lay: "create_layout sb dir"
  shows "\<exists>s1 s2 s3 s4. get_parent_inode dev path s = Some (dir, s1) \<and> new_file_inode dev s1 = Some (new_inode sb, s2) \<and>
    update_inode dev (new_inode sb) s2 = Some s3 \<and> make_entry n path s3 = Some s4 \<and>
    touches d0 dev (block_bytes (inode_bit_block sb) \<union> block_bytes (data_bit_block sb) \<union> {inode_place sb n..<inode_place sb n + 64})
      (create_writes s name) s s4 \<and>
    (\<forall>k < 64. cmem s4 (entry_local s4 + of_nat k) = named_entry n name ! k) \<and>
    (\<forall>k < 64. disk_of d0 s4 (inode_place sb n + k) = inode_bytes (new_inode sb) ! k)"
proof -
  let ?pl = "inode_place sb n"
  let ?B = "block_bytes (inode_bit_block sb) \<union> block_bytes (data_bit_block sb)"
  have str: "cstr_at (cmem s) path name" "47 \<notin> set name" "length name < 60"
    and path: "\<And>i. i \<le> length name \<Longrightarrow> path + of_nat i \<notin> create_writes s name"
    using bufs by (simp_all add: create_buffers_def)
  obtain s1 where 1: "get_parent_inode dev path s = Some (dir, s1)"
    "touches d0 dev {} (span (path_copy s) (length name + 1)) s s1" "superblock s1 = sb"
    using get_parent_current [OF ready str] path by (auto simp: create_writes_def dir_def sb_def)
  have g1: "block_buffer s1 = block_buffer s" "disk_ready d0 dev s1" using 1(2) by (simp_all add: touches_def same_globals_def)
  obtain s2 where 2: "new_file_inode dev s1 = Some (new_inode sb, s2)" "touches d0 dev ?B (span (block_buffer s) 4096) s1 s2"
    using new_file_inode_touches [OF g1(2)] lay
    by (auto simp: 1(3) g1(1) create_layout_def inode_bit_block_def data_bit_block_def new_block_def new_inode_def)
  note t2 = touches_trans [OF 1(2) 2(2)]
  have g2: "disk_ready d0 dev s2" "sector_buffer s2 = sector_buffer s" "same_place sb (superblock s2)"
    using t2 by (simp_all add: touches_def same_globals_def sb_def)
  have new: "i_number (new_inode sb) = n" "length (direct_pointers (new_inode sb)) = 7" by (simp_all add: new_inode_def n_def)
  obtain s3 where 3: "update_inode dev (new_inode sb) s2 = Some s3" "superblock s3 = superblock s2"
    "touches d0 dev {?pl..<?pl + 64} (span (sector_buffer s) 512) s2 s3"
    "disk_of d0 s3 = put_disk ?pl 64 (\<lambda>k. inode_bytes (new_inode sb) ! k) (disk_of d0 s2)"
    using update_inode_touches [OF g2(1), of "new_inode sb"] lay same_place_fields [OF g2(3)] new g2(2)
    by (auto simp: create_layout_def n_def)
  note t3 = touches_trans [OF t2 3(3)]
  have g3: "disk_ready d0 dev s3" "entry_local s3 = entry_local s" using t3 by (simp_all add: touches_def same_globals_def)
  have "cstr_at (cmem s3) path name"
    using path by (intro cstr_at_touches [OF t3 str(1)]) (auto simp: create_writes_def)
  then obtain s4 where 4: "make_entry n path s3 = Some s4" "touches d0 dev {} (span (entry_local s) 64) s3 s4"
    "\<forall>k < 64. cmem s4 (entry_local s + of_nat k) = named_entry n name ! k"
    using make_entry_names [OF g3(1) _ str(2,3), of path n] path by (auto simp: create_writes_def g3(2))
  have "touches d0 dev (?B \<union> {?pl..<?pl + 64}) (create_writes s name) s s4"
    by (rule touches_mono [OF touches_trans [OF t3 4(2)]]) (auto simp: create_writes_def)
  moreover have "disk_of d0 s4 (?pl + k) = inode_bytes (new_inode sb) ! k" if "k < 64" for k
    using 4(2) that by (simp add: touches_def 3(4) put_list_disk)
  moreover have "entry_local s4 = entry_local s" using 4(2) g3(2) by (simp add: touches_def same_globals_def)
  ultimately show ?thesis using 1(1) 2(1) 3(1) 4(1,3) by auto
qed

text \<open>The directory has the same slots after the first half.\<close>

lemma slots_kept:
  assumes touched: "touches d0 dev (block_bytes (inode_bit_block sb) \<union> block_bytes (data_bit_block sb) \<union>
      {inode_place sb n..<inode_place sb n + 64}) M s t"
    and lay: "create_layout sb dir" and n: "n = first_free_inode_bit sb" and sb: "sb = superblock s"
    and ok: "dir_ok (disk_of d0 s) sb dir" and d: "d \<in> set (dir_slots dir)"
  shows "disk32 (disk_of d0 t) d = disk32 (disk_of d0 s) d" and "slot_ok (disk_of d0 t) (superblock t) d"
proof -
  have "inode_place sb n + 64 \<le> d" using lay d by (simp add: create_layout_def n)
  then have "disk_of d0 t (d + k) = disk_of d0 s (d + k)" for k
    using touched bitmap_below [OF lay, of "d + k" n] by (fastforce simp: touches_def)
  note eq = slot_cong(1,3) [of "disk_of d0 t" d "disk_of d0 s", OF this]
  show "disk32 (disk_of d0 t) d = disk32 (disk_of d0 s) d" by (rule eq(1))
  have "same_place sb (superblock t)" using touched by (simp add: touches_def same_globals_def sb)
  moreover have "slot_ok (disk_of d0 s) sb d" using ok d by (simp add: dir_ok_def list_all_iff)
  ultimately have "slot_ok (disk_of d0 s) (superblock t) d" by (simp add: slot_ok_def same_place_fields(11))
  then show "slot_ok (disk_of d0 t) (superblock t) d" by (simp only: eq(2))
qed

text \<open>The part of \<open>create_file\<close> up to the update of the directory's inode.\<close>

lemma create_file_steps:
  fixes s :: "'a fs_scheme"
  defines "sb \<equiv> superblock s" and "dir \<equiv> current_dir_inode s"
  defines "n \<equiv> first_free_inode_bit sb" and "dir2 \<equiv> dir\<lparr>inode_size := inode_size dir + 64\<rparr>"
  assumes ready: "disk_ready d0 dev s" and bufs: "create_buffers s path name" and lay: "create_layout sb dir"
    and ok: "dir_ok (disk_of d0 s) sb dir" and free: "find (\<lambda>c. disk32 (disk_of d0 s) c = 0) (dir_slots dir) = Some c"
  shows "\<exists>s7. create_file dev path s =
      (let s8 = (if i_number (current_dir_inode s7) = i_number dir2 then s7\<lparr>current_dir_inode := dir2\<rparr> else s7);
           s9 = (if i_number (root_inode s8) = i_number dir2 then s8\<lparr>root_inode := dir2\<rparr> else s8)
       in map_option (\<lambda>s10. (new_inode sb, s10)) (update_superblock dev s9)) \<and>
    touches d0 dev (create_changes sb dir c) (create_writes s name) s s7 \<and>
    (\<forall>k < 64. disk_of d0 s7 (c + k) = named_entry n name ! k) \<and>
    (\<forall>k < 64. disk_of d0 s7 (inode_place sb n + k) = inode_bytes (new_inode sb) ! k)"
proof -
  let ?pl = "inode_place sb n" and ?pd = "inode_place sb (i_number dir)"
  obtain s1 s2 s3 s4 where run4: "get_parent_inode dev path s = Some (dir, s1)" "new_file_inode dev s1 = Some (new_inode sb, s2)"
      "update_inode dev (new_inode sb) s2 = Some s3" "make_entry n path s3 = Some s4"
    and t4: "touches d0 dev (block_bytes (inode_bit_block sb) \<union> block_bytes (data_bit_block sb) \<union> {?pl..<?pl + 64})
      (create_writes s name) s s4"
    and entry4: "\<forall>k < 64. cmem s4 (entry_local s4 + of_nat k) = named_entry n name ! k"
    and inode4: "\<forall>k < 64. disk_of d0 s4 (?pl + k) = inode_bytes (new_inode sb) ! k"
    using create_file_inode [OF ready bufs, folded sb_def dir_def, OF lay] unfolding n_def by blast
  have g4: "disk_ready d0 dev s4" "entry_local s4 = entry_local s" "block_buffer s4 = block_buffer s"
    using t4 by (simp_all add: touches_def same_globals_def)
  note same4 = slots_kept [OF t4 lay n_def [THEN meta_eq_to_obj_eq] sb_def [THEN meta_eq_to_obj_eq] ok]
  define nb where "nb = unat (bytes_to_blocks (inode_size dir))"
  have slots_eq: "concat (map block_slots (take nb (drop 0 (direct_pointers dir)))) = dir_slots dir"
    by (simp add: dir_slots_blocks nb_def)
  have dir: "length (direct_pointers dir) = 7" "nb \<le> 7" "list_all block_ok (take nb (direct_pointers dir))"
    using ok by (simp_all add: dir_ok_def nb_def)
  have free4: "find (\<lambda>c. disk32 (disk_of d0 s4) c = 0) (dir_slots dir) = Some c"
    using free by (subst find_cong [OF refl, of _ _ "\<lambda>c. disk32 (disk_of d0 s) c = 0"]) (simp_all add: same4(1))
  obtain s6 where 6: "link_loop nb dev 0 dir s4 = Some s6"
    "disk_of d0 s6 = put_disk c 64 (\<lambda>k. named_entry n name ! k) (disk_of d0 s4)"
    "touches d0 dev {c..<c + 64} (span (block_buffer s) 4096) s4 s6"
    using link_loop_links [OF g4(1), of "named_entry n name" 0 nb dir c, unfolded slots_eq] entry4 bufs dir same4(2) free4
    by (auto simp: g4 create_buffers_def list_all_iff)
  note t6 = touches_trans [OF t4 6(3)]
  have g6: "disk_ready d0 dev s6" "sector_buffer s6 = sector_buffer s" "same_place sb (superblock s6)"
    using t6 by (simp_all add: touches_def same_globals_def sb_def)
  have dir2: "i_number dir2 = i_number dir" "i_number (new_inode sb) = n" by (simp_all add: dir2_def new_inode_def n_def)
  obtain s7 where 7: "update_inode dev dir2 s6 = Some s7" "touches d0 dev {?pd..<?pd + 64} (span (sector_buffer s) 512) s6 s7"
    using update_inode_touches [OF g6(1), of dir2] lay same_place_fields [OF g6(3)] dir(1) g6(2)
    by (auto simp: create_layout_def dir2_def)
  have run: "create_file dev path s =
      (let s8 = (if i_number (current_dir_inode s7) = i_number dir2 then s7\<lparr>current_dir_inode := dir2\<rparr> else s7);
           s9 = (if i_number (root_inode s8) = i_number dir2 then s8\<lparr>root_inode := dir2\<rparr> else s8)
       in map_option (\<lambda>s10. (new_inode sb, s10)) (update_superblock dev s9))"
    using run4 6(1) 7(1) lay
    by (simp add: create_file_def create_layout_def nb_def [symmetric] dir2_def [symmetric] dir2 Let_def
        map_conv_bind_option o_def)
  have touched: "touches d0 dev (create_changes sb dir c) (create_writes s name) s s7"
    by (rule touches_mono [OF touches_trans [OF t6 7(2)]]) (auto simp: create_changes_def create_writes_def n_def)
  have c: "?pl + 64 \<le> c" "?pd + 64 \<le> c" using free lay by (auto simp: find_Some_iff create_layout_def n_def)
  have "i_number dir \<noteq> n" using lay by (auto simp: create_layout_def n_def)
  then have "?pd + 64 \<le> ?pl \<or> ?pl + 64 \<le> ?pd" by (rule inode_places_apart)
  then have "disk_of d0 s7 (?pl + k) = inode_bytes (new_inode sb) ! k" if "k < 64" for k
    using 6(3) 7(2) c(1) inode4 that by (auto simp: touches_def)
  moreover have "disk_of d0 s7 (c + k) = named_entry n name ! k" if "k < 64" for k
    using 7(2) c(2) that by (simp add: touches_def 6(2) put_list_disk)
  ultimately show ?thesis using run touched by blast
qed

lemma inode_on_bytes:
  assumes "\<And>k. k < 64 \<Longrightarrow> p (c + k) = inode_bytes i ! k" and "length (direct_pointers i) = 7"
  shows "inode_on p c = i"
proof -
  have "put_disk c 64 (\<lambda>k. inode_bytes i ! k) p = p"
  proof
    fix x
    show "put_disk c 64 (\<lambda>k. inode_bytes i ! k) p x = p x"
      using assms(1) [of "x - c"] by (auto simp: put_disk_def)
  qed
  then show ?thesis using inode_on_put [OF assms(2), of c p] by simp
qed

lemma cstr_no_zero: "cstr_at m p str \<Longrightarrow> 0 \<notin> set str"
  by (induction str arbitrary: p) auto

lemma entry_slot_dvd: "d \<in> set (dir_slots dir) \<Longrightarrow> 64 dvd d"
  by (auto simp: dir_slots_def simp del: upt_rec_numeral)

lemma slots_apart:
  assumes "d \<in> set (dir_slots dir)" and "c \<in> set (dir_slots dir)" and "d \<noteq> c" and "k < 64"
  shows "d + k \<notin> {c..<c + 64}"
proof -
  obtain a b where "d = 64 * a" "c = 64 * b" using entry_slot_dvd [OF assms(1)] entry_slot_dvd [OF assms(2)] by (auto elim!: dvdE)
  then show ?thesis using assms(3,4) by auto
qed

text \<open>What the new slot means for the directory, on any disk that has it.\<close>

lemma created_slot_found:
  assumes lay: "create_layout sb dir" and ok: "dir_ok p sb dir" and absent: "find (slot_has p name) (dir_slots dir) = None"
    and c: "c \<in> set (dir_slots dir)" and name: "length name < 60" "0 \<notin> set name"
    and kept: "\<And>x. x \<notin> create_changes sb dir c \<Longrightarrow> p' x = p x"
    and entry: "\<And>k. k < 64 \<Longrightarrow> p' (c + k) = named_entry (first_free_inode_bit sb) name ! k"
    and inode: "\<And>k. k < 64 \<Longrightarrow> p' (inode_place sb (first_free_inode_bit sb) + k) = inode_bytes (new_inode sb) ! k"
    and same: "same_place sb sb'"
  defines "dir2 \<equiv> dir\<lparr>inode_size := inode_size dir + 64\<rparr>"
  shows "dir_ok p' sb' dir2" and "lookup p' sb' dir2 name = new_inode sb"
proof -
  have other: "p' (d + k) = p (d + k)" if d: "d \<in> set (dir_slots dir)" "d \<noteq> c" "k < 64" for d k
  proof (rule kept)
    have "inode_place sb (first_free_inode_bit sb) + 64 \<le> d" "inode_place sb (i_number dir) + 64 \<le> d"
      using lay d(1) by (simp_all add: create_layout_def)
    then show "d + k \<notin> create_changes sb dir c"
      using slots_apart [OF d(1) c d(2,3)] bitmap_below [OF lay, of "d + k" "first_free_inode_bit sb"]
      by (auto simp: create_changes_def)
  qed
  have slots: "dir_slots dir2 = dir_slots dir" using lay by (simp add: dir_slots_def dir2_def create_layout_def)
  have n: "first_free_inode_bit sb \<noteq> 0" "inode_ok sb (first_free_inode_bit sb)" using lay by (simp_all add: create_layout_def)
  have "dir_ok p' sb dir" by (rule dir_ok_linked [OF ok entry other n(2) name])
  moreover have "slot_ok p' sb' = slot_ok p' sb" by (simp add: slot_ok_def fun_eq_iff same_place_fields(11) [OF same])
  ultimately show "dir_ok p' sb' dir2"
    using lay slots by (simp add: dir_ok_def dir2_def create_layout_def)
  have "lookup p' sb' dir2 name = lookup p' sb dir name"
    by (simp add: lookup_def slots same_place_fields(10) [OF same] split: option.split)
  also have "\<dots> = inode_on p' (inode_place sb (first_free_inode_bit sb))"
    by (rule lookup_linked [OF c entry other n(1) name absent])
  also have "\<dots> = new_inode sb" using inode by (intro inode_on_bytes) (simp_all add: new_inode_def)
  finally show "lookup p' sb' dir2 name = new_inode sb" .
qed

text \<open>The second half: the globals and the superblock.\<close>

lemma create_file_result:
  fixes s :: "'a fs_scheme"
  defines "sb \<equiv> superblock s" and "dir \<equiv> current_dir_inode s"
  assumes ready: "disk_ready d0 dev s" and bufs: "create_buffers s path name" and lay: "create_layout sb dir"
    and ok: "dir_ok (disk_of d0 s) sb dir" and free: "find (\<lambda>c. disk32 (disk_of d0 s) c = 0) (dir_slots dir) = Some c"
  shows "\<exists>s'. create_file dev path s = Some (new_inode sb, s') \<and> disk_ready d0 dev s' \<and>
    current_dir_inode s' = dir\<lparr>inode_size := inode_size dir + 64\<rparr> \<and> same_place sb (superblock s') \<and>
    block_buffer s' = block_buffer s \<and> sector_buffer s' = sector_buffer s \<and>
    (\<forall>x. x \<notin> create_writes s name \<longrightarrow> cmem s' x = cmem s x) \<and>
    (\<forall>x. x \<notin> create_changes sb dir c \<longrightarrow> disk_of d0 s' x = disk_of d0 s x) \<and>
    (\<forall>k < 64. disk_of d0 s' (c + k) = named_entry (first_free_inode_bit sb) name ! k) \<and>
    (\<forall>k < 64. disk_of d0 s' (inode_place sb (first_free_inode_bit sb) + k) = inode_bytes (new_inode sb) ! k)"
proof -
  define dir2 where "dir2 = dir\<lparr>inode_size := inode_size dir + 64\<rparr>"
  obtain s7 where run: "create_file dev path s =
      (let s8 = (if i_number (current_dir_inode s7) = i_number dir2 then s7\<lparr>current_dir_inode := dir2\<rparr> else s7);
           s9 = (if i_number (root_inode s8) = i_number dir2 then s8\<lparr>root_inode := dir2\<rparr> else s8)
       in map_option (\<lambda>s10. (new_inode sb, s10)) (update_superblock dev s9))"
    and t7: "touches d0 dev (create_changes sb dir c) (create_writes s name) s s7"
    and bytes7: "\<forall>k < 64. disk_of d0 s7 (c + k) = named_entry (first_free_inode_bit sb) name ! k"
      "\<forall>k < 64. disk_of d0 s7 (inode_place sb (first_free_inode_bit sb) + k) = inode_bytes (new_inode sb) ! k"
    using create_file_steps [OF ready bufs, folded sb_def dir_def, OF lay ok free, folded dir2_def] by blast
  let ?s8 = "s7\<lparr>current_dir_inode := dir2\<rparr>"
  let ?s9 = "if i_number (root_inode ?s8) = i_number dir2 then ?s8\<lparr>root_inode := dir2\<rparr> else ?s8"
  have g7: "current_dir_inode s7 = dir" "disk_ready d0 dev s7" "same_place sb (superblock s7)" "block_buffer s7 = block_buffer s"
    "sector_buffer s7 = sector_buffer s"
    using t7 by (simp_all add: touches_def same_globals_def sb_def dir_def)
  have ready9: "disk_ready d0 dev ?s9" and pad: "length (sb_padding (superblock ?s9)) = 52"
    using g7(2) lay by (simp_all add: disk_ready_def disk_of_def same_place_fields(9) [OF g7(3)] create_layout_def)
  obtain s' where 10: "update_superblock dev ?s9 = Some s'" "touches d0 dev {4096..<4608} (span SUPERBLOCK_ADDRESS 128) ?s9 s'"
    "superblock s' = superblock s7"
    using update_superblock_touches [OF ready9 pad] by auto
  have g': "disk_ready d0 dev s'" "current_dir_inode s' = dir2" "block_buffer s' = block_buffer s" "sector_buffer s' = sector_buffer s"
    using 10(2) g7(4,5) by (auto simp: touches_def same_globals_def)
  have disk: "disk_of d0 s' x = disk_of d0 s7 x" if "x \<notin> {4096..<4608}" for x
    using 10(2) that by (auto simp: touches_def disk_of_def)
  then have high: "disk_of d0 s' x = disk_of d0 s7 x" if "inode_place sb (first_free_inode_bit sb) \<le> x" for x
    using bitmap_below [OF lay, of x "first_free_inode_bit sb"] that by auto
  have "inode_place sb (first_free_inode_bit sb) + 64 \<le> c" using free lay by (auto simp: find_Some_iff create_layout_def)
  then have "disk_of d0 s' (c + k) = named_entry (first_free_inode_bit sb) name ! k"
    "disk_of d0 s' (inode_place sb (first_free_inode_bit sb) + k) = inode_bytes (new_inode sb) ! k" if "k < 64" for k
    using bytes7 that by (simp_all add: high)
  moreover have "cmem s' x = cmem s x" if "x \<notin> create_writes s name" for x
    using 10(2) t7 that by (auto simp: touches_def create_writes_def)
  moreover have "disk_of d0 s' x = disk_of d0 s x" if "x \<notin> create_changes sb dir c" for x
    using disk [of x] t7 that by (auto simp: touches_def create_changes_def)
  moreover have "i_number dir2 = i_number dir" by (simp add: dir2_def)
  then have "create_file dev path s = Some (new_inode sb, s')" using run 10(1) g7(1) by (simp add: Let_def)
  ultimately show ?thesis using g' g7(3) 10(3) unfolding dir2_def by auto
qed

text \<open>
  C25. Creating a file in the current directory, when the directory has a free slot and no entry
  of that name: \<open>create_file\<close> returns, with the inode that has the number of the first free inode;
  the current directory has grown by one entry, and looking up the name in it gives the new inode
  as it is on the disk. Of the disk only the superblock's sector, the two bitmap blocks, the
  directory's and the new inode and the slot have changed.
\<close>

theorem create_file_found:
  fixes s :: "'a fs_scheme"
  defines "sb \<equiv> superblock s" and "dir \<equiv> current_dir_inode s"
  assumes ready: "disk_ready d0 dev s" and bufs: "create_buffers s path name" and lay: "create_layout sb dir"
    and ok: "dir_ok (disk_of d0 s) sb dir" and absent: "find (slot_has (disk_of d0 s) name) (dir_slots dir) = None"
    and free: "find (\<lambda>c. disk32 (disk_of d0 s) c = 0) (dir_slots dir) = Some c"
  shows "\<exists>s' s''. create_file dev path s = Some (new_inode sb, s') \<and> i_number (new_inode sb) = first_free_inode_bit sb \<and>
    current_dir_inode s' = dir\<lparr>inode_size := inode_size dir + 64\<rparr> \<and>
    get_inode_in_dir dev (current_dir_inode s') path s' = Some (new_inode sb, s'') \<and>
    (\<forall>x. x \<notin> create_changes sb dir c \<longrightarrow> disk_of d0 s' x = disk_of d0 s x)"
proof -
  obtain s' where s': "create_file dev path s = Some (new_inode sb, s')" "disk_ready d0 dev s'"
    "current_dir_inode s' = dir\<lparr>inode_size := inode_size dir + 64\<rparr>" "same_place sb (superblock s')"
    "block_buffer s' = block_buffer s" "sector_buffer s' = sector_buffer s"
    and mem: "\<And>x. x \<notin> create_writes s name \<Longrightarrow> cmem s' x = cmem s x"
    and kept: "\<And>x. x \<notin> create_changes sb dir c \<Longrightarrow> disk_of d0 s' x = disk_of d0 s x"
    and bytes: "\<And>k. k < 64 \<Longrightarrow> disk_of d0 s' (c + k) = named_entry (first_free_inode_bit sb) name ! k"
      "\<And>k. k < 64 \<Longrightarrow> disk_of d0 s' (inode_place sb (first_free_inode_bit sb) + k) = inode_bytes (new_inode sb) ! k"
    using create_file_result [OF ready bufs, folded sb_def dir_def, OF lay ok free] by blast
  have c: "c \<in> set (dir_slots dir)" using free by (auto simp: find_Some_iff)
  have name: "length name < 60" "0 \<notin> set name" "cstr_at (cmem s) path name"
    using bufs cstr_no_zero by (auto simp: create_buffers_def)
  note found = created_slot_found [OF lay ok absent c name(1,2) kept bytes s'(4)]
  have path: "path + of_nat i \<notin> create_writes s name" if "i \<le> length name" for i
    using bufs that by (simp add: create_buffers_def)
  have "cstr_at (cmem s') path name \<longleftrightarrow> cstr_at (cmem s) path name" using path mem by (intro cstr_at_cong) simp
  moreover have "outside s' (path + of_nat i)" if "i \<le> length name" for i
    using path [OF that] by (auto simp: outside_def s' create_writes_def span_def)
  moreover have "buffers_apart s'" using bufs by (simp add: create_buffers_def buffers_apart_def s')
  ultimately obtain s'' where "get_inode_in_dir dev (current_dir_inode s') path s' = Some (new_inode sb, s'')"
    using get_inode_in_dir_lookup [OF s'(2), of path name "current_dir_inode s'"] found name(3) by (auto simp: s'(3))
  then show ?thesis using s'(1,3) kept by (auto simp: new_inode_def)
qed

text \<open>The file \<^verbatim>\<open>b\<close> on the small disk, with its name at 0x1000.\<close>

definition example_create_fs :: fs where
  "example_create_fs = example_fs\<lparr>cmem := (\<lambda>_. 0)(0x1000 := 98),
     superblock := (superblock example_fs)\<lparr>first_free_inode_bit := 3, first_free_data_bit := 11\<rparr>\<rparr>"

lemma example_create_simps:
  "cmem example_create_fs = (\<lambda>_. 0)(0x1000 := 98)" "current_dir_inode example_create_fs = example_root"
  "superblock example_create_fs = zero_superblock\<lparr>first_inode_block := 2, first_inode_bitmap := 1, first_free_inode_bit := 3,
     first_free_data_bit := 11\<rparr>"
  "block_buffer example_create_fs = 0x20000" "sector_buffer example_create_fs = 0x30000" "path_copy example_create_fs = 0x41000"
  "entry_local example_create_fs = 0x42000" "disk_of d0 example_create_fs = disk_of d0 example_fs"
  "disk_ready d0 dev example_create_fs = disk_ready d0 dev example_fs"
  by (simp_all add: example_create_fs_def example_fs_def disk_of_def disk_ready_def)

lemma example_create_buffers: "create_buffers example_create_fs 0x1000 [98]"
proof -
  have "buffers_apart example_create_fs"
    using example_path_buffers by (simp add: path_buffers_def buffers_apart_def example_create_simps example_fs_def)
  moreover have "0x1000 + of_nat i \<notin> create_writes example_create_fs [98]" if "i \<le> length [98 :: u8]" for i
  proof -
    have "i = 0 \<or> i = 1" using that by auto
    then show ?thesis by (auto simp: create_writes_def span_def example_create_simps SUPERBLOCK_ADDRESS_def)
  qed
  moreover have "entry_local example_create_fs + of_nat k \<notin> span (block_buffer example_create_fs) 4096" if "k < 64" for k
  proof -
    have e: "entry_local example_create_fs + of_nat k - block_buffer example_create_fs = 0x22000 + of_nat k"
      by (simp add: example_create_simps)
    have "unat (0x22000 + of_nat k :: u32) = 0x22000 + k" using that by (simp add: unat_add_no_wrap)
    then show ?thesis by (simp add: span_def e)
  qed
  ultimately show ?thesis by (simp add: create_buffers_def example_create_simps)
qed

lemma example_create_layout: "create_layout (superblock example_create_fs) example_root"
proof -
  have "16448 \<le> c" if "c \<in> set (dir_slots example_root)" for c
    using that by (auto simp: example_slots simp del: upt_rec_numeral)
  then have "\<forall>c \<in> set (dir_slots example_root). 8448 \<le> c \<and> 8320 \<le> c" by fastforce
  then show ?thesis
    by (simp add: create_layout_def example_create_simps inode_bit_block_def data_bit_block_def new_block_def block_ok_def
        zero_superblock_def inode_ok_def inode_place_def example_root_def bytes_to_blocks_def fs_constants)
qed

theorem create_file_found_witness:
  "\<exists>v s' s''. create_file (example_ata example_disk_drive) 0x1000 example_create_fs = Some (v, s') \<and> i_number v = 3 \<and>
     get_inode_in_dir (example_ata example_disk_drive) (current_dir_inode s') 0x1000 s' = Some (v, s'')"
proof -
  let ?d = "example_disk_drive" and ?s = example_create_fs
  have disk: "disk_of ?d ?s = example_disk" by (simp add: example_create_simps example_fs_disk)
  have ready: "disk_ready ?d (example_ata ?d) ?s" using example_fs_ready by (simp add: example_create_simps)
  have ok: "dir_ok (disk_of ?d ?s) (superblock ?s) (current_dir_inode ?s)"
  proof -
    have "slot_ok example_disk (superblock ?s) = slot_ok example_disk (superblock example_fs)"
      by (simp add: slot_ok_def inode_ok_def inode_place_def example_create_simps example_fs_def fun_eq_iff)
    then show ?thesis using example_dir_ok by (simp add: dir_ok_def example_fs_disk example_create_simps)
  qed
  have absent: "find (slot_has (disk_of ?d ?s) [98]) (dir_slots (current_dir_inode ?s)) = None"
  proof -
    have "\<not> slot_has example_disk [98] 40960" by (simp add: slot_has_def example_name)
    moreover have "find (slot_has example_disk [98]) (map (\<lambda>j. 40960 + 64 * j) [1..<64]) = None"
      by (rule find_none_map) (simp add: slot_has_def example_slot_numbers(2))
    ultimately show ?thesis unfolding disk by (simp add: example_create_simps example_slots del: upt_rec_numeral)
  qed
  have "find (\<lambda>c. disk32 example_disk c = 0) (map (\<lambda>j. 40960 + 64 * j) [1..<64]) = Some 41024"
  proof -
    have "[1..<64] = (1 :: nat) # [2..<64]" by (simp add: upt_rec)
    then show ?thesis using example_slot_numbers(2) [of 1] by (simp del: upt_rec_numeral)
  qed
  then have free: "find (\<lambda>c. disk32 (disk_of ?d ?s) c = 0) (dir_slots (current_dir_inode ?s)) = Some 41024"
    using example_slot_numbers(1) unfolding disk by (simp add: example_create_simps example_slots)
  have lay: "create_layout (superblock ?s) (current_dir_inode ?s)" using example_create_layout by (simp add: example_create_simps)
  have "first_free_inode_bit (superblock ?s) = 3" by (simp add: example_create_simps)
  then show ?thesis using create_file_found [OF ready example_create_buffers lay ok absent free] by auto
qed

end
