(* ===== verification/Syscalls.thy ===== *)
theory Syscalls
  imports FsPath FsFiles Malloc
begin

text \<open>
  The system calls of \<^verbatim>\<open>kernel/interrupts/syscalls.c\<close> and their wrappers in
  \<^verbatim>\<open>unistd.c\<close> and \<^verbatim>\<open>stdlib.c\<close>. The kernel's state joins the console, keyboard and
  file system with the memory managers and the heap, over one memory. The registers that a
  call reads with inline assembly are arguments, \<^verbatim>\<open>EAX\<close> on return is the result.

  The open file and inode tables are arrays in memory, reached by pointer arithmetic as in the
  code, so that an index that leaves them reads and writes what lies behind.
\<close>

section \<open>State\<close>

record kernel = fs +
  kheap :: heap
  open_file_table :: u32
  open_inode_table :: u32
  current_open_files :: u32
  current_open_inodes :: u32
  file_virtual_address :: u32
  user_stack :: u32

text \<open>An operation of the memory managers or the heap runs on the kernel's memory.\<close>

definition with_heap :: "(heap \<Rightarrow> ('r \<times> heap) option) \<Rightarrow> 'a kernel_scheme \<Rightarrow> ('r \<times> 'a kernel_scheme) option" where
  "with_heap f s =
     map_option (\<lambda>(r, h). (r, s\<lparr>kheap := h, cmem := mem h\<rparr>)) (f ((kheap s)\<lparr>mem := cmem s\<rparr>))"

section \<open>Flags and table entries\<close>

definition O_CREAT :: u32 where "O_CREAT = 0"
definition O_RDONLY :: u32 where "O_RDONLY = 1"
definition O_WRONLY :: u32 where "O_WRONLY = 2"
definition O_RDWR :: u32 where "O_RDWR = 3"
definition O_APPEND :: u32 where "O_APPEND = 4"

lemmas open_flags = O_CREAT_def O_RDONLY_def O_WRONLY_def O_RDWR_def O_APPEND_def

text \<open>
  \<^verbatim>\<open>open_file_t\<close>: 15 packed bytes, and the two entries \<^verbatim>\<open>open_file_table[fd]\<close> and
  \<^verbatim>\<open>open_inode_table[i]\<close>.
\<close>

definition OPEN_FILE_SIZE :: u32 where "OPEN_FILE_SIZE = 15"

definition of_inode_index :: "memory \<Rightarrow> u32 \<Rightarrow> u8" where "of_inode_index m f = m f"
definition of_lseek :: "memory \<Rightarrow> u32 \<Rightarrow> u32" where "of_lseek m f = load32 m (f + 1)"
definition of_address :: "memory \<Rightarrow> u32 \<Rightarrow> u32" where "of_address m f = load32 m (f + 5)"
definition of_max_count :: "memory \<Rightarrow> u32 \<Rightarrow> u8" where "of_max_count m f = m (f + 9)"
definition of_flags :: "memory \<Rightarrow> u32 \<Rightarrow> u32" where "of_flags m f = load32 m (f + 10)"
definition of_pages :: "memory \<Rightarrow> u32 \<Rightarrow> u8" where "of_pages m f = m (f + 14)"

definition file_entry :: "'a kernel_scheme \<Rightarrow> u32 \<Rightarrow> u32" where
  "file_entry s fd = open_file_table s + OPEN_FILE_SIZE * fd"

definition inode_entry :: "'a kernel_scheme \<Rightarrow> u8 \<Rightarrow> u32" where
  "inode_entry s i = open_inode_table s + 64 * ucast i"

text \<open>\<^verbatim>\<open>max_count\<close> and \<^verbatim>\<open>size\<close> of the inode at a pointer.\<close>

definition in_number :: "memory \<Rightarrow> u32 \<Rightarrow> u32" where "in_number m t = load32 m t"
definition in_size :: "memory \<Rightarrow> u32 \<Rightarrow> u32" where "in_size m t = load32 m (t + 5)"

section \<open>Opening\<close>

text \<open>The two searches of the inode table: 256 steps at most, ending on the entry behind it.\<close>

fun find_inode :: "nat \<Rightarrow> u32 \<Rightarrow> u32 \<Rightarrow> u32 \<Rightarrow> memory \<Rightarrow> u32 \<times> u32" where
  "find_inode 0 n index temp m = (index, temp)"
| "find_inode (Suc k) n index temp m =
     (if in_number m temp \<noteq> n then find_inode k n (index + 1) (temp + 64) m else (index, temp))"

text \<open>The search of the file table tests an index that it does not advance.\<close>

partial_function (option) find_file :: "u32 \<Rightarrow> u32 \<Rightarrow> memory \<Rightarrow> u32 option" where
  "find_file index f m =
     (if index < 256 \<and> of_address m f \<noteq> 0 \<and> of_max_count m f \<noteq> 0 then find_file index (f + OPEN_FILE_SIZE) m
      else Some f)"

text \<open>Fresh pages for a file at \<open>f\<close>, mapped from \<^verbatim>\<open>file_virtual_address\<close> on.\<close>

primrec map_file_pages :: "nat \<Rightarrow> u32 \<Rightarrow> 'a kernel_scheme \<Rightarrow> 'a kernel_scheme option" where
  "map_file_pages 0 f s = Some s"
| "map_file_pages (Suc k) f s = do {
     (phys, s1) \<leftarrow> with_heap (allocate_blocks 1) s;
     (r, s2) \<leftarrow> with_heap (\<lambda>h. map_address (directory h) phys (file_virtual_address s1)
                (PTE_PRESENT OR PTE_WRITABLE OR PTE_USER) h) s1;
     let s3 = s2\<lparr>file_virtual_address := file_virtual_address s2 + PAGE_SIZE\<rparr>;
     map_file_pages k f (s3\<lparr>cmem := (cmem s3)(f + 14 := of_pages (cmem s3) f + 1)\<rparr>)
   }"

text \<open>
  Entering the inode; the result is the index and the pointer \<^verbatim>\<open>temp\<close>, which the code goes
  on to use as if it still pointed to the table.
\<close>

definition enter_inode :: "inode \<Rightarrow> 'a kernel_scheme \<Rightarrow> u32 \<times> u32 \<times> 'a kernel_scheme" where
  "enter_inode i s =
     (let (index, temp) = find_inode 256 (i_number i) 0 (open_inode_table s) (cmem s)
      in if i_number i = in_number (cmem s) temp then
           (index, temp, s\<lparr>cmem := (cmem s)(temp + 62 := cmem s (temp + 62) + 1)\<rparr>)
         else
           let (index, temp) = find_inode 256 0 0 (open_inode_table s) (cmem s);
               s1 = s\<lparr>cmem := store_inode i temp (cmem s)\<rparr>
           in (index, temp, s1\<lparr>current_open_inodes := current_open_inodes s1 + 1\<rparr>))"

definition fill_file_entry :: "u32 \<Rightarrow> u32 \<Rightarrow> u32 \<Rightarrow> memory \<Rightarrow> memory" where
  "fill_file_entry f index flags m =
     (let m1 = memset m f 0 OPEN_FILE_SIZE;
          m2 = m1(f := ucast index);
          m3 = store32 m2 (f + 1) 0;
          m4 = store32 m3 (f + 5) 0;
          m5 = m4(f + 9 := 1)
      in store32 m5 (f + 10) flags)"

definition open_inode :: "device \<Rightarrow> u32 \<Rightarrow> u32 \<Rightarrow> inode \<Rightarrow> 'a kernel_scheme \<Rightarrow> (u32 \<times> 'a kernel_scheme) option" where
  "open_inode dev offset flags i s = do {
     let (index, temp, s1) = enter_inode i s;
     f \<leftarrow> find_file index (open_file_table s1) (cmem s1);
     let s2 = s1\<lparr>cmem := fill_file_entry f index flags (cmem s1)\<rparr>;
     let s3 = s2\<lparr>current_open_files := current_open_files s2 + 1\<rparr>;
     let s4 = s3\<lparr>cmem := store32 (cmem s3) (f + 5) (file_virtual_address s3)\<rparr>;
     let node = temp + 64 * ucast (of_inode_index (cmem s4) f);
     let blocks = bytes_to_blocks (in_size (cmem s4) node);
     s5 \<leftarrow> map_file_pages (unat (if blocks = 0 then 1 else blocks)) f s4;
     (r, s6) \<leftarrow> load_file dev offset (temp + 64 * ucast (of_inode_index (cmem s5) f)) (of_address (cmem s5) f) s5;
     Some (if r then index else minus_one, s6)
   }"

definition sys_open :: "device \<Rightarrow> u32 \<Rightarrow> u32 \<Rightarrow> u32 \<Rightarrow> 'a kernel_scheme \<Rightarrow> (u32 \<times> 'a kernel_scheme) option" where
  "sys_open dev offset path flags s = do {
     s1 \<leftarrow> kprintf (bytes ''SYSOPEN!'' @ [10]) (stack_words []) s;
     (i, s2) \<leftarrow> get_inode dev path s1;
     if i_number i = 0 then
       if flags AND O_CREAT = 0 then Some (minus_one, s2)
       else do {
         (i', s3) \<leftarrow> create_file dev path s2;
         if i_number i' = 0 then Some (minus_one, s3) else open_inode dev offset flags i' s3
       }
     else open_inode dev offset flags i s2
   }"

section \<open>Closing\<close>

text \<open>\<^verbatim>\<open>while(size-- > 0)\<close>: every page is freed through its entry and unmapped.\<close>

primrec unmap_file_pages :: "nat \<Rightarrow> u32 \<Rightarrow> 'a kernel_scheme \<Rightarrow> 'a kernel_scheme option" where
  "unmap_file_pages 0 address s = Some s"
| "unmap_file_pages (Suc k) address s = do {
     (u, s1) \<leftarrow> with_heap (\<lambda>h. Some ((), unmap_page address (free_page (get_page address h) h))) s;
     unmap_file_pages k (address + PAGE_SIZE) s1
   }"

definition sys_close :: "u32 \<Rightarrow> 'a kernel_scheme \<Rightarrow> (u32 \<times> 'a kernel_scheme) option" where
  "sys_close fd s =
     (if fd <s 0 then Some (minus_one, s)
      else
        let f = file_entry s fd; node = inode_entry s (of_inode_index (cmem s) f)
        in if in_number (cmem s) node = 0 \<or> of_max_count (cmem s) f = 0 then Some (minus_one, s)
           else
             let s1 = s\<lparr>cmem := (cmem s)(f + 9 := of_max_count (cmem s) f - 1)\<rparr>;
                 node1 = inode_entry s1 (of_inode_index (cmem s1) f);
                 s2 = s1\<lparr>cmem := (cmem s1)(node1 + 62 := cmem s1 (node1 + 62) - 1)\<rparr>
             in if of_max_count (cmem s2) f = 0 then do {
                  let node2 = inode_entry s2 (of_inode_index (cmem s2) f);
                  let blocks = bytes_to_blocks (in_size (cmem s2) node2);
                  s3 \<leftarrow> unmap_file_pages (unat (if blocks = 0 then 1 else blocks)) (of_address (cmem s2) f) s2;
                  let node3 = inode_entry s3 (of_inode_index (cmem s3) f);
                  let s4 = s3\<lparr>cmem := memset (cmem s3) node3 0 64\<rparr>;
                  Some (0, s4\<lparr>cmem := memset (cmem s4) f 0 OPEN_FILE_SIZE\<rparr>)
                }
                else Some (0, s2))"

section \<open>Writing and reading\<close>

text \<open>
  \<^verbatim>\<open>address\<close> is a \<^verbatim>\<open>uint32_t*\<close>, so adding an offset to it advances by four bytes for
  each. An entry's fields are read again at every use, as in the code.
\<close>

definition grow_file :: "u32 \<Rightarrow> u32 \<Rightarrow> 'a kernel_scheme \<Rightarrow> 'a kernel_scheme option" where
  "grow_file f len s =
     (let node = inode_entry s (of_inode_index (cmem s) f)
      in if ucast (of_pages (cmem s) f) * PAGE_SIZE < of_lseek (cmem s) f + len then do {
           let n = of_lseek (cmem s) f + len - in_size (cmem s) node;
           let blocks = bytes_to_blocks n;
           s1 \<leftarrow> map_file_pages (unat (if blocks = 0 then blocks + 1 else blocks)) f s;
           let node1 = inode_entry s1 (of_inode_index (cmem s1) f);
           Some (s1\<lparr>cmem := memset (cmem s1) (of_address (cmem s1) f + 4 * in_size (cmem s1) node1) 0 n\<rparr>)
         }
         else Some s)"

definition sys_write ::
    "device \<Rightarrow> u32 \<Rightarrow> u32 \<Rightarrow> u32 \<Rightarrow> u32 \<Rightarrow> 'a kernel_scheme \<Rightarrow> (u32 \<times> 'a kernel_scheme) option" where
  "sys_write dev offset fd buffer len s =
     (if fd <s 0 then Some (fd, s)
      else
        let f = file_entry s fd
        in if \<not> (of_flags (cmem s) f AND O_WRONLY \<noteq> 0 \<or> of_flags (cmem s) f AND O_RDWR \<noteq> 0) then Some (minus_one, s)
           else do {
             let s1 = (if of_flags (cmem s) f AND O_APPEND \<noteq> 0 then
                         s\<lparr>cmem := store32 (cmem s) (f + 1) (in_size (cmem s) (inode_entry s (of_inode_index (cmem s) f)))\<rparr>
                       else s);
             s2 \<leftarrow> grow_file f len s1;
             let s3 = s2\<lparr>cmem := memcpy (cmem s2) (of_address (cmem s2) f + 4 * of_lseek (cmem s2) f) buffer len\<rparr>;
             let s4 = s3\<lparr>cmem := store32 (cmem s3) (f + 1) (of_lseek (cmem s3) f + len)\<rparr>;
             let node = inode_entry s4 (of_inode_index (cmem s4) f);
             let s5 = (if in_size (cmem s4) node < of_lseek (cmem s4) f
                       then s4\<lparr>cmem := store32 (cmem s4) (node + 5) (of_lseek (cmem s4) f)\<rparr> else s4);
             let node = inode_entry s5 (of_inode_index (cmem s5) f);
             s6 \<leftarrow> update_inode dev (load_inode (cmem s5) node) s5;
             (r, s7) \<leftarrow> save_file dev offset (inode_entry s6 (of_inode_index (cmem s6) f)) (of_address (cmem s6) f) s6;
             Some (len, s7)
           })"

definition sys_read :: "u32 \<Rightarrow> u32 \<Rightarrow> u32 \<Rightarrow> 'a kernel_scheme \<Rightarrow> u32 \<times> 'a kernel_scheme" where
  "sys_read fd buffer len s =
     (if fd <s 0 then (fd, s)
      else
        let f = file_entry s fd
        in if of_address (cmem s) f = 0 \<or> of_max_count (cmem s) f = 0 then (minus_one, s)
           else if of_flags (cmem s) f AND O_WRONLY \<noteq> 0 then (minus_one, s)
           else
             let sz = in_size (cmem s) (inode_entry s (of_inode_index (cmem s) f));
                 n = (if sz < of_lseek (cmem s) f + len then sz - of_lseek (cmem s) f else len);
                 s1 = s\<lparr>cmem := memcpy (cmem s) buffer (of_address (cmem s) f + 4 * of_lseek (cmem s) f) n\<rparr>
             in (n, s1\<lparr>cmem := store32 (cmem s1) (f + 1) (of_lseek (cmem s1) f + n)\<rparr>))"

section \<open>The other calls\<close>

definition sys_test1 :: "'a kernel_scheme \<Rightarrow> 'a kernel_scheme option" where
  "sys_test1 s = kprintf (bytes ''HELLO EVERYONE!!!!! I AM HERE!!'' @ [10]) (stack_words []) s"

definition sys_test2 :: "'a kernel_scheme \<Rightarrow> 'a kernel_scheme option" where
  "sys_test2 s = kprintf (bytes ''HELLO USERMODE FROM SEPARATE BIN FILE OUTSIDE OF KERNEL!'' @ [10]) (stack_words []) s"

definition sys_malloc :: "u32 \<Rightarrow> 'a kernel_scheme \<Rightarrow> (u32 \<times> 'a kernel_scheme) option" where
  "sys_malloc n s = do {
     s1 \<leftarrow> kprintf (bytes ''MALLOC!!'' @ [10]) (stack_words []) s;
     if malloc_head (kheap s1) = 0 then do {
       s2 \<leftarrow> kprintf (bytes ''going here'') (stack_words []) s1;
       with_heap malloc_init s2
     }
     else do {
       (ptr, s2) \<leftarrow> with_heap (malloc_next n) s1;
       s3 \<leftarrow> kprintf (bytes ''bytes: %d'' @ [10]) (stack_words [n]) s2;
       s4 \<leftarrow> kprintf (bytes ''pointer location: 0x%x'' @ [10]) (stack_words [ptr]) s3;
       (u, s5) \<leftarrow> with_heap (\<lambda>h. map_option (\<lambda>h'. ((), h')) (merge_free_blocks h)) s4;
       s6 \<leftarrow> kprintf (bytes ''pointer location now: 0x%x'' @ [10]) (stack_words [ptr]) s5;
       Some (ptr, s6)
     }
   }"

definition sys_free :: "u32 \<Rightarrow> 'a kernel_scheme \<Rightarrow> 'a kernel_scheme option" where
  "sys_free ptr s = map_option snd (with_heap (\<lambda>h. map_option (\<lambda>h'. ((), h')) (malloc_free ptr h)) s)"

text \<open>
  \<open>sys_exit\<close> up to the call of the shell; the nested \<open>close\<close> goes through the same table, and
  \<open>ds\<close> is the segment register it prints.
\<close>

definition sys_exit :: "u32 \<Rightarrow> u32 \<Rightarrow> 'a kernel_scheme \<Rightarrow> 'a kernel_scheme option" where
  "sys_exit ds fd s = do {
     s1 \<leftarrow> (if fd <s 0 then Some s
            else map_option (\<lambda>(r, t). t\<lparr>user_stack := user_stack t - PAGE_SIZE\<rparr>) (sys_close fd s));
     kprintf (bytes ''ds after restoring: 0x%x'' @ [10]) (stack_words [ds]) s1
   }"

section \<open>The dispatcher\<close>

text \<open>
  \<open>syscall_handler\<close>: the number in \<^verbatim>\<open>EAX\<close> selects the entry of the table \<^verbatim>\<open>syscalls\<close>; a
  number that is too large gives -1. What the source leaves to the compiler are fields of
  \<open>leftovers\<close>: the uninitialised \<^verbatim>\<open>offset\<close> of the file transfer; the value in \<^verbatim>\<open>EAX\<close> when a call
  without a result returns; and the value in \<^verbatim>\<open>ECX\<close> when \<open>sys_open\<close> takes it for the flags, which
  is after a call of \<^verbatim>\<open>kprintf\<close> that need not preserve it. The flags that the caller put there are lost.
\<close>

record leftovers =
  left_offset :: u32
  left_eax :: u32
  left_ecx :: u32

definition MAX_SYSCALLS :: u32 where "MAX_SYSCALLS = 9"

definition no_result :: "leftovers \<Rightarrow> 'a kernel_scheme option \<Rightarrow> (u32 \<times> 'a kernel_scheme) option" where
  "no_result left = map_option (\<lambda>s. (left_eax left, s))"

definition syscall_handler ::
    "device \<Rightarrow> leftovers \<Rightarrow> u32 \<Rightarrow> u32 \<Rightarrow> u32 \<Rightarrow> u32 \<Rightarrow> u32 \<Rightarrow> 'a kernel_scheme \<Rightarrow> (u32 \<times> 'a kernel_scheme) option" where
  "syscall_handler dev left ds eax ebx ecx edx s =
     (if MAX_SYSCALLS - 1 < eax then Some (minus_one, s)
      else if eax = 0 then no_result left (sys_test1 s)
      else if eax = 1 then no_result left (sys_test2 s)
      else if eax = 2 then sys_malloc ebx s
      else if eax = 3 then no_result left (sys_free ebx s)
      else if eax = 4 then sys_open dev (left_offset left) ebx (left_ecx left) s
      else if eax = 5 then sys_close ebx s
      else if eax = 6 then sys_write dev (left_offset left) ebx ecx edx s
      else if eax = 7 then Some (sys_read ebx ecx edx s)
      else no_result left (sys_exit ds edx s))"

text \<open>The wrappers: \<^verbatim>\<open>int $0x80\<close> with the number and the arguments in registers.\<close>

definition open_call :: "device \<Rightarrow> leftovers \<Rightarrow> u32 \<Rightarrow> u32 \<Rightarrow> u32 \<Rightarrow> 'a kernel_scheme \<Rightarrow> (u32 \<times> 'a kernel_scheme) option" where
  "open_call dev left edx path flags s = syscall_handler dev left 0 4 path flags edx s"

definition close_call :: "device \<Rightarrow> leftovers \<Rightarrow> u32 \<Rightarrow> 'a kernel_scheme \<Rightarrow> (u32 \<times> 'a kernel_scheme) option" where
  "close_call dev left fd s = syscall_handler dev left 0 5 fd 0 0 s"

definition write_call :: "device \<Rightarrow> leftovers \<Rightarrow> u32 \<Rightarrow> u32 \<Rightarrow> u32 \<Rightarrow> 'a kernel_scheme \<Rightarrow> (u32 \<times> 'a kernel_scheme) option" where
  "write_call dev left fd buffer len s = syscall_handler dev left 0 6 fd buffer len s"

definition read_call :: "device \<Rightarrow> leftovers \<Rightarrow> u32 \<Rightarrow> u32 \<Rightarrow> u32 \<Rightarrow> 'a kernel_scheme \<Rightarrow> (u32 \<times> 'a kernel_scheme) option" where
  "read_call dev left fd buffer len s = syscall_handler dev left 0 7 fd buffer len s"

definition malloc_call :: "device \<Rightarrow> leftovers \<Rightarrow> u32 \<Rightarrow> 'a kernel_scheme \<Rightarrow> (u32 \<times> 'a kernel_scheme) option" where
  "malloc_call dev left n s = syscall_handler dev left 0 2 n 0 0 s"

definition free_call :: "device \<Rightarrow> leftovers \<Rightarrow> u32 \<Rightarrow> 'a kernel_scheme \<Rightarrow> (u32 \<times> 'a kernel_scheme) option" where
  "free_call dev left ptr s = syscall_handler dev left 0 3 ptr 0 0 s"

definition testertesting123 :: "device \<Rightarrow> leftovers \<Rightarrow> 'a kernel_scheme \<Rightarrow> (u32 \<times> 'a kernel_scheme) option" where
  "testertesting123 dev left s = syscall_handler dev left 0 1 0 0 0 s"

text \<open>\<^verbatim>\<open>exit\<close> passes the descriptor in \<^verbatim>\<open>EBX\<close>, where \<open>sys_exit\<close> does not look for it.\<close>

definition exit_call :: "device \<Rightarrow> leftovers \<Rightarrow> u32 \<Rightarrow> u32 \<Rightarrow> u32 \<Rightarrow> 'a kernel_scheme \<Rightarrow> (u32 \<times> 'a kernel_scheme) option" where
  "exit_call dev left ds edx fd s = syscall_handler dev left ds 8 fd 0 edx s"

end
