(* ===== verification/OpenFiles.thy ===== *)
theory OpenFiles
  imports Syscalls
begin

text \<open>
  What the system calls on files promise: how an inode enters the table of open inodes, that a
  missing file is not opened, and what a read copies.
\<close>

section \<open>Printing does not disturb the disk\<close>

definition cursor_event :: "io_event \<Rightarrow> bool" where
  "cursor_event e \<longleftrightarrow> (case e of Outb p v \<Rightarrow> p = 0x3D4 \<or> p = 0x3D5 | _ \<Rightarrow> False)"

definition cursor_log :: "'a console_scheme \<Rightarrow> 'a console_scheme \<Rightarrow> bool" where
  "cursor_log s s' \<longleftrightarrow> (\<exists>l. io_log s' = io_log s @ l \<and> list_all cursor_event l)"

lemma cursor_log_same: "io_log s' = io_log s \<Longrightarrow> cursor_log s s'"
  by (simp add: cursor_log_def)

lemma cursor_log_trans: "cursor_log s t \<Longrightarrow> cursor_log t u \<Longrightarrow> cursor_log s u"
  by (auto simp: cursor_log_def)

lemma cursor_log_setcursor: "cursor_log s (setcursor x y s)"
  by (auto simp: cursor_log_def setcursor_def outb_def Let_def cursor_event_def)

lemma io_log_scrollback: "io_log (scrollback l s) = io_log s"
proof -
  have "io_log (fold (\<lambda>y. fold (\<lambda>x. g x y) xs) ys t) = io_log t"
    if "\<And>x y u. io_log (g x y u) = io_log u"
    for g :: "int \<Rightarrow> int \<Rightarrow> 'a console_scheme \<Rightarrow> 'a console_scheme" and xs ys t
  proof -
    have row: "io_log (fold (\<lambda>x. g x y) xs u) = io_log u" for y u
      using that by (induction xs arbitrary: u) simp_all
    show ?thesis by (induction ys arbitrary: t) (simp_all add: row)
  qed
  then show ?thesis by (simp add: scrollback_def Let_def putchar_def putcolor_def)
qed

lemma cursor_log_putc_end: "cursor_log s (putc_end s)"
proof -
  let ?s1 = "if VGA_WIDTH \<le> of_int (g_ScreenX s) then s\<lparr>g_ScreenY := g_ScreenY s + 1, g_ScreenX := 0\<rparr> else s"
  let ?s2 = "if VGA_HEIGHT \<le> of_int (g_ScreenY ?s1) then scrollback 1 ?s1 else ?s1"
  have "io_log ?s2 = io_log s" by (simp add: io_log_scrollback)
  then have "cursor_log s ?s2" by (rule cursor_log_same)
  then show ?thesis unfolding putc_end_def Let_def using cursor_log_setcursor by (rule cursor_log_trans)
qed

lemma cursor_log_putc_char: "cursor_log s (putc_char c s)"
  unfolding putc_char_def Let_def
  by (rule cursor_log_trans [OF cursor_log_same cursor_log_putc_end]) (simp add: putchar_def)

lemma cursor_log_tab: "cursor_log s (tab_loop i s)"
proof (induction i s rule: tab_loop.induct)
  case (1 i s)
  show ?case
  proof (cases "i < 4 - g_ScreenX s mod 4")
    case True
    then show ?thesis
      using 1 cursor_log_trans [OF cursor_log_putc_char] by (simp add: tab_loop.simps [of i s])
  qed (simp add: tab_loop.simps [of i s] cursor_log_same)
qed

lemma cursor_log_putc: "cursor_log s (putc c s)"
  unfolding putc_def using cursor_log_putc_char cursor_log_trans [OF cursor_log_tab cursor_log_putc_end] by auto

lemma cursor_log_puts: "cursor_log s (fold putc cs s)"
proof (induction cs arbitrary: s)
  case (Cons c cs)
  show ?case using cursor_log_trans [OF cursor_log_putc Cons.IH] by simp
qed (simp add: cursor_log_same)

lemma drive_cursor_events: "list_all cursor_event l \<Longrightarrow> fold drive_step l d = d"
  by (induction l) (auto simp: cursor_event_def split: io_event.splits)

lemma drive_cursor_log: "cursor_log s s' \<Longrightarrow> drive_of d0 s' = drive_of d0 s"
  by (auto simp: cursor_log_def drive_run_def drive_cursor_events)

lemma kprintf_literal_loop:
  "37 \<notin> set cs \<Longrightarrow> pf_state f = StateNormal \<Longrightarrow> kprintf_loop cs f s = Some (f, fold putc cs s)"
  by (induction cs arbitrary: s) (auto simp: kprintf_step_def)

lemma kprintf_literal: "37 \<notin> set cs \<Longrightarrow> kprintf cs args s = Some (fold putc cs s)"
  by (simp add: kprintf_def kprintf_literal_loop start_state_def)

text \<open>So printing a message keeps the disk, the drive and everything but the screen.\<close>

lemma print_message:
  assumes "37 \<notin> set cs" and "screen_ok s"
  shows "\<exists>s'. kprintf cs args s = Some s' \<and> screen_ok s' \<and> outside_kept s s' \<and> drive_of d0 s' = drive_of d0 s"
proof (intro exI conjI)
  show "kprintf cs args s = Some (fold putc cs s)" by (rule kprintf_literal [OF assms(1)])
  show "screen_ok (fold putc cs s)" "outside_kept s (fold putc cs s)"
    using printed_fold [OF assms(2)] by (simp_all add: printed_def)
  show "drive_of d0 (fold putc cs s) = drive_of d0 s" by (rule drive_cursor_log [OF cursor_log_puts])
qed

lemma kernel_more:
  fixes s s' :: "'a kernel_scheme"
  assumes "console.more s' = console.more s"
  shows "superblock s' = superblock s" "root_inode s' = root_inode s" "current_dir_inode s' = current_dir_inode s"
    "block_buffer s' = block_buffer s" "sector_buffer s' = sector_buffer s" "str_buffer s' = str_buffer s"
    "kheap s' = kheap s" "open_file_table s' = open_file_table s" "open_inode_table s' = open_inode_table s"
    "current_open_files s' = current_open_files s" "current_open_inodes s' = current_open_inodes s"
    "file_virtual_address s' = file_virtual_address s" "user_stack s' = user_stack s"
  using assms by (cases s; cases s'; simp)+

lemma io_step_more: "io_step s s' \<Longrightarrow> console.more s' = console.more s"
  by (auto simp: io_step_def)

section \<open>The first phase of an open\<close>

text \<open>
  \<open>sys_open\<close> prints, then walks the path. Neither changes the disk or the kernel's globals, and
  memory only on the screen and in the buffers of the file system. What follows depends on the
  inode found; with \<^verbatim>\<open>O_CREAT\<close> being 0 nothing is ever created.
\<close>

definition path_walked :: "drive \<Rightarrow> device \<Rightarrow> 'a kernel_scheme \<Rightarrow> 'a kernel_scheme \<Rightarrow> bool" where
  "path_walked d0 dev s s' \<longleftrightarrow> disk_ready d0 dev s' \<and> disk_of d0 s' = disk_of d0 s \<and> console.more s' = console.more s \<and>
     (\<forall>x. outside_path s x \<and> \<not> in_vga x \<longrightarrow> cmem s' x = cmem s x)"

lemma sys_open_resolves:
  fixes s :: "'a kernel_scheme"
  assumes "screen_ok s" and "disk_ready d0 dev s" and "path_buffers s" and "cstr_at (cmem s) path str"
    and "\<And>i. i \<le> length str \<Longrightarrow> outside_path s (path + of_nat i) \<and> \<not> in_vga (path + of_nat i)"
    and "resolvable (disk_of d0 s) (superblock s) (root_inode s) (current_dir_inode s) str"
    and i: "i = resolve_path (disk_of d0 s) (superblock s) (root_inode s) (current_dir_inode s) str"
  shows "\<exists>s'. path_walked d0 dev s s' \<and> sys_open dev offset path flags s =
    (if i_number i = 0 then Some (minus_one, s') else open_inode dev offset flags i s')"
proof -
  have "37 \<notin> set (bytes ''SYSOPEN!'' @ [10])" by (simp add: bytes_def of_char_def)
  from print_message [OF this assms(1), of "stack_words []" d0] obtain s1
    where s1: "kprintf (bytes ''SYSOPEN!'' @ [10]) (stack_words []) s = Some s1" "outside_kept s s1"
      "drive_of d0 s1 = drive_of d0 s" by blast
  have more1: "console.more s1 = console.more s" using s1(2) by (simp add: outside_kept_def)
  note k1 = kernel_more [OF more1]
  have disk1: "disk_ready d0 dev s1" "disk_of d0 s1 = disk_of d0 s"
    using assms(2) s1(3) by (simp_all add: disk_ready_def disk_of_def)
  have mem1: "cmem s1 x = cmem s x" if "\<not> in_vga x" for x using s1(2) that by (simp add: outside_kept_def)
  have out1: "outside_path s1 x \<longleftrightarrow> outside_path s x" for x by (simp add: outside_path_def outside_def k1)
  have buf1: "path_buffers s1" using assms(3) by (simp add: path_buffers_def buffers_apart_def outside_def k1)
  have "cstr_at (cmem s1) path str \<longleftrightarrow> cstr_at (cmem s) path str"
    using assms(5) mem1 by (intro cstr_at_cong) simp
  then have "\<exists>s'. get_inode dev path s1 =
      Some (resolve_path (disk_of d0 s1) (superblock s1) (root_inode s1) (current_dir_inode s1) str, s') \<and> path_step d0 dev s1 s'"
    using assms(4-6) by (intro get_inode_path [OF disk1(1) buf1]) (simp_all add: out1 k1 disk1(2))
  then obtain s2 where s2: "get_inode dev path s1 =
      Some (resolve_path (disk_of d0 s) (superblock s) (root_inode s) (current_dir_inode s) str, s2)" "path_step d0 dev s1 s2"
    by (auto simp: k1 disk1(2))
  have step2: "io_step s1 s2" "disk_of d0 s2 = disk_of d0 s1" "\<forall>x. outside_path s1 x \<longrightarrow> cmem s2 x = cmem s1 x"
    using s2(2) by (simp_all add: path_step_def)
  have "sys_open dev offset path flags s = (if i_number i = 0 then Some (minus_one, s2) else open_inode dev offset flags i s2)"
    using s1(1) s2(1) by (simp add: sys_open_def O_CREAT_def i)
  moreover have "disk_ready d0 dev s2" "console.more s2 = console.more s"
    using s2(2) more1 io_step_more [OF step2(1)] by (simp_all add: path_step_def)
  ultimately show ?thesis using step2 disk1(2) out1 mem1 by (intro exI [of _ s2]) (auto simp: path_walked_def)
qed

section \<open>A missing file\<close>

text \<open>
  C26. Opening a path that does not resolve returns -1 for every value of the flags, so even
  when creation is asked for: nothing is created on disk, and no table, count or page mapping
  changes.
\<close>

theorem sys_open_missing:
  fixes s :: "'a kernel_scheme"
  assumes "screen_ok s" and "disk_ready d0 dev s" and "path_buffers s" and "cstr_at (cmem s) path str"
    and "\<And>i. i \<le> length str \<Longrightarrow> outside_path s (path + of_nat i) \<and> \<not> in_vga (path + of_nat i)"
    and "resolvable (disk_of d0 s) (superblock s) (root_inode s) (current_dir_inode s) str"
    and "i_number (resolve_path (disk_of d0 s) (superblock s) (root_inode s) (current_dir_inode s) str) = 0"
  shows "\<exists>s'. sys_open dev offset path flags s = Some (minus_one, s') \<and> disk_of d0 s' = disk_of d0 s \<and>
    kheap s' = kheap s \<and> current_open_files s' = current_open_files s \<and> current_open_inodes s' = current_open_inodes s \<and>
    file_virtual_address s' = file_virtual_address s \<and>
    (\<forall>x. outside_path s x \<and> \<not> in_vga x \<longrightarrow> cmem s' x = cmem s x)"
proof -
  obtain s' where s': "path_walked d0 dev s s'" "sys_open dev offset path flags s = Some (minus_one, s')"
    using sys_open_resolves [OF assms(1-6) refl, of offset flags] assms(7) by auto
  have "console.more s' = console.more s" using s'(1) by (simp add: path_walked_def)
  note k = kernel_more [OF this]
  show ?thesis using s' k by (auto simp: path_walked_def)
qed

section \<open>The table of open inodes\<close>

text \<open>Entry \<open>j\<close> of the table of open inodes, and the invariant that no inode is entered twice.\<close>

definition table_inode :: "memory \<Rightarrow> u32 \<Rightarrow> nat \<Rightarrow> inode" where
  "table_inode m base j = load_inode m (base + 64 * of_nat j)"

definition table_number :: "memory \<Rightarrow> u32 \<Rightarrow> nat \<Rightarrow> u32" where
  "table_number m base j = i_number (table_inode m base j)"

definition table_distinct :: "memory \<Rightarrow> u32 \<Rightarrow> bool" where
  "table_distinct m base \<longleftrightarrow>
     (\<forall>j < 256. \<forall>k < 256. table_number m base j \<noteq> 0 \<and> table_number m base j = table_number m base k \<longrightarrow> j = k)"

lemma in_number_table: "in_number m (base + 64 * of_nat j) = table_number m base j"
  by (simp add: in_number_def table_number_def table_inode_def load_inode_def)

lemma find_inode_find:
  assumes "j + k = 256"
  shows "find_inode k n (of_nat j) (base + 64 * of_nat j) m =
    (case find (\<lambda>i. table_number m base i = n) [j..<256] of
       None \<Rightarrow> (256, base + 64 * 256) | Some i \<Rightarrow> (of_nat i, base + 64 * of_nat i))"
  using assms
proof (induction k arbitrary: j)
  case 0
  then have "j = 256" by simp
  then show ?case by simp
next
  case (Suc k)
  have upt: "[j..<256] = j # [j + 1..<256]" using Suc.prems by (simp add: upt_conv_Cons)
  have step: "base + 64 * of_nat j + 64 = base + 64 * of_nat (j + 1)" by (simp add: algebra_simps)
  show ?case
  proof (cases "table_number m base j = n")
    case False
    then have "find_inode (Suc k) n (of_nat j) (base + 64 * of_nat j) m =
        find_inode k n (of_nat (j + 1)) (base + 64 * of_nat (j + 1)) m"
      by (simp add: in_number_table [unfolded mult.commute [of 64]] algebra_simps)
    then show ?thesis using Suc.IH [of "j + 1"] Suc.prems False unfolding upt by simp
  qed (simp add: in_number_table upt)
qed

lemma slot_apart:
  fixes base :: u32
  assumes "j \<noteq> k" and "j \<le> 256" and "k \<le> 256" and "d < 64"
  shows "64 \<le> unat (base + 64 * of_nat k + of_nat d - (base + 64 * of_nat j))"
proof -
  have "base + 64 * of_nat k + of_nat d - (base + 64 * of_nat j) = (of_int (64 * (int k - int j) + int d) :: u32)"
    by (simp add: algebra_simps)
  moreover have "unat (of_int z :: u32) = nat (z mod 2 ^ 32)" for z
    by (simp add: unat_eq_nat_uint unsigned_of_int take_bit_eq_mod)
  moreover have "64 \<le> (64 * (int k - int j) + int d) mod 2 ^ 32"
  proof (cases "j < k")
    case True
    then have "64 * (int k - int j) + int d < 2 ^ 32" "64 \<le> 64 * (int k - int j) + int d" using assms by simp_all
    then show ?thesis by simp
  next
    case False
    then have "(64 * (int k - int j) + int d) mod 2 ^ 32 = 64 * (int k - int j) + int d + 2 ^ 32"
      using assms mod_pos_pos_trivial [of "64 * (int k - int j) + int d + 2 ^ 32" "2 ^ 32"] by simp
    then show ?thesis using assms by simp
  qed
  ultimately show ?thesis by (simp only:)
qed

lemma slot_inside:
  fixes base :: u32
  assumes "j < 256" and "16384 \<le> unat (x - base)"
  shows "64 \<le> unat (x - (base + 64 * of_nat j))"
proof -
  have "64 * of_nat j \<le> x - base" "unat (64 * of_nat j :: u32) = 64 * j"
    using assms by (simp_all add: word_le_nat_alt unat_word_ariths)
  then have "unat (x - base - 64 * of_nat j) = unat (x - base) - 64 * j" by (simp add: unat_sub)
  then show ?thesis using assms by (simp add: algebra_simps)
qed

lemma table_inode_store:
  assumes "length (direct_pointers i) = 7" and "j \<le> 256" and "k \<le> 256"
  shows "table_inode (store_inode i (base + 64 * of_nat j) m) base k = (if k = j then i else table_inode m base k)"
proof (cases "k = j")
  case False
  have "table_inode (store_inode i (base + 64 * of_nat j) m) base k = table_inode m base k"
    unfolding table_inode_def
  proof (rule load_inode_cong)
    fix d :: nat assume "d < 64"
    then show "store_inode i (base + 64 * of_nat j) m (base + 64 * of_nat k + of_nat d) = m (base + 64 * of_nat k + of_nat d)"
      using slot_apart [of j k d base] False assms unfolding store_inode_def by (intro put_list_outside) simp
  qed
  then show ?thesis using False by simp
qed (simp add: table_inode_def load_store_inode assms)

lemma store_inode_outside:
  assumes "length (direct_pointers i) = 7" and "64 \<le> unat (x - a)"
  shows "store_inode i a m x = m x"
  using assms by (simp add: store_inode_def put_list_outside)

text \<open>Counting up the entry's \<^verbatim>\<open>max_count\<close> is storing the entry with that field changed.\<close>

lemma length_load_inode [simp]: "length (direct_pointers (load_inode m a)) = 7"
  by (simp add: load_inode_def)

lemma upd_max_count: "load_inode (m(a + 62 := v)) a = (load_inode m a)\<lparr>max_count := v\<rparr>"
proof -
  have "(m(a + 62 := v)) (a + c) = m (a + c)" if "c \<noteq> 62" for c using that by simp
  then show ?thesis
    by (simp add: load_inode_def load32_def load16_def load_time_def upt_rec add.assoc)
qed

lemma table_inode_count:
  assumes "j \<le> 256" and "k \<le> 256"
  shows "table_inode (m(base + 64 * of_nat j + 62 := v)) base k =
    (if k = j then (table_inode m base j)\<lparr>max_count := v\<rparr> else table_inode m base k)"
proof (cases "k = j")
  case False
  have "table_inode (m(base + 64 * of_nat j + 62 := v)) base k = table_inode m base k"
    unfolding table_inode_def
  proof (rule load_inode_cong)
    fix d :: nat assume "d < 64"
    then show "(m(base + 64 * of_nat j + 62 := v)) (base + 64 * of_nat k + of_nat d) = m (base + 64 * of_nat k + of_nat d)"
    proof -
      have "unat (base + 64 * of_nat j + 62 - (base + 64 * of_nat j)) < 64" by simp
      then have "base + 64 * of_nat k + of_nat d \<noteq> base + 64 * of_nat j + 62"
        using slot_apart [of j k d base] \<open>d < 64\<close> False assms by (metis not_less)
      then show ?thesis by simp
    qed
  qed
  then show ?thesis using False by simp
qed (simp add: table_inode_def upd_max_count)

lemma find_256:
  "find_inode 256 n 0 base m = (case find (\<lambda>i. table_number m base i = n) [0..<256] of
     None \<Rightarrow> (256, base + 64 * 256) | Some i \<Rightarrow> (of_nat i, base + 64 * of_nat i))"
  using find_inode_find [of 0 256 n base m] by (simp del: upt_rec_numeral)

lemma enter_inode_counts:
  assumes "find (\<lambda>j. table_number (cmem s) (open_inode_table s) j = i_number i) [0..<256] = Some j"
  shows "enter_inode i s = (of_nat j, open_inode_table s + 64 * of_nat j,
    s\<lparr>cmem := (cmem s)(open_inode_table s + 64 * of_nat j + 62 := max_count (table_inode (cmem s) (open_inode_table s) j) + 1)\<rparr>)"
proof -
  have "table_number (cmem s) (open_inode_table s) j = i_number i" using assms by (auto simp: find_Some_iff)
  then show ?thesis
    by (simp add: enter_inode_def find_256 assms in_number_table table_inode_def load_inode_def del: upt_rec_numeral)
qed

lemma enter_inode_new:
  assumes "find (\<lambda>j. table_number (cmem s) (open_inode_table s) j = i_number i) [0..<256] = None"
    and "table_number (cmem s) (open_inode_table s) 256 \<noteq> i_number i"
    and "find (\<lambda>j. table_number (cmem s) (open_inode_table s) j = 0) [0..<256] = r"
  shows "enter_inode i s = (let j = (case r of None \<Rightarrow> 256 | Some j \<Rightarrow> j); a = open_inode_table s + 64 * of_nat j
    in (of_nat j, a, s\<lparr>cmem := store_inode i a (cmem s), current_open_inodes := current_open_inodes s + 1\<rparr>))"
proof -
  have "in_number (cmem s) (open_inode_table s + 16384) \<noteq> i_number i"
    using assms(2) in_number_table [of "cmem s" "open_inode_table s" 256] by simp
  then show ?thesis
    by (cases r) (simp_all add: enter_inode_def find_256 assms Let_def del: upt_rec_numeral)
qed

text \<open>
  C27. Entering an inode while the table has it or has a free entry: the entry found is the
  only one with that number afterwards, every other entry and the memory outside the table
  are unchanged, an inode that was open only has its count increased, and a new one is stored
  as it is in an entry that was free. So no inode is ever entered twice.
\<close>

theorem enter_inode_enters:
  fixes s :: "'a kernel_scheme"
  defines "table \<equiv> \<lambda>t j. table_inode (cmem t) (open_inode_table s) j"
  assumes "table_distinct (cmem s) (open_inode_table s)" and "i_number i \<noteq> 0" and "length (direct_pointers i) = 7"
    and "\<exists>j < 256. i_number (table s j) = i_number i \<or> i_number (table s j) = 0 \<and> i_number (table s 256) \<noteq> i_number i"
  shows "\<exists>j s'. j < 256 \<and> enter_inode i s = (of_nat j, open_inode_table s + 64 * of_nat j, s') \<and>
    table_distinct (cmem s') (open_inode_table s) \<and> i_number (table s' j) = i_number i \<and>
    (\<forall>k \<le> 256. k \<noteq> j \<longrightarrow> table s' k = table s k) \<and>
    (\<forall>x. 16384 \<le> unat (x - open_inode_table s) \<longrightarrow> cmem s' x = cmem s x) \<and>
    (if \<exists>k < 256. i_number (table s k) = i_number i
     then table s' j = (table s j)\<lparr>max_count := max_count (table s j) + 1\<rparr> \<and> current_open_inodes s' = current_open_inodes s
     else i_number (table s j) = 0 \<and> table s' j = i \<and> current_open_inodes s' = current_open_inodes s + 1)"
proof -
  let ?b = "open_inode_table s"
  let ?n = "\<lambda>m. table_number m ?b"
  note N = table_number_def table_def
  have dist: "?n (cmem s) j = 0 \<or> j = k" if "j < 256" "k < 256" "?n (cmem s) j = ?n (cmem s) k" for j k
    using assms(2) that unfolding table_distinct_def by blast
  show ?thesis
  proof (cases "find (\<lambda>j. ?n (cmem s) j = i_number i) [0..<256]")
    case (Some j)
    then have j: "j < 256" "?n (cmem s) j = i_number i" by (auto simp: find_Some_iff)
    define s' where "s' = s\<lparr>cmem := (cmem s)(?b + 64 * of_nat j + 62 := max_count (table_inode (cmem s) ?b j) + 1)\<rparr>"
    have slots: "table s' k = (if k = j then (table s j)\<lparr>max_count := max_count (table s j) + 1\<rparr> else table s k)" if "k \<le> 256" for k
      using table_inode_count [of j k] j(1) that by (simp add: table_def s'_def)
    then have nums: "?n (cmem s') k = ?n (cmem s) k" if "k \<le> 256" for k using that by (simp add: N)
    have out: "cmem s' x = cmem s x" if "16384 \<le> unat (x - ?b)" for x
      using slot_inside [OF j(1) that] by (auto simp: s'_def)
    have "table_distinct (cmem s') ?b" using assms(2) nums by (simp add: table_distinct_def)
    moreover have "current_open_inodes s' = current_open_inodes s" by (simp add: s'_def)
    ultimately show ?thesis
      using enter_inode_counts [OF Some] j slots nums out
      by (intro exI [of _ j] exI [of _ s']) (auto simp: s'_def [symmetric] N)
  next
    case None
    then have absent: "?n (cmem s) k \<noteq> i_number i" if "k < 256" for k using that by (auto simp: find_None_iff)
    then have behind: "?n (cmem s) 256 \<noteq> i_number i" and "\<exists>j < 256. ?n (cmem s) j = 0" using assms(5) by (auto simp: N)
    then obtain j where f: "find (\<lambda>j. ?n (cmem s) j = 0) [0..<256] = Some j"
      by (cases "find (\<lambda>j. ?n (cmem s) j = 0) [0..<256]") (auto simp: find_None_iff)
    then have j: "j < 256" "?n (cmem s) j = 0" by (auto simp: find_Some_iff)
    define s' where "s' = s\<lparr>cmem := store_inode i (?b + 64 * of_nat j) (cmem s), current_open_inodes := current_open_inodes s + 1\<rparr>"
    have slots: "table s' k = (if k = j then i else table s k)" if "k \<le> 256" for k
      using table_inode_store [OF assms(4), of j k] j(1) that by (simp add: table_def s'_def)
    then have nums: "?n (cmem s') k = (if k = j then i_number i else ?n (cmem s) k)" if "k \<le> 256" for k using that by (simp add: N)
    have out: "cmem s' x = cmem s x" if "16384 \<le> unat (x - ?b)" for x
      using store_inode_outside [OF assms(4) slot_inside [OF j(1) that]] by (simp add: s'_def)
    have "a = c" if "a < 256" "c < 256" "?n (cmem s') a \<noteq> 0" "?n (cmem s') a = ?n (cmem s') c" for a c
      using that nums [of a] nums [of c] dist [of a c] absent [of a] absent [of c] by (auto split: if_splits)
    then have "table_distinct (cmem s') ?b" by (auto simp: table_distinct_def)
    moreover have "current_open_inodes s' = current_open_inodes s + 1" by (simp add: s'_def)
    ultimately show ?thesis
      using enter_inode_new [OF None behind f] j slots out absent
      by (intro exI [of _ j] exI [of _ s']) (auto simp: s'_def [symmetric] Let_def N)
  qed
qed

text \<open>
  With all 256 entries in use by other inodes the search ends behind the table, and the
  inode is written there, over the 64 bytes that follow the table's 16 KiB: the code does not
  check that it found a free entry.
\<close>

lemma enter_inode_overflows:
  fixes s :: "'a kernel_scheme"
  assumes "\<And>j. j < 256 \<Longrightarrow> table_number (cmem s) (open_inode_table s) j \<noteq> 0"
    and "\<And>j. j \<le> 256 \<Longrightarrow> table_number (cmem s) (open_inode_table s) j \<noteq> i_number i"
    and "length (direct_pointers i) = 7"
  shows "\<exists>s'. enter_inode i s = (256, open_inode_table s + 16384, s') \<and>
    load_inode (cmem s') (open_inode_table s + 16384) = i"
proof -
  have "find (\<lambda>j. table_number (cmem s) (open_inode_table s) j = i_number i) [0..<256] = None"
    "find (\<lambda>j. table_number (cmem s) (open_inode_table s) j = 0) [0..<256] = None"
    using assms by (auto simp: find_None_iff)
  from enter_inode_new [OF this(1) assms(2) this(2)] show ?thesis
    by (simp add: Let_def load_store_inode [OF assms(3)])
qed

section \<open>Reading\<close>

lemma sys_read_effect:
  fixes s :: "'a kernel_scheme"
  defines "m \<equiv> cmem s"
  assumes f: "f = file_entry s fd" and "\<not> fd <s 0" and "of_address m f \<noteq> 0" and "of_max_count m f \<noteq> 0"
    and "of_flags m f AND O_WRONLY = 0"
    and size: "sz = in_size m (inode_entry s (of_inode_index m f))" "of_lseek m f \<le> sz"
    and "unat (of_lseek m f) + unat len < 2 ^ 32"
    and n: "n = min len (sz - of_lseek m f)"
    and "copy_ok buffer (of_address m f + 4 * of_lseek m f) n"
    and entry: "\<And>d. d < 4 \<Longrightarrow> n \<le> f + 1 + d - buffer"
  shows "\<exists>m'. sys_read fd buffer len s = (n, s\<lparr>cmem := m'\<rparr>) \<and>
    (\<forall>k < n. m' (buffer + k) = m (of_address m f + 4 * of_lseek m f + k)) \<and>
    of_lseek m' f = of_lseek m f + n \<and>
    (\<forall>x. n \<le> x - buffer \<and> 4 \<le> x - (f + 1) \<longrightarrow> m' x = m x)"
proof -
  let ?src = "of_address m f + 4 * of_lseek m f"
  let ?c = "memcpy m buffer ?src n"
  have len: "unat (of_lseek m f + len) = unat (of_lseek m f) + unat len"
    using assms(9) by (intro unat_add_no_wrap) simp
  have "unat (sz - of_lseek m f) = unat sz - unat (of_lseek m f)" using size(2) by (rule unat_sub)
  then have n': "(if sz < of_lseek m f + len then sz - of_lseek m f else len) = n"
    using len size(2) by (auto simp: n min_def word_less_nat_alt word_le_nat_alt)
  have copy: "?c x = (if x - buffer < n then m (?src + (x - buffer)) else m x)" for x
    using assms(11) by (rule memcpy_effect)
  have keep: "?c (f + 1 + d) = m (f + 1 + d)" if "d < 4" for d
    using leD [OF entry [OF that]] by (simp add: copy)
  have lseek: "of_lseek ?c f = of_lseek m f"
    using keep by (simp add: of_lseek_def) (rule load32_cong)
  define m' where "m' = store32 ?c (f + 1) (of_lseek m f + n)"
  have "sys_read fd buffer len s =
      (let k = (if sz < of_lseek m f + len then sz - of_lseek m f else len); c = memcpy m buffer ?src k
       in (k, s\<lparr>cmem := store32 c (f + 1) (of_lseek c f + k)\<rparr>))"
    using assms(3-6) by (simp add: sys_read_def Let_def f m_def size(1))
  then have "sys_read fd buffer len s = (n, s\<lparr>cmem := m'\<rparr>)" unfolding n' Let_def lseek m'_def .
  moreover have "m' (buffer + k) = m (?src + k)" if "k < n" for k
  proof -
    have "4 \<le> buffer + k - (f + 1)"
    proof (rule ccontr)
      assume "\<not> 4 \<le> buffer + k - (f + 1)"
      then have "n \<le> f + 1 + (buffer + k - (f + 1)) - buffer" by (intro entry) simp
      then show False using that by simp
    qed
    then show ?thesis using that by (simp add: m'_def store32_other copy)
  qed
  moreover have "of_lseek m' f = of_lseek m f + n" by (simp add: of_lseek_def m'_def load32_store32_same)
  moreover have "m' x = m x" if "n \<le> x - buffer \<and> 4 \<le> x - (f + 1)" for x
    using that leD [of n "x - buffer"] by (simp add: m'_def store32_other copy)
  ultimately show ?thesis by blast
qed

text \<open>
  C28. A read on an open descriptor that was not opened for writing: it copies
  \<open>min len (size - lseek)\<close> bytes into the caller's buffer, advances the offset by as many and
  returns that number; nothing else changes. The bytes are those at
  \<open>address + 4 * lseek\<close>, because the offset is added to a pointer to words, so that a read
  that continues another one does not continue where that one ended.
\<close>

theorem sys_read_copies:
  fixes s :: "'a kernel_scheme"
  defines "f \<equiv> \<lambda>fd. file_entry s fd" and "m \<equiv> cmem s"
  assumes "\<not> fd <s 0" and "of_address m (f fd) \<noteq> 0" and "of_max_count m (f fd) \<noteq> 0"
    and "of_flags m (f fd) AND O_WRONLY = 0"
    and size: "sz = in_size m (inode_entry s (of_inode_index m (f fd)))" "of_lseek m (f fd) \<le> sz"
    and "unat (of_lseek m (f fd)) + unat len < 2 ^ 32"
    and n: "n = min len (sz - of_lseek m (f fd))"
    and "copy_ok buffer (of_address m (f fd) + 4 * of_lseek m (f fd)) n"
    and entry: "\<And>d. d < 4 \<Longrightarrow> n \<le> f fd + 1 + d - buffer"
  shows "\<exists>m'. sys_read fd buffer len s = (n, s\<lparr>cmem := m'\<rparr>) \<and>
    (\<forall>k < n. m' (buffer + k) = m (of_address m (f fd) + 4 * of_lseek m (f fd) + k)) \<and>
    of_lseek m' (f fd) = of_lseek m (f fd) + n \<and>
    (\<forall>x. n \<le> x - buffer \<and> 4 \<le> x - (f fd + 1) \<longrightarrow> m' x = m x)"
  unfolding f_def m_def by (rule sys_read_effect [OF refl assms(3-12) [unfolded f_def m_def]])

section \<open>A concrete kernel\<close>

text \<open>
  The small disk with empty tables at 0x600000 and 0x700000; and one where descriptor 0 is a
  file of 5 bytes, loaded at 0x800000.
\<close>

definition example_kernel :: kernel where
  "example_kernel = fs.extend example_fs (kernel.fields example_heap 0x600000 0x700000 0 0 0x800000 0)"

definition example_open_kernel :: kernel where
  "example_open_kernel = example_kernel\<lparr>cmem := (cmem example_kernel)(0x600007 := 0x80, 0x600009 := 1, 0x700005 := 5,
     0x800002 := 120)\<rparr>"

lemma example_kernel_simps:
  "cmem example_kernel = cmem example_fs" "io_log example_kernel = []" "superblock example_kernel = superblock example_fs"
  "root_inode example_kernel = example_root" "current_dir_inode example_kernel = example_root"
  "block_buffer example_kernel = 0x20000" "sector_buffer example_kernel = 0x30000" "str_buffer example_kernel = 0x40000"
  "g_ScreenX example_kernel = 0" "g_ScreenY example_kernel = 0" "open_file_table example_kernel = 0x600000"
  "open_inode_table example_kernel = 0x700000"
  by (simp_all add: example_kernel_def fs.extend_def kernel.fields_def example_fs_def)

theorem sys_read_copies_witness:
  "\<exists>m'. sys_read 0 0x900000 10 example_open_kernel = (5, example_open_kernel\<lparr>cmem := m'\<rparr>) \<and> m' 0x900002 = 120"
proof -
  let ?s = example_open_kernel
  have f: "file_entry ?s 0 = 0x600000" by (simp add: file_entry_def example_open_kernel_def example_kernel_simps)
  have e: "of_address (cmem ?s) 0x600000 = 0x800000" "of_max_count (cmem ?s) 0x600000 = 1" "of_flags (cmem ?s) 0x600000 = 0"
    "of_lseek (cmem ?s) 0x600000 = 0" "in_size (cmem ?s) (inode_entry ?s (of_inode_index (cmem ?s) 0x600000)) = 5"
    by (simp_all add: of_address_def of_max_count_def of_flags_def of_lseek_def in_size_def inode_entry_def of_inode_index_def
        load32_def example_open_kernel_def example_kernel_simps example_fs_def)
  have entry: "5 \<le> 0x600000 + 1 + d - (0x900000 :: u32)" if "d < 4" for d :: u32
  proof -
    have u: "unat (0xFFD00001 + d) = 0xFFD00001 + unat d"
      using that by (simp add: unat_add_no_wrap word_less_nat_alt)
    have e: "0x600000 + 1 + d - 0x900000 = 0xFFD00001 + d" by simp
    show ?thesis unfolding word_le_nat_alt e u by simp
  qed
  have "\<exists>m'. sys_read 0 0x900000 10 ?s = (5, ?s\<lparr>cmem := m'\<rparr>) \<and>
     (\<forall>k < 5. m' (0x900000 + k) = cmem ?s (0x800000 + k))"
    using sys_read_copies [of 0 ?s 5 10 5 "0x900000"] entry
    by (auto simp: f e copy_ok_def min_def)
  then obtain m' where m': "sys_read 0 0x900000 10 ?s = (5, ?s\<lparr>cmem := m'\<rparr>)"
    "\<forall>k < 5. m' (0x900000 + k) = cmem ?s (0x800000 + k)" by blast
  have "m' 0x900002 = 120" using m'(2) [rule_format, of 2] by (simp add: example_open_kernel_def)
  with m'(1) show ?thesis by blast
qed

lemma example_table: "table_number (cmem example_fs) 0x700000 j = 0" if "j \<le> 256"
proof -
  have "cmem example_fs (0x700000 + 64 * of_nat j + d) = 0" if d: "d < 4" for d :: u32
  proof -
    have u: "unat (0x700000 + 64 * of_nat j + d) = 0x700000 + 64 * j + unat d"
      using d \<open>j \<le> 256\<close> by (simp add: unat_word_ariths word_less_nat_alt)
    have ne: "0x700000 + 64 * of_nat j + d \<noteq> w" if "unat w < 0x700000" for w :: u32 using u that by auto
    from ne [where w = "0x1000"] ne [where w = "0x1001"] show ?thesis by (simp add: example_fs_def)
  qed
  then have "load32 (cmem example_fs) (0x700000 + 64 * of_nat j) = load32 (\<lambda>_. 0) (0x700000 + 64 * of_nat j)"
    by (intro load32_cong)
  then show ?thesis by (simp add: table_number_def table_inode_def load_inode_def load32_def)
qed

theorem enter_inode_enters_witness:
  "\<exists>j s'. j < 256 \<and> enter_inode example_root example_kernel = (of_nat j, 0x700000 + 64 * of_nat j, s') \<and>
     current_open_inodes s' = 1"
proof -
  have none: "i_number (table_inode (cmem example_kernel) (open_inode_table example_kernel) j) = 0" if "j \<le> 256" for j
    using example_table [OF that] by (simp add: example_kernel_simps table_number_def)
  have "table_distinct (cmem example_kernel) (open_inode_table example_kernel)"
    using none by (auto simp: table_distinct_def table_number_def)
  moreover have "\<not> (\<exists>k < 256. i_number (table_inode (cmem example_kernel) (open_inode_table example_kernel) k) = i_number example_root)"
    using none by (auto simp: example_root_def)
  moreover have "current_open_inodes example_kernel = 0"
    by (simp add: example_kernel_def fs.extend_def kernel.fields_def)
  moreover have "i_number example_root \<noteq> 0" "length (direct_pointers example_root) = 7" by (simp_all add: example_root_def)
  moreover have "\<exists>j < 256. i_number (table_inode (cmem example_kernel) (open_inode_table example_kernel) j) = i_number example_root \<or>
     i_number (table_inode (cmem example_kernel) (open_inode_table example_kernel) j) = 0 \<and>
     i_number (table_inode (cmem example_kernel) (open_inode_table example_kernel) 256) \<noteq> i_number example_root"
    using none [of 0] none [of 256] by (intro exI [of _ 0]) (simp add: example_root_def)
  ultimately show ?thesis
    using enter_inode_enters [of example_kernel example_root] by (auto simp: example_kernel_simps)
qed

lemma enter_inode_overflows_witness:
  "\<exists>s'. enter_inode example_root (example_kernel\<lparr>cmem := \<lambda>_. 1\<rparr>) = (256, 0x704000, s') \<and>
     load_inode (cmem s') 0x704000 = example_root"
proof -
  let ?s = "example_kernel\<lparr>cmem := \<lambda>_. 1\<rparr>"
  have "table_number (cmem ?s) (open_inode_table ?s) j = 0x01010101" for j
    by (simp add: table_number_def table_inode_def load_inode_def load32_def)
  then show ?thesis
    using enter_inode_overflows [of ?s example_root] by (simp add: example_root_def example_kernel_simps)
qed

text \<open>The path \<^verbatim>\<open>/b\<close>, of which the root directory has no entry.\<close>

definition example_missing_kernel :: kernel where
  "example_missing_kernel = example_kernel\<lparr>cmem := (cmem example_kernel)(0x1001 := 98)\<rparr>"

theorem sys_open_missing_witness:
  "\<exists>s'. sys_open (example_ata example_disk_drive) 0 0x1000 O_CREAT example_missing_kernel = Some (minus_one, s') \<and>
     disk_of example_disk_drive s' = example_disk"
proof -
  let ?s = example_missing_kernel
  note K = example_missing_kernel_def example_kernel_simps
  have ready: "disk_ready example_disk_drive (example_ata example_disk_drive) ?s" "disk_of example_disk_drive ?s = example_disk"
    using example_fs_ready example_fs_disk by (simp_all add: disk_ready_def disk_of_def drive_run_def K example_fs_def)
  have screen: "screen_ok ?s" by (simp add: screen_ok_def on_screen_def K)
  have path: "cstr_at (cmem ?s) 0x1000 [47, 98]" by (simp add: K example_fs_def)
  have place: "outside_path ?s x \<longleftrightarrow> outside_path example_fs x" for x
    by (simp add: outside_path_def outside_def K example_fs_def)
  have out: "outside_path ?s (0x1000 + of_nat i) \<and> \<not> in_vga (0x1000 + of_nat i)" if "i \<le> length [47, 98 :: u8]" for i
  proof -
    have "i = 0 \<or> i = 1 \<or> i = 2" using that by auto
    then show ?thesis using example_outside by (auto simp: place in_vga_def)
  qed
  have buffers: "path_buffers ?s"
    using example_path_buffers by (simp add: path_buffers_def buffers_apart_def outside_def K example_fs_def)
  have "find (slot_has example_disk [98]) (map (\<lambda>j. 40960 + 64 * j) [1..<64]) = None"
    using example_slot_numbers(2) by (intro find_none_map) (simp add: slot_has_def)
  then have "find (slot_has example_disk [98]) (dir_slots example_root) = None"
    using example_slot_numbers(1) example_name by (simp add: example_slots slot_has_def)
  then have look: "lookup example_disk (superblock example_fs) example_root [98] = zero_inode"
    by (simp add: lookup_def)
  have root: "root_inode ?s = example_root" "superblock ?s = superblock example_fs" by (simp_all add: K)
  have res: "resolvable (disk_of example_disk_drive ?s) (superblock ?s) (root_inode ?s) (current_dir_inode ?s) [47, 98]"
    using example_dir_ok by (simp add: resolvable_def root ready(2))
  have "i_number (resolve_path (disk_of example_disk_drive ?s) (superblock ?s) (root_inode ?s) (current_dir_inode ?s) [47, 98]) = 0"
    by (simp add: resolve_path_def root ready(2) look Let_def zero_inode_def)
  from sys_open_missing [OF screen ready(1) buffers path out res this, of 0 O_CREAT] show ?thesis
    by (auto simp: ready(2))
qed

end
