(* ===== verification/FileCalls.thy ===== *)
theory FileCalls
  imports OpenFiles
begin

text \<open>
  Writing to and closing an open file: what \<open>sys_write\<close> leaves in memory and on the disk, and
  what \<open>sys_close\<close> counts down. The tables, the file's pages and the sector buffer are regions of memory;
  the lemmas of the first section are about regions that do not meet.
\<close>

section \<open>Regions of memory\<close>

text \<open>None of the \<open>k\<close> bytes at \<open>b\<close> is one of the \<open>n\<close> bytes at \<open>a\<close>.\<close>

definition clear_of :: "u32 \<Rightarrow> nat \<Rightarrow> u32 \<Rightarrow> nat \<Rightarrow> bool" where
  "clear_of a n b k \<longleftrightarrow> (\<forall>t < k. n \<le> unat (b + of_nat t - a))"

lemma clear_of_sym:
  assumes "clear_of a n b k" and "n \<le> 2 ^ 32"
  shows "clear_of b k a n"
proof -
  have "k \<le> unat (a + of_nat t - b)" if t: "t < n" for t
  proof (rule ccontr)
    assume "\<not> k \<le> unat (a + of_nat t - b)"
    then have "n \<le> unat (b + of_nat (unat (a + of_nat t - b)) - a)" using assms(1) unfolding clear_of_def not_le by blast
    then have "n \<le> unat (of_nat t :: u32)" by simp
    then show False using t assms(2) by (simp add: unat_of_nat32)
  qed
  then show ?thesis by (simp add: clear_of_def)
qed

definition same_bytes :: "memory \<Rightarrow> memory \<Rightarrow> u32 \<Rightarrow> nat \<Rightarrow> bool" where
  "same_bytes m m' b k \<longleftrightarrow> (\<forall>t < k. m' (b + of_nat t) = m (b + of_nat t))"



lemma same_load32:
  assumes "same_bytes m m' b k" and "j + 4 \<le> k"
  shows "load32 m' (b + of_nat j) = load32 m (b + of_nat j)"
proof (rule load32_cong)
  fix d :: u32 assume "d < 4"
  then have "j + unat d < k" using assms(2) by (simp add: word_less_nat_alt)
  then have "m' (b + of_nat (j + unat d)) = m (b + of_nat (j + unat d))" using assms(1) unfolding same_bytes_def by blast
  then show "m' (b + of_nat j + d) = m (b + of_nat j + d)" by (simp add: add.assoc)
qed




lemma node_size:
  "load_inode (store32 m (node + 5) v) node = (load_inode m node)\<lparr>inode_size := v\<rparr>"
  by (simp add: load_inode_def load32_store32_same load32_store32_apart apart_def load_time_def load16_def store32_other
      upt_rec add.assoc)

lemma number_size: "in_number (store32 m (node + 5) v) node = in_number m node"
  using node_size [of m node v] by (simp add: load_inode_def in_number_def)

section \<open>Writing\<close>





lemma clear_of_field:
  assumes "clear_of a n b k" and "j + 4 \<le> n" and "n \<le> 2 ^ 31" and "t < k"
  shows "4 \<le> b + of_nat t - (a + of_nat j)"
proof -
  define d where "d = b + of_nat t - a"
  have le: "n \<le> unat d" using assms(1,4) by (simp add: clear_of_def d_def)
  have "unat (d - of_nat j) = unat d - j"
    using le assms(2,3) by (simp add: unat_sub_if_size unat_of_nat32)
  then have "4 \<le> unat (d - of_nat j)" using le assms(2) by linarith
  moreover have "d - of_nat j = b + of_nat t - (a + of_nat j)" by (simp add: d_def)
  ultimately show ?thesis by (simp add: word_le_nat_alt)
qed

















lemma clear_of_order: "unat a + n \<le> unat b \<Longrightarrow> unat b + k \<le> 2 ^ 32 \<Longrightarrow> clear_of a n b k"
proof -
  assume a: "unat a + n \<le> unat b" "unat b + k \<le> 2 ^ 32"
  have "n \<le> unat (b + of_nat t - a)" if "t < k" for t
  proof -
    have "unat (b + of_nat t) = unat b + t" using a(2) that by (simp add: unat_add_no_wrap unat_of_nat32)
    then show ?thesis using a(1) by (simp add: unat_sub_if_size)
  qed
  then show ?thesis by (simp add: clear_of_def)
qed

text \<open>Descriptor 0 is a file of 5 bytes with inode 9 and block 20, opened with \<^verbatim>\<open>O_RDONLY\<close>.\<close>

definition example_write_kernel :: kernel where
  "example_write_kernel = example_open_kernel\<lparr>cmem := (cmem example_open_kernel)(0x60000A := 1, 0x60000E := 1,
     0x700000 := 9, 0x700021 := 20, 0x900002 := 77)\<rparr>"


section \<open>Closing\<close>

text \<open>The entry of a page in the tables under the directory \<open>d\<close>, and page \<open>j\<close> of a file at \<open>a\<close>.\<close>

definition page_entry :: "u32 \<Rightarrow> memory \<Rightarrow> u32 \<Rightarrow> u32" where
  "page_entry d m va = slot (GET_FRAME (load32 m (slot d (PD_INDEX va)))) (PT_INDEX va)"

definition file_page :: "u32 \<Rightarrow> nat \<Rightarrow> u32" where
  "file_page a j = a + of_nat j * PAGE_SIZE"

lemma file_page_Suc: "file_page a 0 = a" "file_page a (Suc j) = file_page (a + PAGE_SIZE) j"
  by (simp_all add: file_page_def algebra_simps)

lemma page_entry_dvd [simp]: "4 dvd unat (page_entry d m va)" "page_aligned d \<Longrightarrow> 4 dvd unat (slot d (PD_INDEX va))"
  by (simp_all add: page_entry_def slot_dvd)

lemma page_entry_store:
  assumes "page_aligned d" "e \<noteq> slot d (PD_INDEX va)" "4 dvd unat e"
  shows "page_entry d (store32 m e v) va = page_entry d m va"
  using assms by (simp add: page_entry_def load32_store32_if)

lemma free_blocks_more:
  fixes s :: "'a vmm_scheme"
  shows "directory (free_blocks p n s) = directory s" "mem (free_blocks p n s) = mem s"
  using same_more [of "free_blocks p n s" s] by simp_all

text \<open>
  The frame that a page table entry names, and the bytes behind the bitmap that freeing frames by
  their addresses changes: the frame is a multiple of 4096, so it is bit 0 of a byte that is cleared.
\<close>

definition freed :: "memory \<Rightarrow> u32 \<Rightarrow> u32" where
  "freed m e = GET_FRAME (load32 m e)"

definition stray_byte :: "(nat \<Rightarrow> u32) \<Rightarrow> nat \<Rightarrow> u32 \<Rightarrow> bool" where
  "stray_byte F k x \<longleftrightarrow> (\<exists>j < k. 2 ^ 20 \<le> unat (F j) \<and> x = map_word (F j))"

lemma map_word_frame: "map_word (GET_FRAME v) = 0x30000 + GET_FRAME v div 8"
proof -
  define c where "c = unat v div 4096"
  have f: "unat (GET_FRAME v) = 4096 * c" by (simp add: unat_GET_FRAME c_def)
  have "c < 2 ^ 20" using unat_less_32 [of v] by (simp add: c_def div_less_iff_less_mult del: unat_less_32)
  then have "unat (4 * (GET_FRAME v div 32)) = unat (GET_FRAME v div 8)"
    by (simp add: unat_word_ariths unat_div f)
  then show ?thesis by (simp only: map_word_def word_unat_eq_iff [symmetric])
qed

lemma stray_byte_Suc: "stray_byte F (Suc k) x \<longleftrightarrow> 2 ^ 20 \<le> unat (F 0) \<and> x = map_word (F 0) \<or> stray_byte (\<lambda>j. F (Suc j)) k x"
  by (auto simp: stray_byte_def Ex_less_Suc2)

lemma store32_clear_bit0: "store32 m w (load32 m w AND NOT 1) = m(w := m w AND NOT 1)"
proof -
  have byte: "ucast (drop_bit (8 * q) (load32 m w AND NOT 1)) = (if q = 0 then m w AND NOT 1 else m (w + of_nat q))" if "q < 4" for q
  proof (rule bit_word_eqI)
    fix j assume j: "j < LENGTH(8)"
    then have "bit (ucast (drop_bit (8 * q) (load32 m w AND NOT 1)) :: u8) j \<longleftrightarrow> bit (load32 m w) (8 * q + j) \<and> 8 * q + j \<noteq> 0"
      using that by (auto simp: bit_simps)
    then show "bit (ucast (drop_bit (8 * q) (load32 m w AND NOT 1)) :: u8) j \<longleftrightarrow>
        bit (if q = 0 then m w AND NOT 1 else m (w + of_nat q)) j"
      using bit_load32 [OF that, of j m w] j by (auto simp: bit_simps)
  qed
  show ?thesis
    unfolding store32_def using byte [of 0] byte [of 1] byte [of 2] byte [of 3] by (auto simp: fun_eq_iff)
qed

lemma stray_unset_byte:
  assumes "page_aligned p"
  shows "stray_unset p m = (\<lambda>x. if 2 ^ 20 \<le> unat p \<and> x = map_word p then m x AND NOT 1 else m x)"
proof -
  obtain c where "unat p = 4096 * c" using assms by (elim dvdE)
  then have z: "unat (p mod 32) = 0" by (simp add: unat_mod)
  have "store32 m w (load32 m w AND NOT (push_bit (unat (p mod 32)) 1)) = m(w := m w AND NOT 1)" for w
    by (simp only: z push_bit_0_id id_apply store32_clear_bit0)
  then show ?thesis unfolding stray_unset_def by (simp only:) (auto simp: fun_eq_iff)
qed

lemma clear_page_load:
  assumes "page_aligned p" and "4 dvd unat q" "4 dvd unat e" and "2 ^ 20 \<le> unat p \<longrightarrow> 4 \<le> map_word p - q"
  shows "load32 (store32 (stray_unset p m) e v) q = (if q = e then v else load32 m q)"
proof -
  have "load32 (stray_unset p m) q = load32 m q"
  proof (rule load32_cong)
    fix k :: u32 assume "k < 4"
    then have "2 ^ 20 \<le> unat p \<longrightarrow> q + k \<noteq> map_word p" using assms(4) by (metis add_diff_cancel_left' not_less)
    then show "stray_unset p m (q + k) = m (q + k)" by (auto simp: stray_unset_byte [OF assms(1)])
  qed
  then show ?thesis using assms(2,3) by (simp add: load32_store32_if)
qed

text \<open>One page: its frame is handed to the allocator by its address, and its entry is cleared.\<close>

lemma unmap_file_page:
  fixes s :: "'a kernel_scheme"
  defines "d \<equiv> directory (kheap s)"
  assumes d: "page_aligned d" and e: "e = page_entry d (cmem s) a" "e \<noteq> slot d (PD_INDEX a)"
    and p: "p = freed (cmem s) e" and w: "2 ^ 20 \<le> unat p \<longrightarrow> 4 \<le> map_word p - slot d (PD_INDEX a)"
  shows "\<exists>h v. with_heap (\<lambda>h. Some ((), unmap_page a (free_page (get_page a h) h))) s =
    Some ((), s\<lparr>kheap := h, cmem := store32 (stray_unset p (cmem s)) e v\<rparr>) \<and>
    directory h = d \<and> \<not> bit v 0 \<and> (\<forall>j. block_used h j \<longleftrightarrow> block_used (kheap s) j \<and> (p \<noteq> 0 \<longrightarrow> j \<noteq> unat p))"
proof -
  let ?h0 = "(kheap s)\<lparr>mem := cmem s\<rparr>" and ?m = "stray_unset p (cmem s)"
  have page: "get_page a h = page_entry (directory h) (mem h) a" for h :: heap
    by (simp add: get_page_def page_entry_def Let_def)
  have al: "page_aligned p" by (simp add: p freed_def)
  define h1 where "h1 = free_page e ?h0"
  define v1 where "v1 = load32 ?m e AND NOT PTE_PRESENT"
  have "?m = cmem s" if "p = 0" using that by (simp add: stray_unset_def)
  then have h1: "directory h1 = d" "mem h1 = store32 ?m e v1"
    using free_blocks_more [of p 1 ?h0]
    by (auto simp: h1_def free_page_def Let_def CLEAR_ATTRIBUTE_def v1_def p freed_def d_def)
  have "unat p + unat (1 :: u32) \<le> 2 ^ 32" using unat_less_32 [of p] by (simp del: unat_less_32)
  note effect = free_blocks_effect(1) [OF this, of ?h0]
  have "{unat p..<unat p + unat (1 :: u32)} = {unat p}" by auto
  then have used: "block_used h1 j \<longleftrightarrow> block_used (kheap s) j \<and> (p \<noteq> 0 \<longrightarrow> j \<noteq> unat p)" for j
    using effect [of j] by (auto simp: h1_def free_page_def Let_def p [unfolded freed_def, symmetric] block_used_def)
  define v where "v = frame_into v1 0 AND NOT PTE_PRESENT"
  have "4 dvd unat (slot d (PD_INDEX a))" "4 dvd unat e" using d e(1) by simp_all
  then have "load32 (mem h1) (slot d (PD_INDEX a)) = load32 (cmem s) (slot d (PD_INDEX a))"
    unfolding h1(2) using e(2) w by (subst clear_page_load [OF al]) auto
  then have "get_page a h1 = e" by (simp add: page h1(1) e(1) page_entry_def)
  then have u: "unmap_page a h1 = h1\<lparr>mem := store32 ?m e v\<rparr>"
    by (simp add: unmap_page_def Let_def h1 CLEAR_ATTRIBUTE_def SET_FRAME_def store32_store32 load32_store32_same v_def)
  moreover have "get_page a ?h0 = e" by (simp add: page e(1) d_def)
  moreover have "\<not> bit v 0" by (simp add: v_def PTE_PRESENT_def bit_simps)
  ultimately show ?thesis
    unfolding with_heap_def using used
    by (intro exI [of _ "unmap_page a h1"] exI [of _ v]) (simp add: h1 h1_def [symmetric])
qed

lemma aligned_words_apart:
  fixes p q t :: u32
  assumes "4 dvd unat p" "4 dvd unat q" "p \<noteq> q" "t < 4"
  shows "4 \<le> q + t - p"
proof -
  have a: "4 \<le> q - p" "4 \<le> p - q" using apart4_aligned [OF assms(1,2)] assms(3) by (simp_all add: apart_def)
  have "unat (q - p) + 4 \<le> 2 ^ 32"
    using a unfolding word_le_nat_alt unat_sub_if_size word_size by (simp split: if_splits)
  then have "unat (q - p) + unat t < 2 ^ 32" using assms(4) by (simp add: word_less_nat_alt)
  then have "unat (q - p + t) = unat (q - p) + unat t" by (simp add: unat_add_no_wrap)
  moreover have "q - p + t = q + t - p" by simp
  ultimately show ?thesis using a(1) by (simp add: word_le_nat_alt)
qed

text \<open>
  Every page of a file is unmapped. The frames \<open>F\<close> are those named when the call starts, as long as
  neither clearing an entry nor clearing a stray bit touches another entry.
\<close>

lemma unmap_file_pages_effect:
  fixes s :: "'a kernel_scheme"
  assumes "page_aligned (directory (kheap s))"
    and "\<And>j. j < k \<Longrightarrow> e j = page_entry (directory (kheap s)) (cmem s) (file_page a j)"
    and "\<And>j. j < k \<Longrightarrow> F j = freed (cmem s) (e j)"
    and "\<And>i j. i < k \<Longrightarrow> j < k \<Longrightarrow> i \<noteq> j \<Longrightarrow> e i \<noteq> e j"
    and "\<And>i j. i < k \<Longrightarrow> j < k \<Longrightarrow> e i \<noteq> slot (directory (kheap s)) (PD_INDEX (file_page a j))"
    and "\<And>i j. i < k \<Longrightarrow> j < k \<Longrightarrow> 2 ^ 20 \<le> unat (F i) \<Longrightarrow>
      4 \<le> map_word (F i) - e j \<and> 4 \<le> map_word (F i) - slot (directory (kheap s)) (PD_INDEX (file_page a j))"
  shows "\<exists>h m'. unmap_file_pages k a s = Some (s\<lparr>kheap := h, cmem := m'\<rparr>) \<and>
    (\<forall>j < k. \<not> bit (load32 m' (e j)) 0) \<and>
    (\<forall>x. (\<forall>j < k. 4 \<le> x - e j) \<longrightarrow> m' x = (if stray_byte F k x then cmem s x AND NOT 1 else cmem s x)) \<and>
    (\<forall>b. block_used h b \<longleftrightarrow> block_used (kheap s) b \<and> (\<forall>j < k. F j \<noteq> 0 \<longrightarrow> b \<noteq> unat (F j)))"
  using assms
proof (induction k arbitrary: a s e F)
  case 0
  then show ?case by (intro exI [of _ "kheap s"] exI [of _ "cmem s"]) (simp add: stray_byte_def)
next
  case (Suc k)
  let ?d = "directory (kheap s)" and ?m = "cmem s" and ?e = "\<lambda>j. e (Suc j)" and ?F = "\<lambda>j. F (Suc j)"
  let ?g = "\<lambda>j. slot ?d (PD_INDEX (file_page a j))"
  have e0: "e 0 = page_entry ?d ?m a" "e 0 \<noteq> slot ?d (PD_INDEX a)" "F 0 = freed ?m (e 0)"
    using Suc.prems(2) [of 0] Suc.prems(3) [of 0] Suc.prems(5) [of 0 0] by (simp_all add: file_page_Suc(1))
  have al: "page_aligned (F 0)" by (simp add: e0(3) freed_def)
  have dvd: "4 dvd unat (e j)" if "j < Suc k" for j using Suc.prems(2) [OF that] by simp
  obtain h v where first: "with_heap (\<lambda>h. Some ((), unmap_page a (free_page (get_page a h) h))) s =
      Some ((), s\<lparr>kheap := h, cmem := store32 (stray_unset (F 0) ?m) (e 0) v\<rparr>)" "directory h = ?d" "\<not> bit v 0"
      "\<And>j. block_used h j \<longleftrightarrow> block_used (kheap s) j \<and> (F 0 \<noteq> 0 \<longrightarrow> j \<noteq> unat (F 0))"
    using unmap_file_page [of s "e 0" a "F 0"] Suc.prems(1) e0 Suc.prems(6) [of 0 0] by (auto simp: file_page_Suc(1))
  let ?m1 = "store32 (stray_unset (F 0) ?m) (e 0) v"
  let ?s = "s\<lparr>kheap := h, cmem := ?m1\<rparr>"
  have entry: "load32 ?m1 (e j) = (if j = 0 then v else load32 ?m (e j))" if "j < Suc k" for j
    using clear_page_load [OF al dvd [OF that] dvd [of 0], of ?m v] Suc.prems(4) [of j 0] Suc.prems(6) [of 0 j] that by auto
  have "load32 ?m1 (?g j) = load32 ?m (?g j)" if "j < Suc k" for j
    using clear_page_load [OF al _ dvd [of 0], of "?g j" ?m v] Suc.prems(1) Suc.prems(5) [of 0 j] Suc.prems(6) [of 0 j] that
    by auto
  then have pe: "page_entry ?d ?m1 (file_page a j) = page_entry ?d ?m (file_page a j)" if "j < Suc k" for j
    using that by (simp add: page_entry_def)
  note shift = file_page_Suc(2) [symmetric]
  have "\<exists>h' m'. unmap_file_pages k (a + PAGE_SIZE) ?s = Some (?s\<lparr>kheap := h', cmem := m'\<rparr>) \<and>
      (\<forall>j < k. \<not> bit (load32 m' (?e j)) 0) \<and>
      (\<forall>x. (\<forall>j < k. 4 \<le> x - ?e j) \<longrightarrow> m' x = (if stray_byte ?F k x then cmem ?s x AND NOT 1 else cmem ?s x)) \<and>
      (\<forall>b. block_used h' b \<longleftrightarrow> block_used (kheap ?s) b \<and> (\<forall>j < k. ?F j \<noteq> 0 \<longrightarrow> b \<noteq> unat (?F j)))"
  proof (rule Suc.IH)
    show "page_aligned (directory (kheap ?s))" using Suc.prems(1) first(2) by simp
    show "?e j = page_entry (directory (kheap ?s)) (cmem ?s) (file_page (a + PAGE_SIZE) j)" if "j < k" for j
      using Suc.prems(2) [of "Suc j"] pe [of "Suc j"] that by (simp add: first(2) shift)
    show "?F j = freed (cmem ?s) (?e j)" if "j < k" for j
      using Suc.prems(3) [of "Suc j"] entry [of "Suc j"] that by (simp add: freed_def)
    show "?e i \<noteq> ?e j" if "i < k" "j < k" "i \<noteq> j" for i j using Suc.prems(4) [of "Suc i" "Suc j"] that by simp
    show "?e i \<noteq> slot (directory (kheap ?s)) (PD_INDEX (file_page (a + PAGE_SIZE) j))" if "i < k" "j < k" for i j
      using Suc.prems(5) [of "Suc i" "Suc j"] that by (simp add: first(2) shift)
    show "4 \<le> map_word (?F i) - ?e j \<and> 4 \<le> map_word (?F i) - slot (directory (kheap ?s)) (PD_INDEX (file_page (a + PAGE_SIZE) j))"
      if "i < k" "j < k" "2 ^ 20 \<le> unat (?F i)" for i j
      using Suc.prems(6) [of "Suc i" "Suc j"] that by (simp add: first(2) shift)
  qed
  then obtain h' m' where rest: "unmap_file_pages k (a + PAGE_SIZE) ?s = Some (?s\<lparr>kheap := h', cmem := m'\<rparr>)"
    "\<And>j. j < k \<Longrightarrow> \<not> bit (load32 m' (?e j)) 0"
    "\<And>x. (\<forall>j < k. 4 \<le> x - ?e j) \<Longrightarrow> m' x = (if stray_byte ?F k x then ?m1 x AND NOT 1 else ?m1 x)"
    "\<And>b. block_used h' b \<longleftrightarrow> block_used h b \<and> (\<forall>j < k. ?F j \<noteq> 0 \<longrightarrow> b \<noteq> unat (?F j))"
    by auto
  have run: "unmap_file_pages (Suc k) a s = Some (s\<lparr>kheap := h', cmem := m'\<rparr>)" using first(1) rest(1) by simp
  have "load32 m' (e 0) = load32 ?m1 (e 0)"
  proof (rule load32_cong)
    fix t :: u32 assume t: "t < 4"
    have "4 \<le> e 0 + t - ?e j" if "j < k" for j
      using aligned_words_apart [of "?e j" "e 0" t] dvd [of "Suc j"] dvd [of 0] Suc.prems(4) [of 0 "Suc j"] that t by simp
    moreover have "\<not> stray_byte ?F k (e 0 + t)"
    proof
      assume "stray_byte ?F k (e 0 + t)"
      then obtain j where "j < k" "2 ^ 20 \<le> unat (?F j)" "e 0 + t = map_word (?F j)" by (auto simp: stray_byte_def)
      then have "4 \<le> e 0 + t - e 0" using Suc.prems(6) [of "Suc j" 0] by simp
      then show False using t by simp
    qed
    ultimately show "m' (e 0 + t) = ?m1 (e 0 + t)" using rest(3) by simp
  qed
  then have absent: "\<not> bit (load32 m' (e j)) 0" if "j < Suc k" for j
    using rest(2) first(3) that by (cases j) (simp_all add: load32_store32_same)
  have "m' x = (if stray_byte F (Suc k) x then ?m x AND NOT 1 else ?m x)" if "\<forall>j < Suc k. 4 \<le> x - e j" for x
  proof -
    have "\<forall>j < k. 4 \<le> x - ?e j" "4 \<le> x - e 0" using that by auto
    then show ?thesis
      using rest(3) by (auto simp: store32_other stray_unset_byte [OF al] stray_byte_Suc and.assoc)
  qed
  moreover have "block_used h' b \<longleftrightarrow> block_used (kheap s) b \<and> (\<forall>j < Suc k. F j \<noteq> 0 \<longrightarrow> b \<noteq> unat (F j))" for b
    using rest(4) [of b] first(4) [of b] by (auto simp: All_less_Suc2)
  ultimately show ?case using run absent by blast
qed

text \<open>
  The page table entries \<open>e\<close> of the file's pages and the directory entries \<open>g\<close> above them are outside
  the two table entries; the pages have different entries, none of which is in the directory;
  and the stray bits \<open>w\<close> that freeing the frames clears are in none of all these.
\<close>

definition close_layout :: "u32 \<Rightarrow> memory \<Rightarrow> u32 \<Rightarrow> u32 \<Rightarrow> u32 \<Rightarrow> nat \<Rightarrow> bool" where
  "close_layout d m f node a k \<longleftrightarrow> page_aligned d \<and> clear_of f 15 node 64 \<and>
     (let e = (\<lambda>j. page_entry d m (file_page a j)); g = (\<lambda>j. slot d (PD_INDEX (file_page a j)))
      in (\<forall>j < k. clear_of f 15 (e j) 4 \<and> clear_of node 64 (e j) 4 \<and> clear_of f 15 (g j) 4 \<and> clear_of node 64 (g j) 4) \<and>
         (\<forall>i < k. \<forall>j < k. (i \<noteq> j \<longrightarrow> e i \<noteq> e j) \<and> e i \<noteq> g j) \<and>
         (\<forall>i < k. 2 ^ 20 \<le> unat (freed m (e i)) \<longrightarrow> (let w = map_word (freed m (e i))
            in 15 \<le> unat (w - f) \<and> 64 \<le> unat (w - node) \<and> (\<forall>j < k. 4 \<le> w - e j \<and> 4 \<le> w - g j))))"

lemma clear_of_not_in:
  assumes "clear_of a n b k" "t < k" "j < n" "n \<le> 2 ^ 32"
  shows "b + of_nat t \<noteq> a + of_nat j"
proof
  assume eq: "b + of_nat t = a + of_nat j"
  have "n \<le> unat (b + of_nat t - a)" using assms(1,2) by (simp add: clear_of_def)
  then have "n \<le> unat (of_nat j :: u32)" by (simp only: eq) simp
  then show False using assms(3,4) by (simp add: unat_of_nat32)
qed

lemma zeroed_entry:
  assumes "clear_of f 15 node 64"
  defines "z \<equiv> \<lambda>m. memset (memset m node 0 64) f 0 OPEN_FILE_SIZE"
  shows "t < 15 \<Longrightarrow> z m (f + of_nat t) = 0" "t < 64 \<Longrightarrow> z m (node + of_nat t) = 0"
    "15 \<le> unat (x - f) \<Longrightarrow> 64 \<le> unat (x - node) \<Longrightarrow> z m x = m x"
  by (simp_all add: z_def memset_effect OPEN_FILE_SIZE_def word_less_nat_alt unat_of_nat32)

lemma load32_outside:
  assumes "clear_of f 15 e 4" "clear_of node 64 e 4"
    and "\<And>x. 15 \<le> unat (x - f) \<Longrightarrow> 64 \<le> unat (x - node) \<Longrightarrow> m' x = m x"
  shows "load32 m' e = load32 m e"
proof -
  have "same_bytes m m' e 4" using assms by (simp add: same_bytes_def clear_of_def)
  from same_load32 [OF this, of 0] show ?thesis by simp
qed

definition file_pages :: "memory \<Rightarrow> u32 \<Rightarrow> nat" where
  "file_pages m node = unat (if bytes_to_blocks (in_size m node) = 0 then 1 else bytes_to_blocks (in_size m node))"

text \<open>The state after the two counts have gone down.\<close>

definition uncount :: "memory \<Rightarrow> u32 \<Rightarrow> u32 \<Rightarrow> memory" where
  "uncount m f node = m(f + 9 := m (f + 9) - 1, node + 62 := m (node + 62) - 1)"

lemma uncount_kept:
  assumes "clear_of f 15 node 64"
  shows "of_inode_index (uncount m f node) f = of_inode_index m f" "of_address (uncount m f node) f = of_address m f"
    "of_max_count (uncount m f node) f = of_max_count m f - 1" "in_size (uncount m f node) node = in_size m node"
    "15 \<le> unat (x - f) \<Longrightarrow> 64 \<le> unat (x - node) \<Longrightarrow> uncount m f node x = m x"
proof -
  have nf: "node + of_nat t \<noteq> f + of_nat j" if "t < 64" "j < 15" for t j
    using clear_of_not_in [OF assms that] by simp
  have less: "of_nat t \<noteq> (of_nat j :: u32)" if "t < j" "j < 64" for t j
    using that by (simp add: word_unat_eq_iff unat_of_nat32)
  have f: "uncount m f node (f + of_nat t) = m (f + of_nat t)" if "t < 9" for t
    using nf [of 62 t] less [of t 9] that by (simp add: uncount_def)
  have n: "uncount m f node (node + of_nat t) = m (node + of_nat t)" if "t < 62" for t
    using nf [of t 9] less [of t 62] that by (simp add: uncount_def)
  show "of_inode_index (uncount m f node) f = of_inode_index m f" using f [of 0] by (simp add: of_inode_index_def)
  show "of_address (uncount m f node) f = of_address m f"
    using same_load32 [of m "uncount m f node" f 9 5] f by (simp add: of_address_def same_bytes_def)
  show "of_max_count (uncount m f node) f = of_max_count m f - 1"
    using nf [of 62 9] by (simp add: of_max_count_def uncount_def)
  show "in_size (uncount m f node) node = in_size m node"
    using same_load32 [of m "uncount m f node" node 62 5] n by (simp add: in_size_def same_bytes_def)
  show "15 \<le> unat (x - f) \<Longrightarrow> 64 \<le> unat (x - node) \<Longrightarrow> uncount m f node x = m x"
    by (auto simp: uncount_def)
qed

lemma sys_close_counts:
  fixes s :: "'a kernel_scheme"
  defines "m \<equiv> cmem s"
  assumes "\<not> fd <s 0" and f: "f = file_entry s fd" and node: "node = inode_entry s (of_inode_index m f)"
    and "in_number m node \<noteq> 0" and "of_max_count m f \<noteq> 0" and clear: "clear_of f 15 node 64"
  shows "sys_close fd s =
    (if of_max_count m f = 1 then do {
       s3 \<leftarrow> unmap_file_pages (file_pages m node) (of_address m f) (s\<lparr>cmem := uncount m f node\<rparr>);
       let node3 = inode_entry s3 (of_inode_index (cmem s3) f);
       Some (0, s3\<lparr>cmem := memset (memset (cmem s3) node3 0 64) f 0 OPEN_FILE_SIZE\<rparr>)
     }
     else Some (0, s\<lparr>cmem := uncount m f node\<rparr>))"
proof -
  note kept = uncount_kept [OF clear]
  have ff: "f \<noteq> f + 9" "node + 62 \<noteq> f" "node + 62 \<noteq> f + 9"
    using clear_of_not_in [OF clear, of 62 0] clear_of_not_in [OF clear, of 62 9] by simp_all
  have index: "of_inode_index (m(f + 9 := v)) f = of_inode_index m f" for v by (simp add: of_inode_index_def)
  have entry: "inode_entry (s\<lparr>cmem := x\<rparr>) = inode_entry s" for x by (simp add: inode_entry_def fun_eq_iff)
  have two: "(m(f + 9 := of_max_count m f - 1))(node + 62 := m (node + 62) - 1) = uncount m f node"
    by (simp add: uncount_def of_max_count_def)
  then have one: "of_max_count m f = 1 \<Longrightarrow> m(f + 9 := 0, node + 62 := m (node + 62) - 1) = uncount m f node" by simp
  show ?thesis
    using assms(2,5,6) kept ff
    by (simp add: sys_close_def Let_def f [symmetric] m_def [symmetric] node [symmetric] entry index two one file_pages_def)
qed

text \<open>
  C32. The last close of a descriptor. Both table entries are zero afterwards and the file's pages are
  no longer present, but their frames \<open>F\<close> are not given back: in the bitmap of the memory manager, the bits that
  are cleared are those numbered by the addresses of the frames, and for a frame from 1 MB on the
  bit lies behind the bitmap, so that closing the file clears bit 0 of the byte at 0x30000 plus an eighth of the
  frame's address. Outside the bitmap, no other memory than these bytes, the two entries and the
  pages' table entries has changed. The inode's entry is wiped whatever its own count says, so another
  descriptor that still uses that inode loses it; and the count of open files does not go down.
\<close>

theorem sys_close_last:
  fixes s :: "'a kernel_scheme"
  defines "m \<equiv> cmem s" and "d \<equiv> directory (kheap s)"
  defines "e \<equiv> \<lambda>f j. page_entry d m (file_page (of_address m f) j)"
  defines "F \<equiv> \<lambda>f j. freed m (e f j)"
  assumes fd: "\<not> fd <s 0" and f: "f = file_entry s fd" and node: "node = inode_entry s (of_inode_index m f)"
    and number: "in_number m node \<noteq> 0" and count: "of_max_count m f = 1"
    and lay: "close_layout d m f node (of_address m f) (file_pages m node)"
  shows "\<exists>s'. sys_close fd s = Some (0, s') \<and> (\<forall>t < 15. cmem s' (f + of_nat t) = 0) \<and>
    (\<forall>t < 64. cmem s' (node + of_nat t) = 0) \<and> current_open_files s' = current_open_files s \<and>
    (\<forall>j < file_pages m node. \<not> bit (load32 (cmem s') (e f j)) 0) \<and>
    (\<forall>b < 2 ^ 20. block_used (kheap s') b \<longleftrightarrow>
       block_used (kheap s) b \<and> (\<forall>j < file_pages m node. F f j \<noteq> 0 \<longrightarrow> b \<noteq> unat (F f j))) \<and>
    (\<forall>x. \<not> (0x30000 \<le> x \<and> x < 0x50000) \<and> 15 \<le> unat (x - f) \<and> 64 \<le> unat (x - node) \<and>
       (\<forall>j < file_pages m node. 4 \<le> x - e f j) \<longrightarrow>
       cmem s' x = (if \<exists>j < file_pages m node. 2 ^ 20 \<le> unat (F f j) \<and> x = 0x30000 + F f j div 8
                    then m x AND NOT 1 else m x))"
proof -
  let ?a = "of_address m f" and ?k = "file_pages m node" and ?u = "uncount m f node"
  let ?e = "e f" and ?g = "\<lambda>j. slot d (PD_INDEX (file_page ?a j))" and ?F = "F f"
  have clear: "clear_of f 15 node 64" and d: "page_aligned d" using lay by (simp_all add: close_layout_def Let_def)
  have out: "clear_of f 15 (?e j) 4" "clear_of node 64 (?e j) 4" "load32 ?u (?g j) = load32 m (?g j)" if "j < ?k" for j
    using lay that load32_outside [of f "?g j" node ?u m] uncount_kept(5) [OF clear]
    by (simp_all add: close_layout_def Let_def e_def)
  then have entry: "page_entry d ?u (file_page ?a j) = ?e j" if "j < ?k" for j using that by (simp add: page_entry_def e_def)
  have frame: "freed ?u (?e j) = ?F j" if "j < ?k" for j
    using out(1,2) [OF that] load32_outside [of f "?e j" node ?u m] uncount_kept(5) [OF clear] by (simp add: freed_def F_def)
  have stray: "2 ^ 20 \<le> unat (?F i) \<Longrightarrow> 15 \<le> unat (map_word (?F i) - f) \<and> 64 \<le> unat (map_word (?F i) - node) \<and>
      (\<forall>j < ?k. 4 \<le> map_word (?F i) - ?e j \<and> 4 \<le> map_word (?F i) - ?g j)" if "i < ?k" for i
    using lay that by (simp add: close_layout_def Let_def e_def F_def)
  have distinct: "(i \<noteq> j \<longrightarrow> ?e i \<noteq> ?e j) \<and> ?e i \<noteq> ?g j" if "i < ?k" "j < ?k" for i j
    using lay that by (simp add: close_layout_def Let_def e_def)
  obtain h m' where un: "unmap_file_pages ?k ?a (s\<lparr>cmem := ?u\<rparr>) = Some (s\<lparr>kheap := h, cmem := m'\<rparr>)"
    "\<And>j. j < ?k \<Longrightarrow> \<not> bit (load32 m' (?e j)) 0"
    "\<And>x. (\<And>j. j < ?k \<Longrightarrow> 4 \<le> x - ?e j) \<Longrightarrow> m' x = (if stray_byte ?F ?k x then ?u x AND NOT 1 else ?u x)"
    "\<And>b. block_used h b \<longleftrightarrow> block_used (kheap s) b \<and> (\<forall>j < ?k. ?F j \<noteq> 0 \<longrightarrow> b \<noteq> unat (?F j))"
    using unmap_file_pages_effect [of "s\<lparr>cmem := ?u\<rparr>" ?k ?e ?a ?F] d entry frame distinct stray
    by (auto simp: d_def [symmetric])
  have "m' f = ?u f"
  proof -
    have "\<not> stray_byte ?F ?k f"
    proof
      assume "stray_byte ?F ?k f"
      then obtain j where j: "j < ?k" "2 ^ 20 \<le> unat (?F j)" and eq: "f = map_word (?F j)" by (auto simp: stray_byte_def)
      have "15 \<le> unat (map_word (?F j) - f)" using stray [OF j] by blast
      then show False unfolding eq [symmetric] by simp
    qed
    moreover have "4 \<le> f - ?e j" if "j < ?k" for j
      using clear_of_field [OF clear_of_sym [OF out(1) [OF that]], of 0 0] by simp
    ultimately show ?thesis using un(3) by simp
  qed
  then have index: "inode_entry (s\<lparr>kheap := h, cmem := m'\<rparr>) (of_inode_index m' f) = node"
    using uncount_kept(1) [OF clear, of m] by (simp add: node inode_entry_def of_inode_index_def)
  define m'' where "m'' = memset (memset m' node 0 64) f 0 OPEN_FILE_SIZE"
  note zero = zeroed_entry [OF clear, of _ m', folded m''_def]
  have "sys_close fd s = Some (0, s\<lparr>kheap := h, cmem := m''\<rparr>)"
    using sys_close_counts [OF fd f] number count clear un(1) index by (simp add: node m_def m''_def Let_def)
  moreover have "\<not> bit (load32 m'' (?e j)) 0" if "j < ?k" for j
    using load32_outside [of f "?e j" node m'' m'] out(1,2) [OF that] zero(3) un(2) [OF that] by simp
  moreover have word: "map_word (?F j) = 0x30000 + ?F j div 8" for j by (simp add: F_def freed_def map_word_frame)
  then have "m'' x = (if \<exists>j < ?k. 2 ^ 20 \<le> unat (?F j) \<and> x = 0x30000 + ?F j div 8 then m x AND NOT 1 else m x)"
    if "15 \<le> unat (x - f)" "64 \<le> unat (x - node)" "\<And>j. j < ?k \<Longrightarrow> 4 \<le> x - ?e j" for x
  proof -
    have "m'' x = (if stray_byte ?F ?k x then m x AND NOT 1 else m x)"
      using zero(3) [OF that(1,2)] un(3) [OF that(3)] uncount_kept(5) [OF clear that(1,2), of m] by (simp only:)
    moreover have "stray_byte ?F ?k x \<longleftrightarrow> (\<exists>j < ?k. 2 ^ 20 \<le> unat (?F j) \<and> x = 0x30000 + ?F j div 8)"
      by (simp only: stray_byte_def word)
    ultimately show ?thesis by (simp only:)
  qed
  ultimately show ?thesis using zero(1,2) un(4) by auto
qed

text \<open>
  Descriptor 0 is the only use of inode 9, with a page at 0x800000 whose table is at 0xA00000 and whose
  frame is 0xB00000: closing it clears the byte 1 at 0x190000.
\<close>

definition example_close_kernel :: kernel where
  "example_close_kernel = example_write_kernel\<lparr>kheap := (kheap example_write_kernel)\<lparr>directory := 0xC00000\<rparr>,
     cmem := (cmem example_write_kernel)(0xC00008 := 7, 0xC0000A := 0xA0, 0xA00000 := 7, 0xA00002 := 0xB0, 0x190000 := 1)\<rparr>"

theorem sys_close_last_witness:
  "\<exists>s'. sys_close 0 example_close_kernel = Some (0, s') \<and> cmem s' 0x600009 = 0 \<and> cmem s' 0x700000 = 0 \<and>
     \<not> bit (load32 (cmem s') 0xA00000) 0 \<and> bit (load32 (cmem example_close_kernel) 0xA00000) 0 \<and>
     cmem s' 0x190000 = 0 \<and> cmem example_close_kernel 0x190000 = 1"
proof -
  let ?s = example_close_kernel and ?m = "cmem example_close_kernel"
  note mem = example_close_kernel_def example_write_kernel_def example_open_kernel_def example_kernel_simps example_fs_def
    load32_def
  have f: "file_entry ?s 0 = 0x600000" "inode_entry ?s 0 = 0x700000" "directory (kheap ?s) = 0xC00000"
    by (simp_all add: file_entry_def inode_entry_def mem)
  have e: "of_address ?m 0x600000 = 0x800000" "of_inode_index ?m 0x600000 = 0" "of_max_count ?m 0x600000 = 1"
    "in_number ?m 0x700000 = 9" "file_pages ?m 0x700000 = 1"
    by (simp_all add: of_address_def of_inode_index_def of_max_count_def in_number_def file_pages_def in_size_def
        bytes_to_blocks_def fs_constants mem)
  have page: "file_page 0x800000 0 = 0x800000" "PD_INDEX 0x800000 = 2" "PT_INDEX 0x800000 = 0"
    by (simp_all add: file_page_def PD_INDEX_def PT_INDEX_def)
  have dir: "slot 0xC00000 2 = 0xC00008" "load32 ?m 0xC00008 = 0xA00007"
    by (simp_all add: slot_def mem)
  have entry: "page_entry 0xC00000 ?m 0x800000 = 0xA00000"
    by (simp add: page_entry_def page dir GET_FRAME_def slot_def)
  have frame: "freed ?m 0xA00000 = 0xB00000" "map_word 0xB00000 = 0x190000"
    by (simp_all add: freed_def GET_FRAME_def map_word_def mem)
  have lay: "close_layout 0xC00000 ?m 0x600000 0x700000 0x800000 1"
    by (simp add: close_layout_def page dir entry clear_of_order frame)
  obtain s' where s': "sys_close 0 ?s = Some (0, s')" "\<forall>t < 15. cmem s' (0x600000 + of_nat t) = 0"
    "\<forall>t < 64. cmem s' (0x700000 + of_nat t) = 0" "\<not> bit (load32 (cmem s') 0xA00000) 0" "cmem s' 0x190000 = ?m 0x190000 AND NOT 1"
    using sys_close_last [of 0 "0x600000" ?s "0x700000"] lay by (auto simp: f e page entry frame)
  have m: "?m 0x190000 = 1" by (simp add: mem)
  have "bit (load32 ?m 0xA00000) 0" by (simp add: mem)
  moreover have "cmem s' 0x600009 = 0" "cmem s' 0x700000 = 0"
    using s'(2) [rule_format, of 9] s'(3) [rule_format, of 0] by simp_all
  ultimately show ?thesis using s'(1,4,5) m by (intro exI [of _ s']) simp
qed

end
