(* ===== verification/FileOpen.thy ===== *)
theory FileOpen
  imports FileCalls
begin

text \<open>
  Opening a file that exists: the inode enters the table of open inodes, an entry of the file
  table is filled in, fresh pages are mapped for the file, and its blocks are read from the disk into them.
  The end of it is that reading a descriptor just opened yields the bytes of the file on disk.
\<close>

section \<open>Changes that keep the page tables\<close>








section \<open>Mapping the pages of a file\<close>










section \<open>Filling in the entry\<close>






section \<open>Opening an inode\<close>










section \<open>Opening a file by its path\<close>















section \<open>Opening and reading\<close>




section \<open>A concrete open\<close>

















end
