(* ===== verification/FormatDisk.thy ===== *)
theory FormatDisk
  imports FsLookup
begin

text \<open>
  \<^verbatim>\<open>format_disk.c\<close>, the program that builds the disk image on the host: its definitions. The
  image is a file with a position; a write fails when it would exceed the space there is. The
  host's directory is a tree; the entries \<^verbatim>\<open>.\<close> and \<^verbatim>\<open>..\<close> that \<^verbatim>\<open>readdir\<close> also returns are not
  part of it. Messages are left out.

  A result is a truth value, as in the code, with the new state. \<open>None\<close> is an access outside
  an array: an eighth direct pointer, or a name that does not fit its 60 bytes. The code's
  \<^verbatim>\<open>superblock.num_inode_bitmap\<close>, \<^verbatim>\<open>FILE_TYPE_DIR\<close> and \<^verbatim>\<open>FILE_TYPE_FILE\<close>, which are not declared,
  are read as \<^verbatim>\<open>num_inodes_bitmap\<close>, \<^verbatim>\<open>file_type_dir\<close> and \<^verbatim>\<open>file_type_file\<close>.
\<close>

section \<open>The image\<close>

record image =
  img_bytes :: "nat \<Rightarrow> u8"
  img_length :: nat
  img_pos :: nat
  img_capacity :: nat

definition fwrite :: "u8 list \<Rightarrow> image \<Rightarrow> bool \<times> image" where
  "fwrite bs f =
     (if img_pos f + length bs \<le> img_capacity f then
        (True, f\<lparr>img_bytes := put_disk (img_pos f) (length bs) (\<lambda>i. bs ! i) (img_bytes f),
                img_length := (if bs = [] then img_length f else max (img_length f) (img_pos f + length bs)),
                img_pos := img_pos f + length bs\<rparr>)
      else (False, f))"

definition fseek_set :: "nat \<Rightarrow> image \<Rightarrow> image" where "fseek_set n f = f\<lparr>img_pos := n\<rparr>"
definition fseek_cur :: "nat \<Rightarrow> image \<Rightarrow> image" where "fseek_cur n f = f\<lparr>img_pos := img_pos f + n\<rparr>"
definition fseek_end :: "image \<Rightarrow> image" where "fseek_end f = f\<lparr>img_pos := img_length f\<rparr>"

text \<open>What is in the directory that becomes the root, as \<^verbatim>\<open>opendir\<close>, \<^verbatim>\<open>readdir\<close> and \<^verbatim>\<open>stat\<close> see it.\<close>

datatype host =
    Regular "u8 list" "u8 list"
  | Directory "u8 list" "host list"
  | Unreadable "u8 list"
  | Special "u8 list"
  | Dangling "u8 list"

primrec host_name :: "host \<Rightarrow> u8 list" where
  "host_name (Regular n c) = n"
| "host_name (Directory n es) = n"
| "host_name (Unreadable n) = n"
| "host_name (Special n) = n"
| "host_name (Dangling n) = n"

text \<open>The globals.\<close>

record format =
  disk_ptr :: image
  fsuper :: super_block
  num_files :: u32
  file_block_count :: u32
  first_block :: u32
  next_inode_id :: u32

definition disk_size :: u32 where "disk_size = 512 * 2880"

text \<open>A step on the image, and the early return on failure.\<close>

definition on_disk :: "(image \<Rightarrow> bool \<times> image) \<Rightarrow> 'a format_scheme \<Rightarrow> bool \<times> 'a format_scheme" where
  "on_disk f s = (let (ok, d) = f (disk_ptr s) in (ok, s\<lparr>disk_ptr := d\<rparr>))"

definition seek :: "(image \<Rightarrow> image) \<Rightarrow> 'a format_scheme \<Rightarrow> 'a format_scheme" where
  "seek f s = s\<lparr>disk_ptr := f (disk_ptr s)\<rparr>"

definition and_then :: "bool \<times> 's \<Rightarrow> ('s \<Rightarrow> bool \<times> 's) \<Rightarrow> bool \<times> 's" where
  "and_then r f = (if fst r then f (snd r) else (False, snd r))"

section \<open>The boot block\<close>

text \<open>
  Six sectors of the second stage; reading one that is not complete counts as nothing read, and
  the rest is zero.
\<close>

fun stage2_sectors :: "nat \<Rightarrow> u8 list \<Rightarrow> u8 list" where
  "stage2_sectors 0 f = []"
| "stage2_sectors (Suc k) f =
     (if 512 \<le> length f then take 512 f @ stage2_sectors k (drop 512 f) else replicate (512 * Suc k) 0)"

definition write_boot_block :: "u8 list option \<Rightarrow> u8 list option \<Rightarrow> 'a format_scheme \<Rightarrow> bool \<times> 'a format_scheme" where
  "write_boot_block boot stage2 s =
     (case boot of None \<Rightarrow> (False, s)
      | Some b \<Rightarrow>
          if length b < 512 then (False, s)
          else case stage2 of None \<Rightarrow> (False, s)
            | Some b2 \<Rightarrow> on_disk (fwrite (take 512 b @ stage2_sectors 6 b2 @ replicate 512 0)) s)"

section \<open>Counting\<close>

text \<open>
  \<open>get_file_info\<close>: the number of files and of blocks. A directory that cannot be opened gives
  \<^verbatim>\<open>EXIT_FAILURE\<close>, which is 1 and so counts as success.
\<close>

fun info_entry :: "host \<Rightarrow> 'a format_scheme \<Rightarrow> bool \<times> 'a format_scheme"
  and info_loop :: "host list \<Rightarrow> u32 \<Rightarrow> 'a format_scheme \<Rightarrow> bool \<times> 'a format_scheme" where
  "info_entry (Regular n c) s = (True, s\<lparr>file_block_count := file_block_count s + bytes_to_blocks (of_nat (length c))\<rparr>)"
| "info_entry (Directory n es) s = info_loop es 2 s"
| "info_entry (Unreadable n) s = (True, s)"
| "info_entry (Special n) s = (True, s)"
| "info_entry (Dangling n) s = (False, s)"
| "info_loop [] dir_entries s =
     (True, s\<lparr>file_block_count := file_block_count s + bytes_to_blocks (dir_entries * 64)\<rparr>)"
| "info_loop (e # es) dir_entries s =
     and_then (info_entry e (s\<lparr>num_files := num_files s + 1\<rparr>)) (info_loop es (dir_entries + 1))"

definition get_file_info :: "host \<Rightarrow> 'a format_scheme \<Rightarrow> bool \<times> 'a format_scheme" where
  "get_file_info dir s = (case dir of Directory n es \<Rightarrow> info_loop es 2 s | _ \<Rightarrow> (True, s))"

section \<open>The superblock and the bitmaps\<close>

definition divide_up :: "u32 \<Rightarrow> u32" where
  "divide_up n = (let k = n div (FS_BLOCK * 8) in if n mod (FS_BLOCK * 8) \<noteq> 0 then k + 1 else k)"

definition layout :: "u32 \<Rightarrow> u32 \<Rightarrow> super_block \<Rightarrow> super_block" where
  "layout files blocks sb =
     (let sb = sb\<lparr>num_inodes := files + 2\<rparr>;
          sb = sb\<lparr>num_inodes_bitmap := divide_up (num_inodes sb)\<rparr>;
          sb = sb\<lparr>num_inodes_per_block := INODES_PER_BLOCK, num_inodes_per_sector := INODES_PER_SECTOR,
                 first_inode_bitmap_block := 2\<rparr>;
          sb = sb\<lparr>first_data_bitmap_block := first_inode_bitmap_block sb + num_inodes_bitmap sb, sb_inode_size := 64\<rparr>;
          sb = sb\<lparr>num_inode_blocks := num_inodes sb div num_inodes_per_block sb\<rparr>;
          data_blocks = bytes_to_blocks disk_size - first_data_bitmap_block sb - num_inode_blocks sb - 1;
          sb = sb\<lparr>num_data_bitmap := divide_up data_blocks\<rparr>;
          sb = sb\<lparr>first_inode_block := first_data_bitmap_block sb + num_data_bitmap sb\<rparr>;
          sb = sb\<lparr>first_data_block := first_inode_block sb + num_inodes sb div num_inodes_per_block sb\<rparr>;
          sb = sb\<lparr>num_datablocks := first_data_block sb + blocks, max_file_size := 0xFFFFFFFF, root_i_number := 0\<rparr>
      in sb\<lparr>first_free_inode_bit := num_inodes sb, first_free_data_bit := first_data_block sb + blocks,
            device_number := 1\<rparr>)"

definition write_superblock :: "'a format_scheme \<Rightarrow> bool \<times> 'a format_scheme" where
  "write_superblock s =
     (let s1 = s\<lparr>fsuper := layout (num_files s) (file_block_count s) (fsuper s)\<rparr>
      in and_then (on_disk (fwrite (superblock_bytes (fsuper s1))) s1)
           (on_disk (fwrite (replicate (4096 - 128) 0))))"

primrec write_chunks :: "nat \<Rightarrow> 'a format_scheme \<Rightarrow> bool \<times> 'a format_scheme" where
  "write_chunks 0 s = (True, s)"
| "write_chunks (Suc k) s = and_then (on_disk (fwrite (bytes32 0xFFFFFFFF)) s) (write_chunks k)"

text \<open>The loop variable is an \<^verbatim>\<open>int\<close> that starts at \<^verbatim>\<open>size - 1\<close>.\<close>

definition write_bitmap :: "u32 \<Rightarrow> u32 \<Rightarrow> 'a format_scheme \<Rightarrow> bool \<times> 'a format_scheme" where
  "write_bitmap first_chunk blocks s =
     (let sz = blocks * FS_BLOCK div 4
      in and_then (on_disk (fwrite (bytes32 first_chunk)) s) (write_chunks (nat (sint (sz - 1)))))"

definition write_inode_bitmap :: "'a format_scheme \<Rightarrow> bool \<times> 'a format_scheme" where
  "write_inode_bitmap s = write_bitmap 0x000000FF (num_inodes_bitmap (fsuper s)) s"

definition write_data_bitmap :: "'a format_scheme \<Rightarrow> bool \<times> 'a format_scheme" where
  "write_data_bitmap s = write_bitmap 0x01FFFFFF (num_data_bitmap (fsuper s)) s"

section \<open>Files and directories\<close>

definition dir_time :: fs_time where
  "dir_time = \<lparr>second = 0, minute = 40, hour = 15, day = 28, month = 7, year = 2025, time_padding = 0\<rparr>"
definition file_time :: fs_time where
  "file_time = \<lparr>second = 6, minute = 13, hour = 18, day = 28, month = 7, year = 2025, time_padding = 0\<rparr>"

text \<open>The loop \<^verbatim>\<open>direct_pointers[i] = first_block; first_block++\<close>, for \<open>k\<close> more blocks.\<close>

primrec assign_blocks :: "nat \<Rightarrow> nat \<Rightarrow> inode \<Rightarrow> 'a format_scheme \<Rightarrow> (inode \<times> 'a format_scheme) option" where
  "assign_blocks 0 i node s = Some (node, s)"
| "assign_blocks (Suc k) i node s =
     (if i < 7 then
        assign_blocks k (i + 1) (node\<lparr>direct_pointers := (direct_pointers node)[i := first_block s]\<rparr>)
          (s\<lparr>first_block := first_block s + 1\<rparr>)
      else None)"

definition write_inode :: "inode \<Rightarrow> 'a format_scheme \<Rightarrow> bool \<times> 'a format_scheme" where
  "write_inode node s =
     (let s1 = seek (fseek_set (unat ((first_inode_block (fsuper s) + i_number node div INODES_PER_BLOCK) * FS_BLOCK))) s;
          s2 = seek (fseek_cur (unat (i_number node mod INODES_PER_BLOCK * 64))) s1
      in on_disk (fwrite (inode_bytes node)) s2)"

text \<open>\<^verbatim>\<open>strcpy\<close> into the 60 bytes of the name, which keep what was behind the terminator.\<close>

definition name_entry :: "u8 list \<Rightarrow> dir_entry \<Rightarrow> dir_entry option" where
  "name_entry n e =
     (if length n < 60 then Some (e\<lparr>entry_name := n @ 0 # drop (length n + 1) (entry_name e)\<rparr>) else None)"

definition write_entry :: "dir_entry \<Rightarrow> 'a format_scheme \<Rightarrow> bool \<times> 'a format_scheme" where
  "write_entry e = on_disk (fwrite (entry_bytes e))"

text \<open>
  The start of \<open>write_file_data\<close>: the directory's inode and its first two entries. \<open>n\<close> is the
  number of entries that \<^verbatim>\<open>readdir\<close> returns.
\<close>

definition start_dir :: "u32 \<Rightarrow> u32 \<Rightarrow> u32 \<Rightarrow> 'a format_scheme \<Rightarrow> (inode \<times> dir_entry \<times> bool \<times> 'a format_scheme) option" where
  "start_dir n curr_inode parent_inode s = do {
     let dir_size = n * 64;
     let node0 = zero_inode\<lparr>i_number := curr_inode, file_type := file_type_dir, inode_size := dir_size, time_created := dir_time\<rparr>;
     (node, s1) \<leftarrow> assign_blocks (unat (bytes_to_blocks dir_size)) 0 node0 s;
     let e = \<lparr>entry_i_number = i_number node, entry_name = replicate 60 0\<rparr>;
     e1 \<leftarrow> name_entry (bytes ''.'') e;
     e2 \<leftarrow> name_entry (bytes ''..'') (e1\<lparr>entry_i_number := parent_inode\<rparr>);
     let r = and_then (write_inode node s1) (\<lambda>t.
       and_then (write_entry e1 (seek (fseek_set (unat (direct_pointers node ! 0 * FS_BLOCK))) t)) (write_entry e2));
     Some (node, e2, r)
   }"

text \<open>The sector by sector copy, and the zeros up to the end of the last block.\<close>

primrec copy_sectors :: "nat \<Rightarrow> u8 list \<Rightarrow> u32 \<Rightarrow> 'a format_scheme \<Rightarrow> u32 \<times> bool \<times> 'a format_scheme" where
  "copy_sectors 0 c total_bytes s = (total_bytes, True, s)"
| "copy_sectors (Suc k) c total_bytes s =
     (let part = take 512 c; (ok, s1) = on_disk (fwrite part) s
      in if ok then copy_sectors k (drop 512 c) (total_bytes + of_nat (length part)) s1 else (total_bytes, False, s1))"

definition pad_block :: "u32 \<Rightarrow> 'a format_scheme \<Rightarrow> bool \<times> 'a format_scheme" where
  "pad_block n = on_disk (fwrite (replicate (unat ((FS_BLOCK - n mod FS_BLOCK) mod FS_BLOCK)) 0))"

text \<open>
  The blocks of a file: 7 to 13 are kept free for the kernel, which is placed at 7 whatever
  \<^verbatim>\<open>first_block\<close> is.
\<close>

definition place_file :: "u8 list \<Rightarrow> u32 \<Rightarrow> inode \<Rightarrow> 'a format_scheme \<Rightarrow> (inode \<times> 'a format_scheme) option" where
  "place_file n sz node s = do {
     let s1 = (if first_block s \<le> 13 \<and> 7 \<le> first_block s \<and> n \<noteq> bytes ''kernel.bin''
               then s\<lparr>first_block := first_block s + 7\<rparr> else s);
     let (temp, s2) = (if n = bytes ''kernel.bin'' then (first_block s1, s1\<lparr>first_block := 7\<rparr>) else (0, s1));
     (node1, s3) \<leftarrow> assign_blocks (unat (bytes_to_blocks sz)) 0 node s2;
     Some (node1, if temp \<noteq> 0 then s3\<lparr>first_block := temp\<rparr> else s3)
   }"

definition write_regular :: "u8 list \<Rightarrow> u8 list \<Rightarrow> u32 \<Rightarrow> 'a format_scheme \<Rightarrow> (bool \<times> 'a format_scheme) option" where
  "write_regular n c num s = do {
     let node0 = zero_inode\<lparr>i_number := num, file_type := file_type_file, inode_size := of_nat (length c), time_created := file_time\<rparr>;
     (node, s1) \<leftarrow> place_file n (inode_size node0) node0 s;
     let size_sectors = inode_size node div FS_SECTOR;
     let size_sectors = (if 0 < inode_size node mod FS_SECTOR then size_sectors + 1 else size_sectors);
     Some (and_then (write_inode node s1) (\<lambda>s2.
       let s3 = seek (fseek_set (unat (direct_pointers node ! 0 * FS_BLOCK))) s2;
           (total, r) = copy_sectors (unat size_sectors) c 0 s3
       in and_then r (pad_block total)))
   }"

text \<open>The number of an entry; \<^verbatim>\<open>strncmp\<close> with 13 characters accepts every name that starts so.\<close>

definition entry_number :: "u8 list \<Rightarrow> 'a format_scheme \<Rightarrow> u32 \<times> 'a format_scheme" where
  "entry_number n s =
     (if take 13 n = bytes ''prekernel.bin'' then (2, s)
      else if n = bytes ''kernel.bin'' then (3, s)
      else (next_inode_id s, s\<lparr>next_inode_id := next_inode_id s + 1\<rparr>))"

text \<open>
  The rest of \<open>write_file_data\<close>: the entries, each with its file or directory written in
  between, and the padding of the directory. The position in the directory is an \<^verbatim>\<open>uint32_t\<close>.
\<close>

function (sequential)
  write_file_data :: "host list \<Rightarrow> u32 \<Rightarrow> u32 \<Rightarrow> 'a format_scheme \<Rightarrow> (bool \<times> 'a format_scheme) option"
  and write_entries :: "host list \<Rightarrow> inode \<Rightarrow> dir_entry \<Rightarrow> 'a format_scheme \<Rightarrow> (bool \<times> 'a format_scheme) option" where
  "write_file_data es cur parent s = do {
     let n = of_nat (length es) + 2;
     (node, e, ok, s1) \<leftarrow> start_dir n cur parent s;
     if ok then do {
       (ok2, s2) \<leftarrow> write_entries es node e s1;
       if ok2 then Some (pad_block (n * 64) s2) else Some (False, s2)
     }
     else Some (False, s1)
   }"
| "write_entries [] node e s = Some (True, s)"
| "write_entries (h # es) node e s = do {
     let (num, s1) = entry_number (host_name h) s;
     e1 \<leftarrow> name_entry (host_name h) (e\<lparr>entry_i_number := num\<rparr>);
     let (ok, s2) = write_entry e1 s1;
     if ok then do {
       let cur_dir_pos = (of_nat (img_pos (disk_ptr s2)) :: u32);
       (ok2, s3) \<leftarrow> (case h of
           Regular n c \<Rightarrow> write_regular n c num s2
         | Directory n sub \<Rightarrow> write_file_data sub num (i_number node) s2
         | Dangling n \<Rightarrow> Some (False, s2)
         | _ \<Rightarrow> Some (True, s2));
       if ok2 then write_entries es node e1 (seek (fseek_set (unat cur_dir_pos)) s3) else Some (False, s3)
     }
     else Some (False, s2)
   }"
  by pat_completeness auto

termination
  by (relation "measure (\<lambda>a. case a of Inl (es, _) \<Rightarrow> 2 * size_list size es + 1 | Inr (es, _) \<Rightarrow> 2 * size_list size es)")
    auto

text \<open>
  \<open>init_inode_data_blocks\<close>: after the files, as many zero blocks as the image already has are
  added at its end.
\<close>

primrec write_zero_blocks :: "nat \<Rightarrow> 'a format_scheme \<Rightarrow> bool \<times> 'a format_scheme" where
  "write_zero_blocks 0 s = (True, s)"
| "write_zero_blocks (Suc k) s = and_then (on_disk (fwrite (replicate 4096 0)) s) (write_zero_blocks k)"

definition init_inode_data_blocks :: "host list \<Rightarrow> 'a format_scheme \<Rightarrow> (bool \<times> 'a format_scheme) option" where
  "init_inode_data_blocks es s = do {
     (ok, s1) \<leftarrow> write_file_data es 1 1 (s\<lparr>first_block := first_data_block (fsuper s)\<rparr>);
     if ok then
       let s2 = seek fseek_end s1;
           diff = bytes_to_blocks (of_nat (img_pos (disk_ptr s2)))
       in Some (write_zero_blocks (unat diff) s2)
     else Some (False, s1)
   }"

definition format_main :: "host list \<Rightarrow> u8 list option \<Rightarrow> u8 list option \<Rightarrow> 'a format_scheme \<Rightarrow> (bool \<times> 'a format_scheme) option" where
  "format_main es boot stage2 s =
     (let (ok, s1) = and_then (and_then (and_then (and_then
          (get_file_info (Directory [] es) s) (write_boot_block boot stage2)) write_superblock)
          write_inode_bitmap) write_data_bitmap
      in if ok then init_inode_data_blocks es s1 else Some (False, s1))"

end
