(* ===== verification/FormatImage.thy ===== *)
theory FormatImage
  imports FormatDisk FsBits
begin

text \<open>
  What the formatting program leaves on the image: the second stage in the boot block, where the
  superblock puts the parts of the disk, and files with their inodes.
\<close>

section \<open>Writing\<close>

lemma fwrite_ok:
  "img_pos f + length bs \<le> img_capacity f \<Longrightarrow> fst (fwrite bs f)"
  by (simp add: fwrite_def)

lemma fwrite_image:
  assumes "img_pos f + length bs \<le> img_capacity f"
  shows "img_bytes (snd (fwrite bs f)) = put_disk (img_pos f) (length bs) (\<lambda>i. bs ! i) (img_bytes f)"
    and "img_pos (snd (fwrite bs f)) = img_pos f + length bs"
    and "img_capacity (snd (fwrite bs f)) = img_capacity f"
  using assms by (simp_all add: fwrite_def)

text \<open>
  A successful step that writes \<open>bs\<close> at the position: what it does to the image, and that the
  rest of the state is kept.
\<close>

definition wrote :: "u8 list \<Rightarrow> 'a format_scheme \<Rightarrow> 'a format_scheme \<Rightarrow> bool" where
  "wrote bs s s' \<longleftrightarrow>
     img_bytes (disk_ptr s') = put_disk (img_pos (disk_ptr s)) (length bs) (\<lambda>i. bs ! i) (img_bytes (disk_ptr s)) \<and>
     img_pos (disk_ptr s') = img_pos (disk_ptr s) + length bs \<and>
     img_capacity (disk_ptr s') = img_capacity (disk_ptr s) \<and> (\<exists>d. s' = s\<lparr>disk_ptr := d\<rparr>)"

lemma on_disk_fwrite:
  assumes "img_pos (disk_ptr s) + length bs \<le> img_capacity (disk_ptr s)"
  shows "\<exists>s'. on_disk (fwrite bs) s = (True, s') \<and> wrote bs s s'"
  using assms by (simp add: on_disk_def fwrite_def wrote_def Let_def) (auto intro: exI [of _ "disk_ptr s"])

lemma put_disk_lists:
  "put_disk (c + length bs) (length cs) (\<lambda>i. cs ! i) (put_disk c (length bs) (\<lambda>i. bs ! i) p) =
   put_disk c (length (bs @ cs)) (\<lambda>i. (bs @ cs) ! i) p"
  by (auto simp: put_disk_def fun_eq_iff nth_append)

lemma wrote_append: "wrote bs s t \<Longrightarrow> wrote cs t u \<Longrightarrow> wrote (bs @ cs) s u"
  unfolding wrote_def using put_disk_lists [of "img_pos (disk_ptr s)" bs cs "img_bytes (disk_ptr s)"]
  by (auto simp: add.assoc)

lemma wrote_nil: "wrote [] s s"
  by (auto simp: wrote_def put_disk_def fun_eq_iff intro: exI [of _ "disk_ptr s"])

lemma wrote_same:
  assumes "wrote bs s s'"
  shows "fsuper s' = fsuper s" "num_files s' = num_files s" "file_block_count s' = file_block_count s"
    "first_block s' = first_block s" "next_inode_id s' = next_inode_id s"
  using assms by (auto simp: wrote_def)

lemma wrote_at:
  "wrote bs s s' \<Longrightarrow> i < length bs \<Longrightarrow> img_bytes (disk_ptr s') (img_pos (disk_ptr s) + i) = bs ! i"
  by (simp add: wrote_def put_disk_def)

section \<open>The boot block\<close>

lemma length_stage2 [simp]: "length (stage2_sectors k f) = 512 * k"
  by (induction k f rule: stage2_sectors.induct) auto

lemma stage2_nth:
  "i < 512 * k \<Longrightarrow> stage2_sectors k f ! i = (if i < 512 * (length f div 512) then f ! i else 0)"
proof (induction k f arbitrary: i rule: stage2_sectors.induct)
  case (2 k f)
  show ?case
  proof (cases "512 \<le> length f")
    case True
    have len: "length f div 512 = Suc (length (drop 512 f) div 512)" using True by (simp add: le_div_geq)
    show ?thesis
    proof (cases "i < 512")
      case False
      then have "stage2_sectors (Suc k) f ! i = stage2_sectors k (drop 512 f) ! (i - 512)"
        using True by (simp add: nth_append)
      also have "\<dots> = (if i - 512 < 512 * (length (drop 512 f) div 512) then drop 512 f ! (i - 512) else 0)"
        using 2 True False by simp
      also have "\<dots> = (if i < 512 * (length f div 512) then f ! i else 0)"
        unfolding len using True False by auto
      finally show ?thesis .
    qed (use True len in \<open>simp add: nth_append\<close>)
  next
    case False
    then show ?thesis using 2 by simp
  qed
qed simp

text \<open>
  With both boot loaders there, the first block of the image is the first stage followed by
  the complete sectors of the second stage, at most six; a last sector that is not complete is
  replaced by zeros.
\<close>

lemma write_boot_block_sectors:
  assumes "512 \<le> length b" and "img_pos (disk_ptr s) = 0" and "4096 \<le> img_capacity (disk_ptr s)"
  shows "\<exists>s'. write_boot_block (Some b) (Some b2) s = (True, s') \<and> img_pos (disk_ptr s') = 4096 \<and>
    (\<forall>i < 512. img_bytes (disk_ptr s') i = b ! i) \<and>
    (\<forall>i < 3584. img_bytes (disk_ptr s') (512 + i) = (if i < 512 * min 6 (length b2 div 512) then b2 ! i else 0))"
proof -
  let ?bs = "take 512 b @ stage2_sectors 6 b2 @ replicate 512 0"
  have len: "length ?bs = 4096" using assms(1) by simp
  obtain s' where s': "on_disk (fwrite ?bs) s = (True, s')" "wrote ?bs s s'"
    using on_disk_fwrite [of s ?bs] assms len by auto
  have at: "img_bytes (disk_ptr s') i = ?bs ! i" if "i < 4096" for i
    using wrote_at [OF s'(2), of i] assms(2) len that by simp
  have "img_bytes (disk_ptr s') i = b ! i" if "i < 512" for i
    using at [of i] assms(1) that by (simp add: nth_append)
  moreover have "img_bytes (disk_ptr s') (512 + i) = (if i < 512 * min 6 (length b2 div 512) then b2 ! i else 0)"
    if "i < 3584" for i
    using at [of "512 + i"] assms(1) that stage2_nth [of i 6 b2] by (auto simp: nth_append)
  moreover have "img_pos (disk_ptr s') = 4096" using s'(2) len assms(2) by (simp add: wrote_def)
  ultimately show ?thesis using s'(1) assms(1) by (auto simp: write_boot_block_def)
qed

section \<open>The superblock and the bitmaps\<close>

lemma take_drop_words:
  "k < length ws \<Longrightarrow> take 4 (drop (4 * k) (concat (map bytes32 ws) @ r)) = bytes32 (ws ! k)"
proof (induction ws arbitrary: k)
  case (Cons w ws)
  then show ?case by (cases k) simp_all
qed simp

lemma load_superblock_bytes:
  assumes "length (sb_padding sb) = 52" and "length (superblock_bytes sb @ r) \<le> 2 ^ 32"
  shows "load_superblock (put_list 0 (superblock_bytes sb @ r) m) 0 = sb"
proof -
  let ?B = "superblock_bytes sb @ r" and ?ws = "superblock_words sb"
  have B: "?B = concat (map bytes32 ?ws) @ sb_padding sb @ r" by (simp add: superblock_bytes_def)
  have len: "length ?ws = 19" by (simp add: superblock_words_def)
  have w: "load32 (put_list 0 ?B m) (of_nat (4 * k)) = ?ws ! k" if "k < 19" for k
    using load32_put_list [of "4 * k" ?B "?ws ! k" 0 m] take_drop_words [of k ?ws "sb_padding sb @ r"] that len assms(2)
    unfolding B by simp
  have p: "put_list 0 ?B m (76 + of_nat k) = sb_padding sb ! k" if "k < 52" for k
    using put_list_at [of "76 + k" ?B 0 m] that assms
    by (simp add: B nth_append len)
  have "sb_padding (load_superblock (put_list 0 ?B m) 0) = sb_padding sb"
    using assms(1) p by (intro nth_equalityI) (simp_all add: load_superblock_def)
  moreover have "num_inodes (load_superblock (put_list 0 ?B m) 0) = num_inodes sb"
    using w [of 0] by (simp add: load_superblock_def superblock_words_def)
  moreover have "num_inodes_bitmap (load_superblock (put_list 0 ?B m) 0) = num_inodes_bitmap sb"
    using w [of 1] by (simp add: load_superblock_def superblock_words_def)
  moreover have "num_data_bitmap (load_superblock (put_list 0 ?B m) 0) = num_data_bitmap sb"
    using w [of 2] by (simp add: load_superblock_def superblock_words_def)
  moreover have "num_inodes_per_block (load_superblock (put_list 0 ?B m) 0) = num_inodes_per_block sb"
    using w [of 3] by (simp add: load_superblock_def superblock_words_def)
  moreover have "num_inodes_per_sector (load_superblock (put_list 0 ?B m) 0) = num_inodes_per_sector sb"
    using w [of 4] by (simp add: load_superblock_def superblock_words_def)
  moreover have "num_inode_blocks (load_superblock (put_list 0 ?B m) 0) = num_inode_blocks sb"
    using w [of 5] by (simp add: load_superblock_def superblock_words_def)
  moreover have "first_inode_bitmap (load_superblock (put_list 0 ?B m) 0) = first_inode_bitmap sb"
    using w [of 6] by (simp add: load_superblock_def superblock_words_def)
  moreover have "first_inode_bitmap_block (load_superblock (put_list 0 ?B m) 0) = first_inode_bitmap_block sb"
    using w [of 7] by (simp add: load_superblock_def superblock_words_def)
  moreover have "first_data_bitmap_block (load_superblock (put_list 0 ?B m) 0) = first_data_bitmap_block sb"
    using w [of 8] by (simp add: load_superblock_def superblock_words_def)
  moreover have "first_data_bitmap (load_superblock (put_list 0 ?B m) 0) = first_data_bitmap sb"
    using w [of 9] by (simp add: load_superblock_def superblock_words_def)
  moreover have "first_inode_block (load_superblock (put_list 0 ?B m) 0) = first_inode_block sb"
    using w [of 10] by (simp add: load_superblock_def superblock_words_def)
  moreover have "first_data_block (load_superblock (put_list 0 ?B m) 0) = first_data_block sb"
    using w [of 11] by (simp add: load_superblock_def superblock_words_def)
  moreover have "sb_inode_size (load_superblock (put_list 0 ?B m) 0) = sb_inode_size sb"
    using w [of 12] by (simp add: load_superblock_def superblock_words_def)
  moreover have "num_datablocks (load_superblock (put_list 0 ?B m) 0) = num_datablocks sb"
    using w [of 13] by (simp add: load_superblock_def superblock_words_def)
  moreover have "max_file_size (load_superblock (put_list 0 ?B m) 0) = max_file_size sb"
    using w [of 14] by (simp add: load_superblock_def superblock_words_def)
  moreover have "root_i_number (load_superblock (put_list 0 ?B m) 0) = root_i_number sb"
    using w [of 15] by (simp add: load_superblock_def superblock_words_def)
  moreover have "first_free_inode_bit (load_superblock (put_list 0 ?B m) 0) = first_free_inode_bit sb"
    using w [of 16] by (simp add: load_superblock_def superblock_words_def)
  moreover have "first_free_data_bit (load_superblock (put_list 0 ?B m) 0) = first_free_data_bit sb"
    using w [of 17] by (simp add: load_superblock_def superblock_words_def)
  moreover have "device_number (load_superblock (put_list 0 ?B m) 0) = device_number sb"
    using w [of 18] by (simp add: load_superblock_def superblock_words_def)
  ultimately show ?thesis by (intro super_block.equality) simp_all
qed

lemma at_disk_put: "at_disk (put_disk c n f p) c = put_bytes 0 n f (at_disk p c)"
  by (auto simp: at_disk_def put_disk_def put_bytes_def fun_eq_iff)

lemma write_chunks_wrote:
  "img_pos (disk_ptr s) + 4 * k \<le> img_capacity (disk_ptr s) \<Longrightarrow>
     \<exists>s'. write_chunks k s = (True, s') \<and> wrote (replicate (4 * k) 255) s s'"
proof (induction k arbitrary: s)
  case (Suc k)
  have r4: "[255, 255, 255, 255 :: u8] = replicate 4 255" by (simp add: numeral_eq_Suc)
  have b: "bytes32 0xFFFFFFFF = replicate 4 255" unfolding r4 [symmetric] by (simp add: bytes32_def)
  obtain t where t: "on_disk (fwrite (bytes32 0xFFFFFFFF)) s = (True, t)" "wrote (replicate 4 255) s t"
    using on_disk_fwrite [of s "bytes32 0xFFFFFFFF"] Suc.prems unfolding b by auto
  have "img_pos (disk_ptr t) + 4 * k \<le> img_capacity (disk_ptr t)" using t(2) Suc.prems by (simp add: wrote_def)
  then obtain s' where s': "write_chunks k t = (True, s')" "wrote (replicate (4 * k) 255) t s'" using Suc.IH by blast
  have "replicate 4 255 @ replicate (4 * k) 255 = (replicate (4 * Suc k) 255 :: u8 list)"
    by (simp flip: replicate_add)
  then have "wrote (replicate (4 * Suc k) 255) s s'" using wrote_append [OF t(2) s'(2)] by simp
  then show ?case using t(1) s'(1) by (simp add: and_then_def)
qed (simp add: wrote_nil)

lemma write_bitmap_wrote:
  assumes "img_pos (disk_ptr s) + 4096 \<le> img_capacity (disk_ptr s)"
  shows "\<exists>s'. write_bitmap c 1 s = (True, s') \<and> wrote (bytes32 c @ replicate 4092 255) s s'"
proof -
  obtain t where t: "on_disk (fwrite (bytes32 c)) s = (True, t)" "wrote (bytes32 c) s t"
    using on_disk_fwrite [of s "bytes32 c"] assms by auto
  have "img_pos (disk_ptr t) + 4 * 1023 \<le> img_capacity (disk_ptr t)" using t(2) assms by (simp add: wrote_def)
  then obtain s' where s': "write_chunks 1023 t = (True, s')" "wrote (replicate 4092 255) t s'"
    using write_chunks_wrote [of t 1023] by auto
  have "nat (sint (1 * FS_BLOCK div 4 - 1 :: u32)) = 1023" by (simp add: FS_BLOCK_def)
  then show ?thesis using t(1) s'(1) wrote_append [OF t(2) s'(2)] by (simp add: write_bitmap_def and_then_def)
qed

text \<open>The places for a number of files that fits the disk.\<close>

lemma layout_small:
  assumes "unat files < 22000"
  shows "num_inodes (layout files blocks sb) = files + 2" "num_inodes_bitmap (layout files blocks sb) = 1"
    "first_inode_bitmap_block (layout files blocks sb) = 2" "first_data_bitmap_block (layout files blocks sb) = 3"
    "num_data_bitmap (layout files blocks sb) = 1" "first_inode_block (layout files blocks sb) = 4"
    "first_data_block (layout files blocks sb) = 4 + (files + 2) div 64"
    "first_inode_bitmap (layout files blocks sb) = first_inode_bitmap sb" "sb_padding (layout files blocks sb) = sb_padding sb"
proof -
  have n: "unat (files + 2) = unat files + 2" using assms by (simp add: unat_add_no_wrap)
  have "unat ((files + 2) div 32768) = 0" "unat ((files + 2) mod 32768) = unat files + 2"
    using assms by (simp_all add: unat_div unat_mod n)
  then have "(files + 2) div 32768 = 0" "(files + 2) mod 32768 \<noteq> 0"
    by (simp only: unat_eq_zero, metis add_is_0 unat_0 zero_neq_numeral)
  then have up: "divide_up (files + 2) = 1" by (simp add: divide_up_def FS_BLOCK_def Let_def)
  let ?q = "(files + 2) div 64"
  have q: "unat ?q = (unat files + 2) div 64" by (simp add: unat_div n)
  have "(unat files + 2) div 64 \<le> 343" using assms by linarith
  then have "unat (356 - ?q) = 356 - unat ?q" using unat_sub [of ?q 356] by (simp add: word_le_nat_alt q)
  then have e: "unat (356 - ?q) = 356 - (unat files + 2) div 64" by (simp only: q)
  have "unat ((356 - ?q) div 32768) = 0" "unat ((356 - ?q) mod 32768) \<noteq> 0"
    unfolding unat_div [of "356 - ?q"] unat_mod [of "356 - ?q"] e using \<open>(unat files + 2) div 64 \<le> 343\<close> by simp_all
  then have "(356 - ?q) div 32768 = 0" "(356 - ?q) mod 32768 \<noteq> 0" by (metis unat_eq_zero, metis unat_0)
  then have up2: "divide_up (356 - ?q) = 1" by (simp add: divide_up_def FS_BLOCK_def Let_def)
  have d: "bytes_to_blocks disk_size - 3 - ?q - 1 = 356 - ?q"
    by (simp add: bytes_to_blocks_def disk_size_def fs_constants)
  note L = layout_def Let_def up INODES_PER_BLOCK_def
  show "num_inodes (layout files blocks sb) = files + 2" "num_inodes_bitmap (layout files blocks sb) = 1"
    "first_inode_bitmap_block (layout files blocks sb) = 2" "first_data_bitmap_block (layout files blocks sb) = 3"
    "first_inode_bitmap (layout files blocks sb) = first_inode_bitmap sb" "sb_padding (layout files blocks sb) = sb_padding sb"
    by (simp_all add: L)
  show "num_data_bitmap (layout files blocks sb) = 1" "first_inode_block (layout files blocks sb) = 4"
    "first_data_block (layout files blocks sb) = 4 + (files + 2) div 64"
    using d up2 by (simp_all add: L)
qed

lemma length_layout_bytes:
  "length (sb_padding sb) = 52 \<Longrightarrow> length (superblock_bytes sb) = 128"
  by simp

lemma bytes32_nth:
  assumes "j < 4"
  shows "bytes32 c ! j = ucast (drop_bit (8 * j) c)"
proof -
  have "j = 0 \<or> j = 1 \<or> j = 2 \<or> j = 3" using assms by auto
  then show ?thesis by (elim disjE) (simp_all add: bytes32_def)
qed

lemma round_down_overlap:
  fixes n q r :: nat
  assumes "n + 2 = 64 * q + r"
  shows "4096 * q \<le> 64 * (n + 1) \<longleftrightarrow> 0 < r"
proof -
  have "64 * (64 * q) \<le> 64 * (n + 1) \<longleftrightarrow> 64 * q \<le> n + 1" by (rule nat_mult_le_cancel1) simp
  then have "4096 * q \<le> 64 * (n + 1) \<longleftrightarrow> 64 * q \<le> n + 1" by (simp only: mult.assoc [symmetric]) simp
  moreover have "64 * q \<le> n + 1 \<longleftrightarrow> 0 < r" using assms by auto
  ultimately show ?thesis by blast
qed

lemma bit_first_chunk:
  assumes "k < 32768"
  shows "bit ((bytes32 c @ replicate 4092 255) ! (k div 8)) (k mod 8) \<longleftrightarrow> 32 \<le> k \<or> bit c k"
proof (cases "32 \<le> k")
  case True
  then have "\<not> k div 8 < 4" by simp
  then have e: "(bytes32 c @ replicate 4092 255) ! (k div 8) = 255" using assms by (simp add: nth_append)
  have m: "(255 :: u8) = mask 8" by (simp add: mask_eq_exp_minus_1)
  have "bit (255 :: u8) (k mod 8)" unfolding m bit_mask_iff by simp
  then show ?thesis unfolding e using True by blast
next
  case False
  then have j: "k div 8 < 4" by simp
  have "(bytes32 c @ replicate 4092 255) ! (k div 8) = ucast (drop_bit (8 * (k div 8)) c)"
    using j bytes32_nth [OF j] by (simp add: nth_append)
  then show ?thesis using False by (simp add: bit_simps)
qed

text \<open>The superblock's block and the two bitmaps, written one after another.\<close>

definition layout_blocks :: "super_block \<Rightarrow> u8 list" where
  "layout_blocks sb = superblock_bytes sb @ replicate (4096 - 128) 0 @
     (bytes32 0xFF @ replicate 4092 255) @ (bytes32 0x01FFFFFF @ replicate 4092 255)"

lemma layout_blocks_wrote:
  fixes s :: "'a format_scheme"
  defines "sb \<equiv> layout (num_files s) (file_block_count s) (fsuper s)"
  assumes small: "unat (num_files s) < 22000" and pad: "length (sb_padding sb) = 52"
    and pos: "img_pos (disk_ptr s) = 4096" and cap: "4 * 4096 \<le> img_capacity (disk_ptr s)"
  shows "\<exists>s'. and_then (and_then (write_superblock s) write_inode_bitmap) write_data_bitmap = (True, s') \<and>
    wrote (layout_blocks sb) (s\<lparr>fsuper := sb\<rparr>) s' \<and> fsuper s' = sb"
proof -
  note lay = layout_small [OF small, of "file_block_count s" "fsuper s", folded sb_def]
  let ?z = "replicate (4096 - 128) 0 :: u8 list" and ?t0 = "s\<lparr>fsuper := sb\<rparr>"
  obtain t1 where t1: "on_disk (fwrite (superblock_bytes sb)) ?t0 = (True, t1)" "wrote (superblock_bytes sb) ?t0 t1"
    using on_disk_fwrite [of ?t0 "superblock_bytes sb"] pad pos cap by auto
  then obtain t2 where t2: "on_disk (fwrite ?z) t1 = (True, t2)" "wrote ?z t1 t2"
    using on_disk_fwrite [of t1 ?z] pad pos cap by (auto simp: wrote_def)
  then obtain t3 where t3: "write_bitmap 0xFF 1 t2 = (True, t3)" "wrote (bytes32 0xFF @ replicate 4092 255) t2 t3"
    using write_bitmap_wrote [of t2 "0xFF"] t1 pad pos cap by (auto simp: wrote_def)
  then obtain t4 where t4: "write_bitmap 0x01FFFFFF 1 t3 = (True, t4)" "wrote (bytes32 0x01FFFFFF @ replicate 4092 255) t3 t4"
    using write_bitmap_wrote [of t3 "0x01FFFFFF"] t1 t2 pad pos cap by (auto simp: wrote_def)
  have "wrote (layout_blocks sb) ?t0 t4"
    unfolding layout_blocks_def
    using wrote_append [OF t1(2)] wrote_append [OF t2(2)] wrote_append [OF t3(2)] t4(2) by blast
  moreover have "fsuper t2 = sb" "fsuper t3 = sb" "fsuper t4 = sb"
    using wrote_same(1) [OF t1(2)] wrote_same(1) [OF t2(2)] wrote_same(1) [OF t3(2)] wrote_same(1) [OF t4(2)] by simp_all
  ultimately show ?thesis
    using t1(1) t2(1) t3(1) t4(1) lay(2,5)
    by (simp add: write_superblock_def write_inode_bitmap_def write_data_bitmap_def and_then_def sb_def [symmetric])
qed

lemma layout_blocks_bits:
  assumes pad: "length (sb_padding sb) = 52" and k: "k < 32768"
  defines "p \<equiv> \<lambda>p0. put_disk 4096 (length (layout_blocks sb)) (\<lambda>i. layout_blocks sb ! i) p0"
  shows "bit (p p0 (2 * 4096 + k div 8)) (k mod 8) \<longleftrightarrow> k < 8 \<or> 32 \<le> k"
    and "bit (p p0 (3 * 4096 + k div 8)) (k mod 8) \<longleftrightarrow> k < 25 \<or> 32 \<le> k"
proof -
  have masks: "(0xFF :: u32) = mask 8" "(0x01FFFFFF :: u32) = mask 25" by (simp_all add: mask_eq_exp_minus_1)
  have free: "bit (0xFF :: u32) k \<longleftrightarrow> k < 8" "bit (0x01FFFFFF :: u32) k \<longleftrightarrow> k < 25"
    unfolding masks bit_mask_iff by auto
  have "p p0 (2 * 4096 + k div 8) = (bytes32 0xFF @ replicate 4092 255) ! (k div 8)"
    "p p0 (3 * 4096 + k div 8) = (bytes32 0x01FFFFFF @ replicate 4092 255) ! (k div 8)"
    using k pad by (simp_all add: p_def put_disk_def layout_blocks_def nth_append)
  then show "bit (p p0 (2 * 4096 + k div 8)) (k mod 8) \<longleftrightarrow> k < 8 \<or> 32 \<le> k"
    "bit (p p0 (3 * 4096 + k div 8)) (k mod 8) \<longleftrightarrow> k < 25 \<or> 32 \<le> k"
    using bit_first_chunk [OF k, of "0xFF"] bit_first_chunk [OF k, of "0x01FFFFFF"] unfolding free by auto
qed

text \<open>
  C33. After the boot block, with the directory counted and few enough files for the disk, the
  superblock is in block 1, where it can be read back; the bitmaps are in the blocks that it
  names, 2 and 3, and the next byte written is the first of the inode table. Read with a set
  bit for "in use", as \<^verbatim>\<open>find_free_bit\<close> does, only the inodes 8 to 31 and the data bits 25 to
  31 are free, whatever the number of files.
\<close>

theorem format_layout:
  fixes s :: "'a format_scheme"
  defines "sb \<equiv> layout (num_files s) (file_block_count s) (fsuper s)"
  assumes "unat (num_files s) < 22000" and "length (sb_padding (fsuper s)) = 52"
    and pos: "img_pos (disk_ptr s) = 4096" and cap: "4 * 4096 \<le> img_capacity (disk_ptr s)"
  shows "\<exists>s'. and_then (and_then (write_superblock s) write_inode_bitmap) write_data_bitmap = (True, s') \<and>
    fsuper s' = sb \<and> load_superblock (at_disk (img_bytes (disk_ptr s')) 4096) 0 = sb \<and>
    first_inode_bitmap_block sb = 2 \<and> first_data_bitmap_block sb = 3 \<and>
    img_pos (disk_ptr s') = 4096 * unat (first_inode_block sb) \<and>
    (\<forall>k < 32768. bit (img_bytes (disk_ptr s') (2 * 4096 + k div 8)) (k mod 8) \<longleftrightarrow> k < 8 \<or> 32 \<le> k) \<and>
    (\<forall>k < 32768. bit (img_bytes (disk_ptr s') (3 * 4096 + k div 8)) (k mod 8) \<longleftrightarrow> k < 25 \<or> 32 \<le> k)"
proof -
  note lay = layout_small [OF assms(2), of "file_block_count s" "fsuper s", folded sb_def]
  have pad: "length (sb_padding sb) = 52" using assms(3) lay(9) by simp
  then have len: "length (layout_blocks sb) = 3 * 4096" by (simp add: layout_blocks_def)
  obtain s' where s': "and_then (and_then (write_superblock s) write_inode_bitmap) write_data_bitmap = (True, s')"
    "wrote (layout_blocks sb) (s\<lparr>fsuper := sb\<rparr>) s'" "fsuper s' = sb"
    using layout_blocks_wrote [of s] assms(2) pad pos cap unfolding sb_def by blast
  let ?p = "put_disk 4096 (length (layout_blocks sb)) (\<lambda>i. layout_blocks sb ! i) (img_bytes (disk_ptr s))"
  have img: "img_bytes (disk_ptr s') = ?p" and pos': "img_pos (disk_ptr s') = 4 * 4096"
    using s'(2) pos len by (simp_all add: wrote_def)
  have "load_superblock (at_disk ?p 4096) 0 = sb"
    using load_superblock_bytes [OF pad, of "drop 128 (layout_blocks sb)" "at_disk (img_bytes (disk_ptr s)) 4096"] len pad
    unfolding at_disk_put put_list_def by (simp add: layout_blocks_def)
  then show ?thesis
    using s'(1,3) img lay(3,4,6) pos' layout_blocks_bits [OF pad] by (intro exI [of _ s']) simp
qed

text \<open>
  The number of inode blocks is rounded down: unless the number of inodes is a multiple of
  64, the table's last inode lies at or behind the start of the data blocks.
\<close>

lemma inode_table_overlaps_data:
  fixes files blocks :: u32 and sb0 :: super_block
  assumes "unat files < 22000"
  defines "sb \<equiv> layout files blocks sb0"
  shows "4096 * unat (first_data_block sb) \<le> inode_place sb (num_inodes sb - 1) \<longleftrightarrow> unat (num_inodes sb) mod 64 \<noteq> 0"
proof -
  note lay = layout_small [OF assms(1), of blocks sb0, folded sb_def]
  have n: "unat (files + 2) = unat files + 2" "unat (files + 1) = unat files + 1"
    using assms(1) by (simp_all add: unat_add_no_wrap)
  have "unat ((files + 2) div 64) = (unat files + 2) div 64" unfolding unat_div n by simp
  then have d: "unat (4 + (files + 2) div 64) = 4 + (unat files + 2) div 64"
    using assms(1) by (subst unat_add_no_wrap) simp_all
  have m: "num_inodes sb - 1 = files + 1" using lay(1) by simp
  have "inode_place sb (num_inodes sb - 1) = 4 * 4096 + 64 * (unat files + 1)"
    unfolding inode_place_def m lay(6) n(2) by simp
  moreover have "4096 * ((unat files + 2) div 64) \<le> 64 * (unat files + 1) \<longleftrightarrow> (unat files + 2) mod 64 \<noteq> 0"
  proof -
    define q r where "q = (unat files + 2) div 64" and "r = (unat files + 2) mod 64"
    have n: "unat files + 2 = 64 * q + r" by (simp add: q_def r_def)
    from round_down_overlap [OF n]
    show ?thesis by (simp add: q_def r_def)
  qed
  ultimately show ?thesis using lay(1,7) n d by simp
qed

section \<open>Files\<close>

lemma block_and_slot:
  fixes b q r n :: nat
  assumes "64 * q + r = n"
  shows "4096 * (b + q) + 64 * r = 4096 * b + 64 * n"
  unfolding assms [symmetric] by (simp add: distrib_left)

text \<open>A write at a place of the image.\<close>

definition wrote_at :: "nat \<Rightarrow> u8 list \<Rightarrow> 'a format_scheme \<Rightarrow> 'a format_scheme \<Rightarrow> bool" where
  "wrote_at c bs s s' \<longleftrightarrow> wrote bs (seek (fseek_set c) s) s'"

lemma seek_simps [simp]:
  "img_pos (disk_ptr (seek (fseek_set c) s)) = c"
  "img_bytes (disk_ptr (seek (fseek_set c) s)) = img_bytes (disk_ptr s)"
  "img_capacity (disk_ptr (seek (fseek_set c) s)) = img_capacity (disk_ptr s)"
  "fsuper (seek f s) = fsuper s" "first_block (seek f s) = first_block s"
  by (simp_all add: seek_def fseek_set_def)

lemma wrote_at_image:
  assumes "wrote_at c bs s s'"
  shows "img_bytes (disk_ptr s') = put_disk c (length bs) (\<lambda>i. bs ! i) (img_bytes (disk_ptr s))"
    and "img_pos (disk_ptr s') = c + length bs" and "img_capacity (disk_ptr s') = img_capacity (disk_ptr s)"
    and "fsuper s' = fsuper s" and "first_block s' = first_block s"
  using assms wrote_same [OF assms [unfolded wrote_at_def]] by (simp_all add: wrote_at_def wrote_def)

lemma on_disk_at:
  "c + length bs \<le> img_capacity (disk_ptr s) \<Longrightarrow>
     \<exists>s'. on_disk (fwrite bs) (seek (fseek_set c) s) = (True, s') \<and> wrote_at c bs s s'"
  using on_disk_fwrite [of "seek (fseek_set c) s" bs] by (simp add: wrote_at_def)

lemma write_inode_at:
  assumes "inode_ok (fsuper s) (i_number node)" and "inode_place (fsuper s) (i_number node) + 64 \<le> img_capacity (disk_ptr s)"
    and "length (direct_pointers node) = 7"
  shows "\<exists>s'. write_inode node s = (True, s') \<and> wrote_at (inode_place (fsuper s) (i_number node)) (inode_bytes node) s s'"
proof -
  let ?n = "i_number node" and ?b = "first_inode_block (fsuper s)"
  have lt: "4096 * unat ?b + 64 * unat ?n < 2 ^ 32" using assms(1) by (simp add: inode_ok_def inode_place_def)
  have "unat (?b + ?n div 64) = unat ?b + unat ?n div 64"
    using lt by (subst unat_add_no_wrap) (simp_all add: unat_div)
  moreover have "unat ?b + unat ?n div 64 < 2 ^ 20"
  proof -
    have "64 * (unat ?n div 64) \<le> unat ?n" by simp
    then have "4096 * (unat ?b + unat ?n div 64) < 4096 * 2 ^ 20" using lt by simp
    then show ?thesis by simp
  qed
  ultimately have "unat ((?b + ?n div 64) * 4096) = 4096 * (unat ?b + unat ?n div 64)"
    by (simp add: unat_word_ariths)
  moreover have "unat (?n mod 64 * 64) = 64 * (unat ?n mod 64)" by (simp add: unat_word_ariths unat_mod)
  moreover have "4096 * (unat ?b + unat ?n div 64) + 64 * (unat ?n mod 64) = inode_place (fsuper s) ?n"
    unfolding inode_place_def by (rule block_and_slot) simp
  ultimately have "seek (fseek_cur (unat (?n mod INODES_PER_BLOCK * 64)))
      (seek (fseek_set (unat ((?b + ?n div INODES_PER_BLOCK) * FS_BLOCK))) s) =
      seek (fseek_set (inode_place (fsuper s) ?n)) s"
    by (simp add: seek_def fseek_cur_def fseek_set_def fs_constants)
  then show ?thesis
    using on_disk_at [of "inode_place (fsuper s) ?n" "inode_bytes node" s] assms(2,3)
    by (simp add: write_inode_def Let_def)
qed

lemma inode_on_put_other:
  assumes "c + 64 \<le> d \<or> d + n \<le> c"
  shows "inode_on (put_disk d n f p) c = inode_on p c"
  unfolding inode_on_def
proof (rule load_inode_cong)
  fix k :: nat assume "k < 64"
  then show "at_disk (put_disk d n f p) c (0 + of_nat k) = at_disk p c (0 + of_nat k)"
    using assms by (auto simp: at_disk_def put_disk_def)
qed

text \<open>The pointers that a file or directory of \<open>k\<close> blocks gets.\<close>

lemma assign_blocks_run:
  assumes "i + k \<le> 7" and "length (direct_pointers node) = 7"
  shows "assign_blocks k i node s = Some
    (node\<lparr>direct_pointers := map (\<lambda>j. if i \<le> j \<and> j < i + k then first_block s + of_nat (j - i) else direct_pointers node ! j) [0..<7]\<rparr>,
     s\<lparr>first_block := first_block s + of_nat k\<rparr>)"
  using assms
proof (induction k arbitrary: i node s)
  case 0
  have "map (\<lambda>j. if i \<le> j \<and> j < i then first_block s + of_nat (j - i) else direct_pointers node ! j) [0..<7] = direct_pointers node"
    using 0(2) by (intro nth_equalityI) (auto simp del: upt_rec_numeral)
  then show ?case by (simp del: upt_rec_numeral)
next
  case (Suc k)
  let ?node = "node\<lparr>direct_pointers := (direct_pointers node)[i := first_block s]\<rparr>"
  let ?s = "s\<lparr>first_block := first_block s + 1\<rparr>"
  have "map (\<lambda>j. if i + 1 \<le> j \<and> j < i + 1 + k then first_block ?s + of_nat (j - (i + 1)) else direct_pointers ?node ! j) [0..<7] =
      map (\<lambda>j. if i \<le> j \<and> j < i + Suc k then first_block s + of_nat (j - i) else direct_pointers node ! j) [0..<7]"
  proof (rule map_cong [OF refl])
    fix j :: nat assume "j \<in> set [0..<7]"
    then have "j < 7" by (simp only: set_upt atLeastLessThan_iff)
    then show "(if i + 1 \<le> j \<and> j < i + 1 + k then first_block ?s + of_nat (j - (i + 1)) else direct_pointers ?node ! j) =
        (if i \<le> j \<and> j < i + Suc k then first_block s + of_nat (j - i) else direct_pointers node ! j)"
      using Suc.prems by (cases "j = i") (auto simp: nth_list_update of_nat_diff algebra_simps)
  qed
  moreover have "assign_blocks k (i + 1) ?node ?s = Some
      (?node\<lparr>direct_pointers := map (\<lambda>j. if i + 1 \<le> j \<and> j < i + 1 + k then first_block ?s + of_nat (j - (i + 1)) else direct_pointers ?node ! j) [0..<7]\<rparr>,
       ?s\<lparr>first_block := first_block ?s + of_nat k\<rparr>)"
    using Suc.prems by (intro Suc.IH) simp_all
  ultimately show ?case using Suc.prems by (simp add: algebra_simps del: upt_rec_numeral)
qed

text \<open>An inode whose first \<open>k\<close> blocks are those from \<open>F\<close> on.\<close>

definition with_blocks :: "u32 \<Rightarrow> nat \<Rightarrow> inode \<Rightarrow> inode" where
  "with_blocks F k i = i\<lparr>direct_pointers := map (\<lambda>j. if j < k then F + of_nat j else direct_pointers i ! j) [0..<7]\<rparr>"

lemma with_blocks_fields [simp]:
  "i_number (with_blocks F k i) = i_number i" "file_type (with_blocks F k i) = file_type i"
  "inode_size (with_blocks F k i) = inode_size i" "length (direct_pointers (with_blocks F k i)) = 7"
  by (simp_all add: with_blocks_def)

lemma with_blocks_pointer:
  assumes "j < k" "k \<le> 7" "unat F < 2 ^ 31"
  shows "unat (direct_pointers (with_blocks F k i) ! j) = unat F + j"
  using assms by (simp add: with_blocks_def unat_add_no_wrap del: upt_rec_numeral)

lemma assign_blocks_first:
  "k \<le> 7 \<Longrightarrow> length (direct_pointers node) = 7 \<Longrightarrow>
     assign_blocks k 0 node s = Some (with_blocks (first_block s) k node, s\<lparr>first_block := first_block s + of_nat k\<rparr>)"
  using assign_blocks_run [of 0 k node s] by (simp add: with_blocks_def del: upt_rec_numeral)

text \<open>
  C35. With fewer than 62 files the data blocks start at the block of the inode table, and the
  root directory is the first to be placed: its second entry, for \<^verbatim>\<open>..\<close>, is written over the
  inode of the root. What is then read as inode 1 is not a directory.
\<close>

theorem format_overwrites_root:
  fixes s :: "'a format_scheme"
  assumes "unat files < 62" and "fsuper s = layout files blocks sb0" and "first_block s = first_data_block (fsuper s)"
    and "2 \<le> unat n" and "unat n \<le> 448" and cap: "5 * 4096 \<le> img_capacity (disk_ptr s)"
  shows "\<exists>node e s'. start_dir n 1 1 s = Some (node, e, True, s') \<and> i_number node = 1 \<and> file_type node = file_type_dir \<and>
    inode_place (fsuper s) 1 = 4 * 4096 + 64 \<and>
    file_type (inode_on (img_bytes (disk_ptr s')) (inode_place (fsuper s) 1)) = 46"
proof -
  have "unat files < 22000" using assms(1) by simp
  note lay = layout_small [OF this, of blocks sb0, folded assms(2)]
  have "unat (files + 2) < 64" using assms(1) by (subst unat_add_no_wrap) simp_all
  then have "unat ((files + 2) div 64) = 0" by (simp add: unat_div)
  then have fb: "first_block s = 4" using lay(7) assms(3) by (simp add: unat_eq_zero)
  have place: "inode_place (fsuper s) 1 = 16448" using lay(6) by (simp add: inode_place_def)
  define k where "k = unat (bytes_to_blocks (n * 64))"
  have "unat (n * 64) = unat n * 64" using assms(5) by (simp add: unat_word_ariths)
  then have k: "1 \<le> k" "k \<le> 7" using assms(4,5) by (simp_all add: k_def bytes_to_blocks_ceil)
  define node0 where "node0 = zero_inode\<lparr>i_number := 1, file_type := file_type_dir, inode_size := n * 64, time_created := dir_time\<rparr>"
  define node where "node = with_blocks (first_block s) k node0"
  define s1 where "s1 = s\<lparr>first_block := first_block s + of_nat k\<rparr>"
  have run: "assign_blocks k 0 node0 s = Some (node, s1)"
    using assign_blocks_first [of k node0 s] k by (simp add: node_def s1_def node0_def zero_inode_def)
  have len: "length (direct_pointers node) = 7" "i_number node = 1" "file_type node = file_type_dir"
    by (simp_all add: node_def node0_def)
  have "unat (direct_pointers node ! 0) = 4"
    unfolding node_def fb using with_blocks_pointer [of 0 k 4 node0] k by simp
  then have ptr: "direct_pointers node ! 0 = 4" by (simp add: word_unat_eq_iff)
  have s1: "fsuper s1 = fsuper s" "disk_ptr s1 = disk_ptr s" by (simp_all add: s1_def)
  define e1 where "e1 = \<lparr>entry_i_number = (1 :: u32), entry_name = bytes ''.'' @ 0 # replicate 58 0\<rparr>"
  define e2 where "e2 = \<lparr>entry_i_number = (1 :: u32), entry_name = bytes ''..'' @ 0 # replicate 57 0\<rparr>"
  have e: "name_entry (bytes ''.'') \<lparr>entry_i_number = 1, entry_name = replicate 60 0\<rparr> = Some e1"
    "name_entry (bytes ''..'') (e1\<lparr>entry_i_number := 1\<rparr>) = Some e2"
    "length (entry_bytes e1) = 64" "length (entry_bytes e2) = 64" "entry_bytes e2 ! 4 = 46"
    by (simp_all add: name_entry_def e1_def e2_def bytes_def entry_bytes_def nth_append of_char_def)
  obtain t1 where t1: "write_inode node s1 = (True, t1)" "wrote_at 16448 (inode_bytes node) s1 t1"
    using write_inode_at [of s1 node] len place s1 cap by (auto simp: inode_ok_def)
  obtain t2 where t2: "write_entry e1 (seek (fseek_set 16384) t1) = (True, t2)" "wrote_at 16384 (entry_bytes e1) t1 t2"
    using on_disk_at [of 16384 "entry_bytes e1" t1] e(3) cap wrote_at_image(3) [OF t1(2)] s1(2) by (auto simp: write_entry_def)
  obtain t3 where t3: "write_entry e2 t2 = (True, t3)" "wrote (entry_bytes e2) t2 t3"
    using on_disk_fwrite [of t2 "entry_bytes e2"] e(3,4) cap wrote_at_image(2,3) [OF t2(2)] wrote_at_image(3) [OF t1(2)] s1(2)
    by (auto simp: write_entry_def)
  have start: "start_dir n 1 1 s = Some (node, e2, True, t3)"
    using run t1(1) t2(1) t3(1) e ptr len
    by (simp add: start_dir_def Let_def k_def node0_def [symmetric] and_then_def FS_BLOCK_def)
  have img: "img_bytes (disk_ptr t3) = put_disk 16448 64 (\<lambda>i. entry_bytes e2 ! i) (img_bytes (disk_ptr t2))"
    using t3(2) wrote_at_image(2) [OF t2(2)] e(3,4) by (simp add: wrote_def)
  have "file_type (inode_on (img_bytes (disk_ptr t3)) 16448) = 46"
    using e(5) by (simp add: img inode_on_def load_inode_def at_disk_def put_disk_def)
  then show ?thesis using start len place by auto
qed

text \<open>Copying a file: whatever the number of further sectors, its bytes are written one after another.\<close>

lemma copy_sectors_wrote:
  "length c \<le> 512 * k \<Longrightarrow> img_pos (disk_ptr s) + length c \<le> img_capacity (disk_ptr s) \<Longrightarrow>
     \<exists>s'. copy_sectors k c t s = (t + of_nat (length c), True, s') \<and> wrote c s s'"
proof (induction k arbitrary: c t s)
  case (Suc k)
  have "length (take 512 c) \<le> length c" by simp
  then have "img_pos (disk_ptr s) + length (take 512 c) \<le> img_capacity (disk_ptr s)" using Suc.prems(2) by linarith
  from on_disk_fwrite [OF this] obtain s1
    where s1: "on_disk (fwrite (take 512 c)) s = (True, s1)" "wrote (take 512 c) s s1" by blast
  have "length (drop 512 c) \<le> 512 * k" "img_pos (disk_ptr s1) + length (drop 512 c) \<le> img_capacity (disk_ptr s1)"
    using Suc.prems s1(2) by (simp_all add: wrote_def)
  from Suc.IH [OF this, of "t + of_nat (length (take 512 c))"] obtain s' where
    s': "copy_sectors k (drop 512 c) (t + of_nat (length (take 512 c))) s1 =
      (t + of_nat (length (take 512 c)) + of_nat (length (drop 512 c)), True, s')" "wrote (drop 512 c) s1 s'" by blast
  have "length (take 512 c) + length (drop 512 c) = length c" by simp
  then have "t + of_nat (length (take 512 c)) + of_nat (length (drop 512 c)) = t + (of_nat (length c) :: u32)"
    by (metis add.assoc of_nat_add)
  then show ?case using s1 s' wrote_append [OF s1(2) s'(2)] by (simp add: Let_def)
qed (simp add: wrote_nil)

text \<open>The first block of a file, given the value of \<^verbatim>\<open>first_block\<close>.\<close>

definition file_start :: "u8 list \<Rightarrow> u32 \<Rightarrow> u32" where
  "file_start n fb = (if n = bytes ''kernel.bin'' then 7 else if 7 \<le> fb \<and> fb \<le> 13 then fb + 7 else fb)"

lemma place_file_run:
  assumes "unat (bytes_to_blocks sz) = k" and "k \<le> 7" and "length (direct_pointers node) = 7"
  shows "\<exists>s'. place_file n sz node s = Some (with_blocks (file_start n (first_block s)) k node, s') \<and>
    disk_ptr s' = disk_ptr s \<and> fsuper s' = fsuper s"
proof -
  let ?F = "file_start n (first_block s)"
  note run = assign_blocks_first [OF assms(2,3), of "s\<lparr>first_block := ?F\<rparr>"]
  show ?thesis
  proof (cases "n = bytes ''kernel.bin''")
    case True
    then show ?thesis using run assms(1) by (simp add: place_file_def file_start_def)
  next
    case False
    then have "(if first_block s \<le> 13 \<and> 7 \<le> first_block s \<and> n \<noteq> bytes ''kernel.bin''
        then s\<lparr>first_block := first_block s + 7\<rparr> else s) = s\<lparr>first_block := ?F\<rparr>"
      by (auto simp: file_start_def)
    then show ?thesis using run assms(1) False by (simp add: place_file_def)
  qed
qed

lemma pad_length:
  assumes "unat sz = l"
  shows "l + unat ((FS_BLOCK - sz mod FS_BLOCK) mod FS_BLOCK) = 4096 * ((l + 4095) div 4096)"
proof -
  have r: "unat (sz mod 4096) = l mod 4096" using assms by (simp add: unat_mod)
  have "unat (4096 - sz mod 4096) = 4096 - l mod 4096"
    using unat_sub [of "sz mod 4096" 4096] r by (simp add: word_le_nat_alt)
  then have p: "unat ((FS_BLOCK - sz mod FS_BLOCK) mod FS_BLOCK) = (4096 - l mod 4096) mod 4096"
    by (simp add: FS_BLOCK_def unat_mod)
  have c: "(l + 4095) div 4096 = (if 0 < l mod 4096 then l div 4096 + 1 else l div 4096)"
    using div_ceil [of 4096 l] by simp
  have l: "l = 4096 * (l div 4096) + l mod 4096" by simp
  have *: "4096 * q + r + (4096 - r) mod 4096 = 4096 * (if 0 < r then q + 1 else q)" if "r < 4096" for q r :: nat
    using that by (cases "r = 0") (simp_all add: mod_less)
  have "4096 * (l div 4096) + l mod 4096 + (4096 - l mod 4096) mod 4096 =
      4096 * (if 0 < l mod 4096 then l div 4096 + 1 else l div 4096)" by (rule *) simp
  then show ?thesis unfolding p c using l by (simp only:)
qed

lemma copy_and_pad:
  fixes s :: "'a format_scheme" and c :: "u8 list"
  defines "k \<equiv> (length c + 4095) div 4096" and "sz \<equiv> (of_nat (length c) :: u32)"
  assumes small: "length c \<le> 7 * 4096" and cap: "img_pos (disk_ptr s) + 4096 * k \<le> img_capacity (disk_ptr s)"
  shows "\<exists>t2 t. copy_sectors (unat (if 0 < sz mod FS_SECTOR then sz div FS_SECTOR + 1 else sz div FS_SECTOR)) c 0 s =
      (sz, True, t2) \<and> pad_block sz t2 = (True, t) \<and> wrote (c @ replicate (4096 * k - length c) 0) s t"
proof -
  have sz: "unat sz = length c" using small by (simp add: sz_def)
  define secs where "secs = (if 0 < sz mod FS_SECTOR then sz div FS_SECTOR + 1 else sz div FS_SECTOR)"
  have "unat secs = (length c + 511) div 512" using unat_div_ceil [of 512 sz] unfolding secs_def FS_SECTOR_def sz by simp
  moreover have "length c \<le> 512 * ((length c + 511) div 512)" by simp
  ultimately have "length c \<le> 512 * unat secs" by simp
  moreover have k: "length c \<le> 4096 * k" by (simp add: k_def)
  ultimately obtain t2 where t2: "copy_sectors (unat secs) c 0 s = (sz, True, t2)" "wrote c s t2"
    using copy_sectors_wrote [of c "unat secs" s 0] cap by (auto simp: sz_def)
  have P: "length c + unat ((FS_BLOCK - sz mod FS_BLOCK) mod FS_BLOCK) = 4096 * k"
    using pad_length [OF sz] by (simp add: k_def)
  then have "unat ((FS_BLOCK - sz mod FS_BLOCK) mod FS_BLOCK) = 4096 * k - length c" by simp
  then have pad: "pad_block sz = on_disk (fwrite (replicate (4096 * k - length c) 0))" by (simp add: pad_block_def)
  have "img_pos (disk_ptr t2) + length (replicate (4096 * k - length c) (0 :: u8)) \<le> img_capacity (disk_ptr t2)"
    using t2(2) k cap by (simp add: wrote_def)
  from on_disk_fwrite [OF this] obtain t3 where
    t3: "pad_block sz t2 = (True, t3)" "wrote (replicate (4096 * k - length c) 0) t2 t3" unfolding pad by blast
  show ?thesis
    using t2(1) t3(1) wrote_append [OF t2(2) t3(2)] unfolding secs_def [symmetric] by blast
qed

text \<open>The stages of writing a file: its inode, then its bytes filled up to whole blocks.\<close>

definition regular_inode :: "u32 \<Rightarrow> u8 list \<Rightarrow> u32 \<Rightarrow> inode" where
  "regular_inode F c num = with_blocks F ((length c + 4095) div 4096)
     (zero_inode\<lparr>i_number := num, file_type := file_type_file, inode_size := of_nat (length c), time_created := file_time\<rparr>)"

lemma regular_blocks:
  assumes "c \<noteq> []" and "length c \<le> 7 * 4096"
  shows "0 < (length c + 4095) div 4096" "(length c + 4095) div 4096 \<le> 7" "length c \<le> 4096 * ((length c + 4095) div 4096)"
proof -
  have c: "0 < length c" "length c + 4095 < 8 * 4096" using assms by simp_all
  have split: "length c + 4095 = 4096 * ((length c + 4095) div 4096) + (length c + 4095) mod 4096"
    "(length c + 4095) mod 4096 < 4096" by simp_all
  show "0 < (length c + 4095) div 4096" "(length c + 4095) div 4096 \<le> 7" "length c \<le> 4096 * ((length c + 4095) div 4096)"
    using split c by linarith+
qed

lemma write_regular_run:
  fixes s :: "'a format_scheme"
  assumes F_def: "F = file_start n (first_block s)" and k_def: "k = (length c + 4095) div 4096"
    and c: "c \<noteq> []" "length c \<le> 7 * 4096" and num: "inode_ok (fsuper s) num" and range: "unat F < 2 ^ 19"
    and cap: "inode_place (fsuper s) num + 64 \<le> img_capacity (disk_ptr s)" "4096 * (unat F + k) \<le> img_capacity (disk_ptr s)"
  shows "\<exists>p t s'. write_regular n c num s = Some (True, s') \<and> disk_ptr p = disk_ptr s \<and>
    wrote_at (inode_place (fsuper s) num) (inode_bytes (regular_inode F c num)) p t \<and>
    wrote_at (4096 * unat F) (c @ replicate (4096 * k - length c) 0) t s'"
proof -
  define sz where "sz = (of_nat (length c) :: u32)"
  have sz: "unat sz = length c" using c(2) by (simp add: sz_def)
  have blocks: "unat (bytes_to_blocks sz) = k" by (simp add: bytes_to_blocks_ceil sz k_def)
  note k = regular_blocks [OF c, folded k_def]
  define node0 where "node0 = zero_inode\<lparr>i_number := num, file_type := file_type_file, inode_size := sz, time_created := file_time\<rparr>"
  define node where "node = with_blocks F k node0"
  have node: "regular_inode F c num = node" by (simp add: regular_inode_def node_def node0_def sz_def k_def)
  have fields: "i_number node = num" "inode_size node = sz" "inode_size node0 = sz" "length (direct_pointers node) = 7"
    by (simp_all add: node_def node0_def)
  obtain p where p: "place_file n sz node0 s = Some (node, p)" "disk_ptr p = disk_ptr s" "fsuper p = fsuper s"
    using place_file_run [OF blocks k(2), of node0 n s] unfolding node_def F_def by (auto simp: node0_def zero_inode_def)
  have seek: "unat (direct_pointers node ! 0 * FS_BLOCK) = 4096 * unat F"
    using with_blocks_pointer [OF k(1,2), of F node0] range by (simp add: node_def FS_BLOCK_def unat_word_ariths)
  obtain t where t: "write_inode node p = (True, t)" "wrote_at (inode_place (fsuper s) num) (inode_bytes node) p t"
    using write_inode_at [of p node] fields p(2,3) num cap(1) by auto
  have c1: "img_capacity (disk_ptr t) = img_capacity (disk_ptr p)" using wrote_at_image(3) [OF t(2)] .
  define secs where "secs = (if 0 < sz mod FS_SECTOR then sz div FS_SECTOR + 1 else sz div FS_SECTOR)"
  obtain t2 s' where t2: "copy_sectors (unat secs) c 0 (seek (fseek_set (4096 * unat F)) t) = (sz, True, t2)"
    and s': "pad_block sz t2 = (True, s')" "wrote (c @ replicate (4096 * k - length c) 0) (seek (fseek_set (4096 * unat F)) t) s'"
    using copy_and_pad [of c "seek (fseek_set (4096 * unat F)) t"] c(2) cap(2) c1 p(2)
    unfolding k_def sz_def secs_def by auto
  have e: "(if 0 < inode_size node mod FS_SECTOR then inode_size node div FS_SECTOR + 1 else inode_size node div FS_SECTOR) = secs"
    unfolding fields(2) secs_def by simp
  have "write_regular n c num s = Some (True, s')"
    using p(1) t(1) t2 s'(1) seek
    by (simp add: write_regular_def sz_def [symmetric] node0_def [symmetric] e fields(3) Let_def and_then_def)
  then show ?thesis using p(2) t(2) s'(2) unfolding node by (auto simp: wrote_at_def)
qed

text \<open>
  C34. A regular file of up to seven blocks: its inode is in the inode table, in the form that
  the kernel reads, with its size and its consecutive blocks, and its bytes are in these blocks,
  with zeros up to the end of the last one. Its blocks only have to lie behind its inode.
\<close>

theorem write_regular_stores:
  fixes s :: "'a format_scheme"
  defines "start \<equiv> \<lambda>n. unat (file_start n (first_block s))"
  assumes "c \<noteq> []" and small: "length c \<le> 7 * 4096" and "inode_ok (fsuper s) num"
    and below: "inode_place (fsuper s) num + 64 \<le> 4096 * start n" and range: "start n < 2 ^ 19"
    and cap: "4096 * (start n + 7) \<le> img_capacity (disk_ptr s)"
  shows "\<exists>s' node. write_regular n c num s = Some (True, s') \<and>
    inode_on (img_bytes (disk_ptr s')) (inode_place (fsuper s) num) = node \<and>
    i_number node = num \<and> file_type node = file_type_file \<and> unat (inode_size node) = length c \<and>
    (\<forall>j < (length c + 4095) div 4096. unat (direct_pointers node ! j) = start n + j) \<and>
    (\<forall>i < 4096 * ((length c + 4095) div 4096).
       img_bytes (disk_ptr s') (4096 * start n + i) = (if i < length c then c ! i else 0))"
proof -
  define k where "k = (length c + 4095) div 4096"
  define F where "F = file_start n (first_block s)"
  let ?node = "regular_inode F c num" and ?place = "inode_place (fsuper s) num"
  note k = regular_blocks [OF assms(2) small, folded k_def]
  have F: "unat F = start n" by (simp add: F_def start_def)
  obtain p t s' where run: "write_regular n c num s = Some (True, s')" "disk_ptr p = disk_ptr s"
    and t: "wrote_at ?place (inode_bytes ?node) p t"
    and s': "wrote_at (4096 * unat F) (c @ replicate (4096 * k - length c) 0) t s'"
    using write_regular_run [OF F_def k_def, of num] assms(2) small assms(4) range below cap k F by auto
  have len: "length (direct_pointers ?node) = 7" by (simp add: regular_inode_def)
  have img: "img_bytes (disk_ptr s') = put_disk (4096 * start n) (4096 * k)
      (\<lambda>i. (c @ replicate (4096 * k - length c) 0) ! i) (img_bytes (disk_ptr t))"
    using wrote_at_image(1) [OF s'] k(3) by (simp add: F)
  have "inode_on (img_bytes (disk_ptr s')) ?place = inode_on (img_bytes (disk_ptr t)) ?place"
    unfolding img using below by (intro inode_on_put_other) simp
  also have "\<dots> = ?node" using wrote_at_image(1) [OF t] inode_on_put [OF len] by (simp add: len)
  finally have node: "inode_on (img_bytes (disk_ptr s')) ?place = ?node" .
  have "img_bytes (disk_ptr s') (4096 * start n + i) = (if i < length c then c ! i else 0)" if "i < 4096 * k" for i
    using that k(3) by (simp add: img put_disk_def nth_append)
  moreover have "unat (direct_pointers ?node ! j) = start n + j" if "j < k" for j
    using with_blocks_pointer [OF that k(2)] range F by (simp add: regular_inode_def k_def)
  moreover have "unat (inode_size ?node) = length c" using small by (simp add: regular_inode_def)
  ultimately show ?thesis
    using run(1) node by (intro exI [of _ s'] exI [of _ ?node]) (simp add: k_def [symmetric] regular_inode_def)
qed

section \<open>The kernel on a formatted disk\<close>

text \<open>
  C36. The formatting program never sets \<^verbatim>\<open>first_inode_bitmap\<close>, which is the field the kernel
  uses to find the bitmap. On a formatted disk, marking or unmarking inode \<open>n\<close> as used writes into the
  boot block: with \<open>n\<close> among the first 31 bits of its 64-bit chunk, bit \<open>n\<close> of the disk and no other
  bit gets the value, and for other \<open>n\<close> the bits that the \<^verbatim>\<open>int\<close> shift reaches (\<open>marks\<close>). Everything
  from block 1 on, the real inode bitmap in block 2 with it, stays as it was.
\<close>

theorem mark_inode_hits_boot_block:
  assumes "disk_ready d0 dev s" and "superblock s = layout files blocks zero_superblock" and "unat files < 22000"
    and "unat n < 32768"
  shows "first_inode_bitmap_block (superblock s) = 2 \<and>
    (\<exists>s'. set_inode_bitmap dev n b s = Some s' \<and>
      (\<forall>k j. j < 8 \<longrightarrow> (bit (disk_of d0 s' k) j \<longleftrightarrow>
        (if (if unat n mod 64 < 31 then 8 * k + j = unat n else marks (unat n) (8 * k + j)) then b
         else bit (disk_of d0 s k) j))) \<and>
      (\<forall>k \<ge> 4096. disk_of d0 s' k = disk_of d0 s k))"
proof -
  have first: "first_inode_bitmap (superblock s) = 0" "first_inode_bitmap_block (superblock s) = 2"
    using layout_small [OF assms(3), of blocks zero_superblock] by (simp_all add: assms(2) zero_superblock_def)
  have "n div 32768 = 0" using assms(4) by (simp add: unat_eq_zero [symmetric] unat_div del: unat_eq_zero)
  then have ok: "block_ok (0 + n div 32768)" "unat (0 :: u32) + unat n div 32768 < 2 ^ 32"
    using assms(4) by (simp_all add: block_ok_def)
  obtain s' where s': "set_bitmap dev 0 n b s = Some s'"
    "\<And>k j. j < 8 \<Longrightarrow> bit (disk_of d0 s' k) j \<longleftrightarrow> (if marks (unat n) (8 * k + j) then b else bit (disk_of d0 s k) j)"
    using set_bitmap_effect [OF assms(1) ok, of b] by auto
  have "disk_of d0 s' k = disk_of d0 s k" if "4096 \<le> k" for k
  proof (rule bit_word_eqI)
    fix j assume "j < LENGTH(8)"
    then have "j < 8" by simp
    have "32768 \<le> 8 * k + j" using that by simp
    then have "(8 * k + j) div 32768 \<noteq> 0" by (simp add: div_eq_0_iff)
    then have "\<not> marks (unat n) (8 * k + j)"
      using marks_block [of "unat n" "8 * k + j"] assms(4) by auto
    then show "bit (disk_of d0 s' k) j = bit (disk_of d0 s k) j" using s'(2) [OF \<open>j < 8\<close>] by simp
  qed
  moreover have "(if unat n mod 64 < 31 then x = unat n else marks (unat n) x) \<longleftrightarrow> marks (unat n) x" for x
    using marks_itself [of "unat n" x] by auto
  moreover have "set_inode_bitmap dev n b s = Some s'" using s'(1) by (simp add: set_inode_bitmap_def first)
  ultimately show ?thesis using s'(2) first(2) by auto
qed

section \<open>Concrete images\<close>

definition example_format :: format where
  "example_format = \<lparr>disk_ptr = \<lparr>img_bytes = \<lambda>_. 0, img_length = 0, img_pos = 0, img_capacity = 0x200000\<rparr>,
     fsuper = zero_superblock, num_files = 9, file_block_count = 20, first_block = 0, next_inode_id = 4\<rparr>"

text \<open>A second stage of 374 bytes, as \<^verbatim>\<open>build/bootstage2.bin\<close> has, is lost.\<close>

lemma write_boot_block_sectors_witness:
  "\<exists>s'. write_boot_block (Some (replicate 512 1)) (Some (replicate 374 2)) example_format = (True, s') \<and>
     img_bytes (disk_ptr s') 511 = 1 \<and> img_bytes (disk_ptr s') 512 = 0"
proof -
  obtain s' where s': "write_boot_block (Some (replicate 512 1)) (Some (replicate 374 2)) example_format = (True, s')"
    "\<forall>i < 512. img_bytes (disk_ptr s') i = replicate 512 1 ! i"
    "\<forall>i < 3584. img_bytes (disk_ptr s') (512 + i) =
       (if i < 512 * min 6 (length (replicate 374 (2 :: u8)) div 512) then replicate 374 2 ! i else 0)"
    using write_boot_block_sectors [of "replicate 512 1" example_format "replicate 374 2"]
    by (auto simp: example_format_def)
  then show ?thesis using s'(2) [rule_format, of 511] s'(3) [rule_format, of 0] by (simp del: replicate.simps)
qed

theorem format_layout_witness:
  "\<exists>s'. and_then (and_then (write_superblock (seek (fseek_set 4096) example_format)) write_inode_bitmap) write_data_bitmap =
     (True, s') \<and> \<not> bit (img_bytes (disk_ptr s') 8193) 0 \<and> bit (img_bytes (disk_ptr s') 8192) 0"
proof -
  let ?s = "seek (fseek_set 4096) example_format"
  have h: "unat (num_files ?s) < 22000" "length (sb_padding (fsuper ?s)) = 52" "img_pos (disk_ptr ?s) = 4096"
    "4 * 4096 \<le> img_capacity (disk_ptr ?s)"
    by (simp_all add: example_format_def seek_def fseek_set_def zero_superblock_def)
  obtain s' where s': "and_then (and_then (write_superblock ?s) write_inode_bitmap) write_data_bitmap = (True, s')"
    "\<forall>k < 32768. bit (img_bytes (disk_ptr s') (2 * 4096 + k div 8)) (k mod 8) \<longleftrightarrow> k < 8 \<or> 32 \<le> k"
    using format_layout [OF h] by blast
  then show ?thesis using s'(2) [rule_format, of 8] s'(2) [rule_format, of 0] by auto
qed

lemma inode_table_overlaps_data_witness:
  "4096 * unat (first_data_block (layout 9 20 zero_superblock)) \<le>
     inode_place (layout 9 20 zero_superblock) (num_inodes (layout 9 20 zero_superblock) - 1)"
proof -
  have f: "unat (9 :: u32) < 22000" by simp
  have "unat (num_inodes (layout 9 20 zero_superblock)) mod 64 \<noteq> 0"
    using layout_small(1) [OF f, of 20 zero_superblock] by simp
  then show ?thesis using inode_table_overlaps_data [OF f, of 20 zero_superblock] by blast
qed

definition example_formatting :: format where
  "example_formatting = example_format\<lparr>fsuper := layout 9 20 zero_superblock, first_block := 4\<rparr>"

theorem format_overwrites_root_witness:
  "\<exists>node e s'. start_dir 11 1 1 example_formatting = Some (node, e, True, s') \<and> file_type node = file_type_dir \<and>
     file_type (inode_on (img_bytes (disk_ptr s')) 16448) = 46"
proof -
  have f: "unat (9 :: u32) < 22000" by simp
  have "(9 :: u32) + 2 = 11" "(11 :: u32) div 64 = 0" by simp_all
  then have "first_data_block (layout 9 20 zero_superblock) = 4"
    using layout_small(7) [OF f, of 20 zero_superblock] by simp
  then have s: "fsuper example_formatting = layout 9 20 zero_superblock"
    "first_block example_formatting = first_data_block (fsuper example_formatting)"
    "5 * 4096 \<le> img_capacity (disk_ptr example_formatting)"
    by (simp_all add: example_formatting_def example_format_def)
  show ?thesis using format_overwrites_root [OF _ s(1,2) _ _ s(3), of 11] by auto
qed

theorem write_regular_stores_witness:
  "\<exists>s'. write_regular (bytes ''a'') [7, 8] 4 (example_formatting\<lparr>first_block := 14\<rparr>) = Some (True, s') \<and>
     img_bytes (disk_ptr s') 57345 = 8 \<and> img_bytes (disk_ptr s') 57346 = 0"
proof -
  let ?s = "example_formatting\<lparr>first_block := 14\<rparr>"
  have f: "unat (9 :: u32) < 22000" by simp
  have st: "file_start (bytes ''a'') (first_block ?s) = 14" by (simp add: file_start_def bytes_def)
  have place: "inode_place (fsuper ?s) 4 = 16640"
    using layout_small(6) [OF f, of 20 zero_superblock] by (simp add: inode_place_def example_formatting_def)
  have cap: "img_capacity (disk_ptr ?s) = 0x200000" by (simp add: example_formatting_def example_format_def)
  obtain s' where s': "write_regular (bytes ''a'') [7, 8] 4 ?s = Some (True, s')"
    "\<forall>i < 4096 * ((length [7 :: u8, 8] + 4095) div 4096).
       img_bytes (disk_ptr s') (4096 * unat (file_start (bytes ''a'') (first_block ?s)) + i) =
         (if i < length [7 :: u8, 8] then [7, 8] ! i else 0)"
    using write_regular_stores [of "[7, 8]" ?s 4 "bytes ''a''"] place cap unfolding st
    by (auto simp: inode_ok_def)
  then show ?thesis using s'(2) [rule_format, of 1] s'(2) [rule_format, of 2] unfolding st by simp
qed

theorem mark_inode_hits_boot_block_witness:
  "\<exists>s'. set_inode_bitmap (example_ata example_disk_drive) 9 True (example_fs\<lparr>superblock := layout 9 20 zero_superblock\<rparr>) = Some s' \<and>
     bit (disk_of example_disk_drive s' 1) 1 \<and> \<not> bit (disk_of example_disk_drive s' 1) 2 \<and>
     disk_of example_disk_drive s' 8193 = disk_of example_disk_drive (example_fs\<lparr>superblock := layout 9 20 zero_superblock\<rparr>) 8193"
proof -
  let ?s = "example_fs\<lparr>superblock := layout 9 20 zero_superblock\<rparr>"
  have disk: "disk_of example_disk_drive ?s = example_disk" using example_fs_disk by (simp add: disk_of_def)
  have "disk_ready example_disk_drive (example_ata example_disk_drive) ?s"
    using example_fs_ready by (simp add: disk_ready_def disk_of_def drive_run_def)
  from mark_inode_hits_boot_block [OF this, of 9 20 9 True]
  obtain s' where s': "set_inode_bitmap (example_ata example_disk_drive) 9 True ?s = Some s'"
    "\<forall>k j. j < 8 \<longrightarrow> (bit (disk_of example_disk_drive s' k) j \<longleftrightarrow>
      (if 8 * k + j = 9 then True else bit (disk_of example_disk_drive ?s k) j))"
    "\<forall>k \<ge> 4096. disk_of example_disk_drive s' k = disk_of example_disk_drive ?s k" by auto
  show ?thesis
    using s'(1,3) s'(2) [rule_format, of 1 1] s'(2) [rule_format, of 2 1] by (simp add: disk example_disk_def)
qed

end
