(* ===== verification/Boot.thy ===== *)
theory Boot
  imports Syscalls Idt Pic Exceptions
begin

text \<open>
  Starting up: \<^verbatim>\<open>kernel/prekernel.c\<close>, which sets up the memory managers and paging, and the
  live part of \<^verbatim>\<open>main\<close> and \<^verbatim>\<open>init_malloc\<close> of \<^verbatim>\<open>kernel/kernel.c\<close>. The two are separate
  programs that hand over through fixed addresses of \<^verbatim>\<open>global_addresses.h\<close>; the bitmap of the
  physical memory manager stays at \<^verbatim>\<open>MEMMAP_AREA\<close>, and is the field \<open>memory_map\<close> in both.

  Loading the task register and reloading \<^verbatim>\<open>cr3\<close> have no effect on the modelled state. The
  addresses that the linker chooses are parameters, in the record \<open>symbols\<close>.
\<close>

section \<open>State\<close>

record machine = kernel +
  interrupts :: idt_state

record symbols =
  root_inode_symbol :: u32
  idt_symbol :: u32
  isr_stubs :: "nat \<Rightarrow> u32"
  div_by_0_symbol :: u32
  PIT_symbol :: u32
  keyboard_symbol :: u32
  page_fault_symbol :: u32
  syscall_symbol :: u32
  gpf_symbol :: u32
  line_symbol :: u32
  literal_symbol :: "string \<Rightarrow> u32"

definition CURRENT_PAGE_DIR_ADDRESS :: u32 where "CURRENT_PAGE_DIR_ADDRESS = 0x1800"
definition MEMMAP_AREA :: u32 where "MEMMAP_AREA = 0x30000"
definition MAX_BLOCKS :: u32 where "MAX_BLOCKS = 0x1808"
definition USED_BLOCKS :: u32 where "USED_BLOCKS = 0x1804"
definition TOTAL_MEMORY :: u32 where "TOTAL_MEMORY = 0x180C"
definition GDT_ADDRESS :: u32 where "GDT_ADDRESS = 0x1810"
definition USER_STACK :: u32 where "USER_STACK = 0xBFFFF000"

lemmas handover_addresses = CURRENT_PAGE_DIR_ADDRESS_def MAX_BLOCKS_def USED_BLOCKS_def TOTAL_MEMORY_def

text \<open>An operation of the memory managers that cannot fail, and a store to a fixed address.\<close>

definition on_heap :: "(heap \<Rightarrow> heap) \<Rightarrow> 'a kernel_scheme \<Rightarrow> 'a kernel_scheme" where
  "on_heap f s = (let h = f ((kheap s)\<lparr>mem := cmem s\<rparr>) in s\<lparr>kheap := h, cmem := mem h\<rparr>)"

definition poke :: "u32 \<Rightarrow> u32 \<Rightarrow> 'a console_scheme \<Rightarrow> 'a console_scheme" where
  "poke a v s = s\<lparr>cmem := store32 (cmem s) a v\<rparr>"

definition say :: "string \<Rightarrow> 'a console_scheme \<Rightarrow> 'a console_scheme option" where
  "say text s = kprintf (bytes text @ [10]) (stack_words []) s"

section \<open>The prekernel\<close>

text \<open>The regions of type 1 become available, in order.\<close>

primrec free_regions :: "nat \<Rightarrow> u32 \<Rightarrow> memory \<Rightarrow> heap \<Rightarrow> heap" where
  "free_regions 0 a m h = h"
| "free_regions (Suc k) a m h =
     (let e = smap_entry m a
      in free_regions k (a + 24) m
           (if region_type e = 1 then initialize_memory_region (low_word (base_address e)) (low_word (region_length e)) h else h))"

definition reserve_regions :: "heap \<Rightarrow> heap" where
  "reserve_regions h =
     (let h1 = deinit_memory_region 0 0x12000 h;
          h2 = deinit_memory_region MEMMAP_AREA (max_blocks h1 div BLOCK_SIZE) h1
      in deinit_memory_region 0x100000 81920 h2)"

text \<open>\<^verbatim>\<open>for(virt = 0x100000; virt < 0x400000; virt += PAGE_SIZE)\<close>: 768 pages.\<close>

definition unmap_low :: "heap \<Rightarrow> heap" where
  "unmap_low h = fold (\<lambda>i. unmap_page (0x100000 + of_nat i * PAGE_SIZE)) [0..<0x300] h"

definition hand_over :: "u32 \<Rightarrow> 'a kernel_scheme \<Rightarrow> 'a kernel_scheme" where
  "hand_over total_memory s =
     (let s1 = poke TOTAL_MEMORY total_memory s;
          s2 = poke USED_BLOCKS (used_blocks (kheap s1)) s1;
          s3 = poke MAX_BLOCKS (max_blocks (kheap s2)) s2
      in poke CURRENT_PAGE_DIR_ADDRESS (directory (kheap s3)) s3)"

text \<open>
  The three stages of \<open>prekernel_main\<close>: what is free memory, with the end of the last region as
  a result; paging, with its messages; and the hand-over.
\<close>

definition start_memory :: "'a kernel_scheme \<Rightarrow> u32 \<times> 'a kernel_scheme" where
  "start_memory s =
     (let s1 = on_heap initialize_pmm s;
          num_entries = load32 (cmem s1) 0xA000;
          last_entry = 0xA004 + 24 * (num_entries - 1);
          s2 = on_heap (free_regions (unat num_entries) 0xA004 (cmem s1)) s1;
          e = smap_entry (cmem s2) last_entry;
          total_memory = low_word (base_address e + region_length e - 1)
      in (total_memory, on_heap reserve_regions s2))"

definition start_paging :: "'a kernel_scheme \<Rightarrow> 'a kernel_scheme option" where
  "start_paging s = do {
     s1 \<leftarrow> say ''Initialized Physical Memory Manager!'' s;
     let s2 = poke CURRENT_PAGE_DIR_ADDRESS (directory (kheap s1)) s1;
     s3 \<leftarrow> say ''Initializing Virtual Memory Manager & Enabling Paging...'' s2;
     (u, s4) \<leftarrow> with_heap (\<lambda>h. map_option (\<lambda>h'. ((), h')) (initialize_vmm h)) s3;
     s5 \<leftarrow> say ''Initialized Virtual Memory Manager!'' s4;
     say ''Enabled Paging!'' s5
   }"

definition prekernel_main :: "'a kernel_scheme \<Rightarrow> 'a kernel_scheme option" where
  "prekernel_main s = do {
     s1 \<leftarrow> say ''Successfully entered Protected Mode!'' s;
     s2 \<leftarrow> say ''Successfully entered Lower-Memory Kernel!'' s1;
     s3 \<leftarrow> say ''Initializing Physical Memory Manager...'' s2;
     let (total_memory, s4) = start_memory s3;
     s5 \<leftarrow> start_paging s4;
     let s6 = hand_over total_memory (on_heap unmap_low s5);
     s7 \<leftarrow> say ''Pre-kernel setup done! Getting ready to jump to virtual address 0xC0000000'' s6;
     Some (clrscr s7)
   }"

section \<open>The kernel\<close>

text \<open>The first assignments of \<^verbatim>\<open>main\<close>.\<close>

definition take_over :: "'a kernel_scheme \<Rightarrow> 'a kernel_scheme" where
  "take_over s =
     s\<lparr>kheap := (kheap s)\<lparr>directory := load32 (cmem s) CURRENT_PAGE_DIR_ADDRESS,
        max_blocks := load32 (cmem s) MAX_BLOCKS, used_blocks := load32 (cmem s) USED_BLOCKS\<rparr>\<rparr>"

text \<open>
  \<open>init_malloc\<close>: one page at 0x400000 becomes the heap, a single free node. \<^verbatim>\<open>heap_end\<close> and the
  node's \<^verbatim>\<open>address\<close> are not set.
\<close>

definition init_malloc :: "'a heap_scheme \<Rightarrow> 'a heap_scheme option" where
  "init_malloc h = do {
     let h1 = h\<lparr>malloc_start := 0x400000\<rparr>;
     let h2 = h1\<lparr>malloc_virt_address := malloc_start h1\<rparr>;
     (phys, h3) \<leftarrow> allocate_blocks 1 h2;
     let h4 = h3\<lparr>malloc_phys_address := phys\<rparr>;
     (r, h5) \<leftarrow> map_address (directory h4) (malloc_phys_address h4) (malloc_virt_address h4)
                  (PTE_PRESENT OR PTE_WRITABLE OR PTE_USER) h4;
     let h6 = h5\<lparr>malloc_head := malloc_virt_address h5\<rparr>;
     let n = malloc_head h6;
     let h7 = h6\<lparr>mem := put_prev n 0 (put_next n 0 (put_free n True (put_size n (PAGE_SIZE - NODE_SIZE) (mem h6))))\<rparr>;
     Some (h7\<lparr>total_malloc_pages := 1\<rparr>)
   }"

text \<open>
  The superblock and the root inode. \<^verbatim>\<open>sector_buffer[FS_SECTOR]\<close> is the word behind the buffer,
  and what is cleared is the memory at the address it holds.
\<close>

definition load_root :: "device \<Rightarrow> symbols \<Rightarrow> 'a fs_scheme \<Rightarrow> 'a fs_scheme option" where
  "load_root dev syms s = do {
     let s1 = s\<lparr>superblock := load_superblock (cmem s) SUPERBLOCK_ADDRESS\<rparr>;
     let s2 = s1\<lparr>cmem := memset (cmem s1) (load32 (cmem s1) (sector_buffer s1 + 4 * 512)) 0 512\<rparr>;
     s3 \<leftarrow> rw_sectors dev 1 (first_inode_block (superblock s2) * 8) (sector_buffer s2) READ s2;
     let s4 = s3\<lparr>root_inode := load_inode (cmem s3) (sector_buffer s3 + 64)\<rparr>;
     let s5 = s4\<lparr>superblock := (superblock s4)\<lparr>root_i_number := root_inode_symbol syms\<rparr>\<rparr>;
     Some (s5\<lparr>current_dir_inode := root_inode s5\<rparr>)
   }"

definition set_gates :: "symbols \<Rightarrow> idt_state \<Rightarrow> idt_state" where
  "set_gates syms t =
     (let t1 = initIDT (idt_symbol syms) (isr_stubs syms) t;
          t2 = idt_set_descriptor 0 (div_by_0_symbol syms) 0x8E t1;
          t3 = idt_set_descriptor 0x20 (PIT_symbol syms) 0x8E t2;
          t4 = idt_set_descriptor 0x21 (keyboard_symbol syms) 0x8E t3;
          t5 = idt_set_descriptor 0x0E (page_fault_symbol syms) 0x8E t4;
          t6 = idt_set_descriptor 0x80 (syscall_symbol syms) 0xEE t5
      in idt_set_descriptor 0xD (gpf_symbol syms) 0x8E t6)"

text \<open>
  The two tables: each is allocated through the system call, and its first entry is cleared.
\<close>

definition make_tables :: "device \<Rightarrow> leftovers \<Rightarrow> 'a kernel_scheme \<Rightarrow> 'a kernel_scheme option" where
  "make_tables dev left s = do {
     (files, s1) \<leftarrow> malloc_call dev left (OPEN_FILE_SIZE * 256) s;
     let s2 = s1\<lparr>open_file_table := files, cmem := memset (cmem s1) files 0 OPEN_FILE_SIZE\<rparr>;
     (inodes, s3) \<leftarrow> malloc_call dev left (64 * 256) s2;
     let s4 = s3\<lparr>open_inode_table := inodes, cmem := memset (cmem s3) inodes 0 64\<rparr>;
     Some (s4\<lparr>current_open_files := 0, current_open_inodes := 0, file_virtual_address := 0x40000000\<rparr>)
   }"

text \<open>\<^verbatim>\<open>main\<close> up to its call of the shell.\<close>

definition kernel_main :: "device \<Rightarrow> leftovers \<Rightarrow> symbols \<Rightarrow> 'a machine_scheme \<Rightarrow> 'a machine_scheme option" where
  "kernel_main dev left syms s = do {
     let s1 = take_over s;
     s2 \<leftarrow> load_root dev syms s1;
     (u, s3) \<leftarrow> with_heap (\<lambda>h. map_option (\<lambda>h'. ((), h')) (init_malloc h)) s2;
     let s4 = pic_disable s3;
     s5 \<leftarrow> kprintf [10] (stack_words []) s4;
     s6 \<leftarrow> print_memmap_command (kheap s5) s5;
     s7 \<leftarrow> kprintf [10] (stack_words []) s6;
     let s8 = s7\<lparr>interrupts := set_gates syms (interrupts s7)\<rparr>;
     let s9 = set_PIT 0 2 11931 (IRQ_clear_mask dev 1 (IRQ_clear_mask dev 0 (PIC_remap dev 0x20 s8)));
     s10 \<leftarrow> make_tables dev left s9;
     Some (clrscr s10)
   }"

text \<open>\<open>print_registers\<close>: the ten registers are arguments; \<open>tester23\<close> is a system call.\<close>

primrec print_register_lines :: "(string \<times> u32) list \<Rightarrow> 'a console_scheme \<Rightarrow> 'a console_scheme option" where
  "print_register_lines [] s = Some s"
| "print_register_lines (r # rs) s =
     Option.bind (kprintf (bytes (fst r @ ''|0x%x'') @ [10]) (stack_words [snd r]) s) (print_register_lines rs)"

definition print_registers :: "u32 list \<Rightarrow> 'a console_scheme \<Rightarrow> (bool \<times> 'a console_scheme) option" where
  "print_registers regs s = do {
     s1 \<leftarrow> say ''REGISTERS      |MEM LOCATION'' s;
     s2 \<leftarrow> print_register_lines (zip [''EAX:           '', ''EBX:           '', ''ECX:           '', ''EDX:           '',
         ''ESI:           '', ''EDI:           '', ''CS:            '', ''DS:            '', ''ES:            '',
         ''SS:            ''] regs) s1;
     s3 \<leftarrow> kprintf [10] (stack_words []) s2;
     Some (True, s3)
   }"

definition tester23 :: "device \<Rightarrow> leftovers \<Rightarrow> 'a kernel_scheme \<Rightarrow> (u32 \<times> 'a kernel_scheme) option" where
  "tester23 dev left s = syscall_handler dev left 0 1 0 0 0 s"

end
