(* ===== verification/StartUp.thy ===== *)
theory StartUp
  imports Boot OpenFiles
begin

text \<open>
  Properties of starting up: that the prekernel returns and hands over to the kernel, what the
  first page of the heap holds, and which gates the processor finds.
\<close>

section \<open>Messages and memory managers\<close>

lemma say_printed:
  assumes "37 \<notin> set (bytes t)" and "screen_ok s"
  shows "\<exists>s'. say t s = Some s' \<and> printed s s'"
proof (intro exI conjI)
  show "say t s = Some (fold putc (bytes t @ [10]) s)"
    unfolding say_def by (rule kprintf_literal) (use assms(1) in simp)
  show "printed s (fold putc (bytes t @ [10]) s)" by (rule printed_fold [OF assms(2)])
qed

lemma printed_kernel:
  fixes s s' :: "'a kernel_scheme"
  assumes "printed s s'"
  shows "screen_ok s'" "kheap s' = kheap s" "\<not> in_vga x \<Longrightarrow> cmem s' x = cmem s x"
  using assms kernel_more(7) [of s' s] by (simp_all add: printed_def outside_kept_def)

lemma on_heap_frame [simp]:
  "screen_ok (on_heap f s) \<longleftrightarrow> screen_ok s" "kheap (on_heap f s) = f ((kheap s)\<lparr>mem := cmem s\<rparr>)"
  by (simp_all add: on_heap_def screen_ok_def Let_def)

lemma poke_frame [simp]:
  "screen_ok (poke a v s) \<longleftrightarrow> screen_ok s" "kheap (poke a v t) = kheap t" "cmem (poke a v s) = store32 (cmem s) a v"
  by (simp_all add: poke_def screen_ok_def)

section \<open>Which blocks are free\<close>

text \<open>The blocks that an entry of the memory map makes available.\<close>

definition region_of :: "SMAP_entry \<Rightarrow> nat set" where
  "region_of e = (if region_type e = 1 then region_blocks (low_word (base_address e)) (low_word (region_length e)) else {})"

lemma free_regions_fold: "free_regions k a m h = fold release_entry (smap_entries m a k) h"
proof (induction k arbitrary: a h)
  case (Suc k)
  have "smap_entries m a (Suc k) = smap_entry m a # smap_entries m (a + 24) k"
    unfolding smap_entries_def upt_conv_Cons [OF zero_less_Suc] map_Suc_upt [symmetric]
    by (simp add: algebra_simps)
  with Suc.IH show ?case by (simp add: Let_def release_entry_def low_word_def)
qed (simp add: smap_entries_def)

lemma release_entry_effect:
  "j \<noteq> 0 \<Longrightarrow> block_used (release_entry e h) j \<longleftrightarrow> block_used h j \<and> j \<notin> region_of e"
  "max_blocks (release_entry e h) = max_blocks h" "pmm.more (release_entry e h) = pmm.more h"
proof -
  have "region_blocks b l = {}" if "l div BLOCK_SIZE = 0" for b l :: u32
  proof -
    have "unat (l div BLOCK_SIZE) = 0" by (simp only: that unat_0)
    then show ?thesis by (simp add: region_blocks_def BLOCK_SIZE_def unat_div)
  qed
  then show "j \<noteq> 0 \<Longrightarrow> block_used (release_entry e h) j \<longleftrightarrow> block_used h j \<and> j \<notin> region_of e"
    by (auto simp: release_entry_def region_of_def low_word_def block_used_initialize_region)
qed (simp_all add: release_entry_def initialize_region_counters)

lemma fold_release_entry:
  "j \<noteq> 0 \<Longrightarrow> block_used (fold release_entry es h) j \<longleftrightarrow> block_used h j \<and> (\<forall>e \<in> set es. j \<notin> region_of e)"
  "max_blocks (fold release_entry es h) = max_blocks h" "pmm.more (fold release_entry es h) = pmm.more h"
  by (induction es arbitrary: h) (auto simp: release_entry_effect)

lemma reserve_regions_effect:
  assumes "max_blocks h = 0xFFFFF"
  shows "block_used (reserve_regions h) j \<longleftrightarrow> j < 0x12 \<or> j \<in> {0x100..<0x114} \<or> block_used h j"
    and "max_blocks (reserve_regions h) = 0xFFFFF" and "pmm.more (reserve_regions h) = pmm.more h"
  using assms
  by (auto simp: reserve_regions_def Let_def deinit_region_counters block_used_deinit_region region_blocks_def
      MEMMAP_AREA_def BLOCK_SIZE_def)

lemma initialize_pmm_effect:
  "block_used (initialize_pmm h) j \<longleftrightarrow> j < 0xFFFFF \<or> block_used h j"
  "max_blocks (initialize_pmm h) = 0xFFFFF" "pmm.more (initialize_pmm h) = pmm.more h"
proof -
  show "block_used (initialize_pmm h) j \<longleftrightarrow> j < 0xFFFFF \<or> block_used h j"
    unfolding initialize_pmm_def block_used_deinit_region by (simp add: region_blocks_def block_used_def)
qed (simp_all add: initialize_pmm_def deinit_region_counters BLOCK_SIZE_def)

text \<open>
  A memory map that the prekernel can start with: its entries lie below the bitmap, no available
  region ends above 4 GB, and one covers the five blocks after the prekernel's own.
\<close>

definition usable_map :: "memory \<Rightarrow> bool" where
  "usable_map m \<longleftrightarrow> (let es = smap_entries m 0xA004 (unat (load32 m 0xA000)) in
     load32 m 0xA000 \<le> 1000 \<and> (\<forall>e \<in> set es. region_of e \<subseteq> {..<2 ^ 20}) \<and> (\<exists>e \<in> set es. {0x12..<0x17} \<subseteq> region_of e))"

text \<open>The words behind the 128 KB of the bitmap, where other memory is, are left alone.\<close>

definition same_behind :: "'a pmm_scheme \<Rightarrow> 'b pmm_scheme \<Rightarrow> bool" where
  "same_behind h h' \<longleftrightarrow> (\<forall>i \<ge> 2 ^ 15. memory_map h' i = memory_map h i)"

lemma same_behindI:
  assumes "\<And>j. 2 ^ 20 \<le> j \<Longrightarrow> block_used h' j \<longleftrightarrow> block_used h j"
  shows "same_behind h h'"
  unfolding same_behind_def
proof (intro allI impI bit_word_eqI)
  fix i n :: nat assume "2 ^ 15 \<le> i" and n: "n < LENGTH(32)"
  then have "block_used h' (32 * i + n) \<longleftrightarrow> block_used h (32 * i + n)" by (intro assms) simp
  moreover have "(32 * i + n) div 32 = i" "(32 * i + n) mod 32 = n" using n by simp_all
  ultimately show "bit (memory_map h' i) n \<longleftrightarrow> bit (memory_map h i) n" by (simp only: block_used_def)
qed

definition early_heap :: "heap \<Rightarrow> bool" where
  "early_heap h \<longleftrightarrow> alloc_ok h \<and> max_blocks h = 0xFFFFF \<and> (\<forall>j < 0x12. block_used h j) \<and>
     (\<forall>j \<in> {0x12..<0x17}. \<not> block_used h j)"

lemma more_mem: "pmm.more h' = pmm.more h \<Longrightarrow> mem h' = mem h"
  using same_more by blast

lemma start_memory_free:
  assumes run: "start_memory s = (t, s')" and screen: "screen_ok s" and map: "usable_map (cmem s)"
  shows "screen_ok s' \<and> cmem s' = cmem s \<and> early_heap (kheap s') \<and> same_behind (kheap s) (kheap s')"
proof -
  define es where "es = smap_entries (cmem s) 0xA004 (unat (load32 (cmem s) 0xA000))"
  define h0 where "h0 = (kheap s)\<lparr>mem := cmem s\<rparr>"
  define h where "h = reserve_regions (fold release_entry es (initialize_pmm h0))"
  have m1: "mem (initialize_pmm h0) = cmem s"
    using more_mem [OF initialize_pmm_effect(3), of h0] by (simp add: h0_def)
  then have h0: "(initialize_pmm h0)\<lparr>mem := cmem s\<rparr> = initialize_pmm h0" by (cases "initialize_pmm h0") simp
  have m2: "mem (fold release_entry es (initialize_pmm h0)) = cmem s"
    using more_mem [OF fold_release_entry(3)] m1 by metis
  then have h2: "(fold release_entry es (initialize_pmm h0))\<lparr>mem := cmem s\<rparr> = fold release_entry es (initialize_pmm h0)"
    by (cases "fold release_entry es (initialize_pmm h0)") simp
  have mx: "max_blocks (fold release_entry es (initialize_pmm h0)) = 0xFFFFF"
    by (simp add: fold_release_entry(2) initialize_pmm_effect(2))
  have m3: "mem h = cmem s" using more_mem [OF reserve_regions_effect(3) [OF mx]] m2 by (simp add: h_def)
  have s': "s' = s\<lparr>kheap := h, cmem := cmem s\<rparr>"
    using run m1 m2 m3 h0 h2 unfolding start_memory_def on_heap_def Let_def free_regions_fold h0_def [symmetric]
    by (auto simp: es_def [symmetric] h_def [symmetric])
  have used: "block_used h j \<longleftrightarrow>
      j < 0x12 \<or> j \<in> {0x100..<0x114} \<or> (j < 0xFFFFF \<or> block_used (kheap s) j) \<and> (\<forall>e \<in> set es. j \<notin> region_of e)"
    if "j \<noteq> 0" for j
    unfolding h_def reserve_regions_effect(1) [OF mx] fold_release_entry(1) [OF that] initialize_pmm_effect(1)
    by (simp add: h0_def block_used_def)
  have zero: "block_used h 0" unfolding h_def reserve_regions_effect(1) [OF mx] by simp
  obtain e where e: "e \<in> set es" "{0x12..<0x17} \<subseteq> region_of e" and low: "\<And>e. e \<in> set es \<Longrightarrow> region_of e \<subseteq> {..<2 ^ 20}"
    using map by (auto simp: usable_map_def Let_def es_def [symmetric])
  have "max_blocks h = 0xFFFFF" by (simp only: h_def reserve_regions_effect(2) [OF mx])
  moreover have "block_used h j" if "j < 0x12" for j using used [of j] zero that by (cases "j = 0") simp_all
  moreover have "\<not> block_used h j" if "j \<in> {0x12..<0x17}" for j using used [of j] e that by auto
  ultimately have "early_heap h" using zero by (simp add: early_heap_def alloc_ok_def)
  moreover have "same_behind (kheap s) h"
  proof (rule same_behindI)
    fix j :: nat assume "2 ^ 20 \<le> j"
    then have "j \<noteq> 0" "\<not> j < 0x12" "j \<notin> {0x100..<0x114}" "\<not> j < 0xFFFFF" "\<forall>e \<in> set es. j \<notin> region_of e"
      using low by fastforce+
    then show "block_used h j \<longleftrightarrow> block_used (kheap s) j" using used [of j] by blast
  qed
  ultimately show ?thesis using screen by (simp add: s' screen_ok_def)
qed

section \<open>The words that are handed over\<close>

lemma hand_over_words:
  fixes s :: "'a kernel_scheme"
  shows "load32 (cmem (hand_over t s)) MAX_BLOCKS = max_blocks (kheap s)"
    "load32 (cmem (hand_over t s)) USED_BLOCKS = used_blocks (kheap s)"
    "load32 (cmem (hand_over t s)) CURRENT_PAGE_DIR_ADDRESS = directory (kheap s)"
    "load32 (cmem (hand_over t s)) TOTAL_MEMORY = t"
  by (simp_all add: hand_over_def Let_def handover_addresses load32_store32_same load32_store32_apart apart_def)

lemma load32_outside_vga:
  assumes "\<And>x. \<not> in_vga x \<Longrightarrow> m' x = m x" and "a < 0xB0000"
  shows "load32 m' a = load32 m a"
proof (rule load32_cong)
  fix k :: u32 assume "k < 4"
  then have "unat (a + k) = unat a + unat k" "unat a < 0xB0000" "unat k < 4"
    using assms(2) by (simp_all add: unat_add_no_wrap word_less_nat_alt)
  then have "\<not> in_vga (a + k)" by (simp add: in_vga_def word_le_nat_alt)
  then show "m' (a + k) = m (a + k)" by (rule assms(1))
qed

section \<open>Paging\<close>

text \<open>What the processor translates once the first \<open>n\<close> pages from 1 MB on are unmapped.\<close>

definition left_mapped :: "nat \<Rightarrow> u32 \<Rightarrow> u32 option" where
  "left_mapped n va = (if 0x100000 \<le> unat va \<and> unat va < 0x100000 + 4096 * n then None else boot_translation va)"

lemma left_mapped_0: "left_mapped 0 va = boot_translation va"
  by (auto simp: left_mapped_def)

text \<open>The tables are in blocks 0x12 and 0x13, the directory in block 0x14.\<close>

definition booted :: "nat \<Rightarrow> memory \<Rightarrow> heap \<Rightarrow> bool" where
  "booted n m h \<longleftrightarrow> directory h = 0x14000 \<and> cr3 h = 0x14000 \<and> paging h \<and> max_blocks h = 0xFFFFF \<and>
     vm_inv 0x14000 (h\<lparr>mem := m\<rparr>) \<and>
     (\<forall>i < 1024. pde m 0x14000 i = (if i = 0 then frame_into 3 0x13000 else if i = 768 then frame_into 3 0x12000 else 0)) \<and>
     (\<forall>va. walk m 0x14000 va = left_mapped n va)"

definition tables_kept :: "memory \<Rightarrow> memory \<Rightarrow> bool" where
  "tables_kept m m' \<longleftrightarrow> (\<forall>x. 0x12000 \<le> x \<and> x < 0x15000 \<longrightarrow> m' x = m x)"

lemma tables_kept_load:
  assumes "tables_kept m m'" and "p \<in> {0x12000, 0x13000, 0x14000}" and "j < 1024"
  shows "load32 m' (slot p j) = load32 m (slot p j)"
proof (rule load32_cong)
  fix k :: u32 assume "k < 4"
  then have "unat (slot p j + k) = unat p + 4 * unat j + unat k \<and> unat j < 1024 \<and> unat k < 4"
    using assms(2,3) by (auto simp: slot_def word_less_nat_alt unat_word_ariths)
  then have "0x12000 \<le> slot p j + k \<and> slot p j + k < 0x15000"
    using assms(2) by (auto simp: word_le_nat_alt word_less_nat_alt)
  then show "m' (slot p j + k) = m (slot p j + k)" using assms(1) by (simp add: tables_kept_def)
qed

lemma booted_tables_kept:
  assumes boot: "booted n m h" and kept: "tables_kept m m'"
  shows "booted n m' h"
proof -
  have pde: "pde m' 0x14000 i = pde m 0x14000 i" if "i < 1024" for i
    using tables_kept_load [OF kept _ that, of "0x14000"] by (simp add: pde_def)
  have fr: "GET_FRAME (frame_into 3 0x13000) = 0x13000" "GET_FRAME (frame_into 3 0x12000) = 0x12000"
    by (simp_all add: GET_FRAME_def frame_into_def)
  have "walk m' 0x14000 va = walk m 0x14000 va" for va
  proof -
    let ?d = "pde m 0x14000 (PD_INDEX va)"
    have "?d \<in> {frame_into 3 0x13000, frame_into 3 0x12000, 0}" using boot by (simp add: booted_def)
    then have "\<not> bit ?d 0 \<or> GET_FRAME ?d \<in> {0x12000, 0x13000, 0x14000}" using fr by auto
    then show ?thesis
      using tables_kept_load [OF kept, of "GET_FRAME ?d" "PT_INDEX va"] pde [of "PD_INDEX va"]
      by (auto simp: walk_def pde_def [symmetric] Let_def)
  qed
  moreover have "vm_inv 0x14000 (h\<lparr>mem := m\<rparr>)" using boot by (simp only: booted_def)
  then have "vm_inv 0x14000 (h\<lparr>mem := m'\<rparr>)"
    by (simp add: vm_inv_def tables_wf_def alloc_ok_def block_used_def pde)
  ultimately show ?thesis using boot pde by (simp add: booted_def)
qed

lemma tables_kept_printed: "printed s s' \<Longrightarrow> tables_kept (cmem s) (cmem s')"
  by (auto simp: tables_kept_def printed_def outside_kept_def in_vga_def word_le_nat_alt word_less_nat_alt)

lemma tables_kept_store:
  assumes "unat a < 0x11000"
  shows "tables_kept m (store32 m a v)"
  unfolding tables_kept_def
proof (intro allI impI)
  fix x :: u32 assume x: "0x12000 \<le> x \<and> x < 0x15000"
  then have "unat (x - a) = unat x - unat a" using assms by (simp add: unat_sub word_le_nat_alt)
  then have "4 \<le> x - a" using x assms by (simp add: word_le_nat_alt) linarith
  then show "store32 m a v x = m x" by (rule store32_other)
qed

text \<open>The lowest request that fits directly above the blocks in use.\<close>

lemma alloc_above:
  assumes ok: "alloc_ok s" and used: "\<And>j. j < k \<Longrightarrow> block_used s j"
    and avail: "\<And>j. j \<in> {k..<k + unat n} \<Longrightarrow> \<not> block_used s j"
    and n: "n \<noteq> 0" "k + unat n \<le> unat (max_blocks s)"
  shows "\<exists>p s'. allocate_blocks n s = Some (p, s') \<and> unat p = 4096 * k \<and> alloc_ok s' \<and>
    (\<forall>j. block_used s' j \<longleftrightarrow> j \<in> {k..<k + unat n} \<or> block_used s j) \<and> max_blocks s' = max_blocks s"
proof -
  have pos: "0 < unat n" using n(1) by (simp add: unat_gt_0)
  have "first_fit (memory_map s) (unat (max_blocks s)) (unat n) = Some k"
  proof (rule first_fit_SomeI [OF n(2)])
    show "free_run (memory_map s) k (unat n)" using avail by (simp add: free_run_def block_used_used_in)
    show "\<not> free_run (memory_map s) b (unat n)" if "b < k" for b
      using used [OF that] pos by (auto simp: free_run_def block_used_used_in)
  qed
  then obtain p s' where r: "allocate_blocks n s = Some (p, s')" and al: "allocated s n k p s'"
    using allocate_blocks_cases [OF ok, of n] n(1) by (auto simp: allocated_def)
  then show ?thesis using allocated_alloc_ok [OF ok al] by (simp add: allocated_def)
qed

lemma initialize_vmm_booted:
  assumes "early_heap h"
  shows "\<exists>h'. initialize_vmm h = Some h' \<and> booted 0 (mem h') h' \<and> same_behind h h'"
proof -
  have h: "alloc_ok h" "max_blocks h = 0xFFFFF" "\<And>j. j < 0x12 \<Longrightarrow> block_used h j"
      "\<And>j. j \<in> {0x12..<0x17} \<Longrightarrow> \<not> block_used h j"
    using assms by (simp_all add: early_heap_def)
  obtain p1 h1 where h1: "allocate_blocks 1 h = Some (p1, h1)" "unat p1 = 0x12000" "alloc_ok h1"
      "\<And>j. block_used h1 j \<longleftrightarrow> 0x12 \<le> j \<and> j < 0x13 \<or> block_used h j" "max_blocks h1 = 0xFFFFF"
    using alloc_above [OF h(1), of "0x12" 1] h(2-4) by auto
  have h1': "block_used h1 j" if "j < 0x13" for j using h(3) [of j] h1(4) [of j] that by linarith
  obtain p2 h2 where h2: "allocate_blocks 1 h1 = Some (p2, h2)" "unat p2 = 0x13000" "alloc_ok h2"
      "\<And>j. block_used h2 j \<longleftrightarrow> 0x13 \<le> j \<and> j < 0x14 \<or> block_used h1 j" "max_blocks h2 = 0xFFFFF"
    using alloc_above [OF h1(3), of "0x13" 1] h(4) h1' h1(4,5) by auto
  have h2': "block_used h2 j" if "j < 0x14" for j using h1' [of j] h2(4) [of j] that by linarith
  obtain p3 h3 where h3: "allocate_blocks 3 h2 = Some (p3, h3)" "unat p3 = 0x14000"
      "\<And>j. block_used h3 j \<longleftrightarrow> 0x14 \<le> j \<and> j < 0x17 \<or> block_used h2 j" "max_blocks h3 = 0xFFFFF"
    using alloc_above [OF h2(3), of "0x14" 3] h(4) h2' h1(4) h2(4,5) by auto
  have p: "p1 = 0x12000" "p2 = 0x13000" "p3 = 0x14000"
    using h1(2) h2(2) h3(2) by (simp_all add: word_unat_eq_iff)
  then have nz: "p1 \<noteq> 0" "p2 \<noteq> 0" "p3 \<noteq> 0" by simp_all
  obtain h' where h': "initialize_vmm h = Some h'" "paging h'" "directory h' = p3" "cr3 h' = p3" "vm_inv p3 h'"
      "\<forall>va. walk (mem h') p3 va = boot_translation va" "block_used h' = block_used h3" "max_blocks h' = max_blocks h3"
      "\<forall>i < 1024. pde (mem h') p3 i = (if i = 0 then frame_into 3 p2 else if i = 768 then frame_into 3 p1 else 0)"
    using initialize_vmm_tables [OF h(1) h1(1) nz(1) h2(1) nz(2) h3(1) nz(3)] by blast
  have "same_behind h h'" by (rule same_behindI) (simp add: h'(7) h3(3) h2(4) h1(4))
  moreover have "booted 0 (mem h') h'" using h' h3(4) p by (simp add: booted_def left_mapped_0)
  ultimately show ?thesis using h'(1) by blast
qed

lemma unmap_first_pages:
  assumes "booted 0 (mem h) h" and "n \<le> 768"
  shows "let h' = fold (\<lambda>i. unmap_page (0x100000 + of_nat i * PAGE_SIZE)) [0..<n] h
    in booted n (mem h') h' \<and> memory_map h' = memory_map h \<and> used_blocks h' = used_blocks h"
  using assms(2)
proof (induction n)
  case 0
  then show ?case using assms(1) by simp
next
  case (Suc n)
  define g where "g = fold (\<lambda>i. unmap_page (0x100000 + of_nat i * PAGE_SIZE)) [0..<n] h"
  define va :: u32 where "va = 0x100000 + of_nat n * PAGE_SIZE"
  have g: "booted n (mem g) g" "memory_map g = memory_map h" "used_blocks g = used_blocks h"
    using Suc by (simp_all add: Let_def g_def)
  have u: "unat va = 0x100000 + 4096 * n"
    using Suc.prems by (simp add: va_def PAGE_SIZE_def unat_word_ariths unat_of_nat_small)
  then have "unat (PD_INDEX va) = unat (0 :: u32)" using Suc.prems by (simp add: unat_PD_INDEX div_eq_0_iff)
  then have pd: "PD_INDEX va = 0" by (rule unsigned_word_eqI)
  have dir: "directory g = 0x14000" and inv: "vm_inv (directory g) g"
    using g(1) by (simp_all add: booted_def)
  have "frame_into 3 0x13000 \<noteq> 0" by (simp add: frame_into_def)
  then have present: "pde (mem g) (directory g) (PD_INDEX va) \<noteq> 0"
    using g(1) by (simp add: booted_def pd)
  have same: "GET_FRAME b = GET_FRAME va \<longleftrightarrow> unat b div 4096 = 256 + n" for b
  proof -
    have "unat va div 4096 = 256 + n" using u by simp
    then show ?thesis by (simp only: word_unat_eq_iff unat_GET_FRAME mult_cancel1) simp
  qed
  have "left_mapped (Suc n) b = (if GET_FRAME b = GET_FRAME va then None else left_mapped n b)" for b
    unfolding same left_mapped_def by auto
  moreover have "tables_wf (mem g) (directory g)" using inv by (simp add: vm_inv_def)
  ultimately have "booted (Suc n) (mem (unmap_page va g)) (unmap_page va g)"
    using unmap_page_unmaps [OF inv present] unmap_page_pde [OF _ present] g(1)
    by (simp add: booted_def unmap_page_fields)
  then show ?case using g(2,3) by (simp add: Let_def g_def [symmetric] va_def [symmetric] unmap_page_fields)
qed

lemma booted_mem [simp]: "booted n m (h\<lparr>mem := m'\<rparr>) = booted n m h"
  by (simp add: booted_def)

lemma start_paging_boots:
  assumes "screen_ok s" and early: "early_heap (kheap s)"
  shows "\<exists>s'. start_paging s = Some s' \<and> screen_ok s' \<and> booted 0 (cmem s') (kheap s') \<and> same_behind (kheap s) (kheap s')"
proof -
  note lit = bytes_def of_char_def
  obtain s1 where 1: "say ''Initialized Physical Memory Manager!'' s = Some s1" "printed s s1"
    using say_printed [OF _ assms(1), of "''Initialized Physical Memory Manager!''"] by (auto simp: lit)
  define s2 where "s2 = poke CURRENT_PAGE_DIR_ADDRESS (directory (kheap s1)) s1"
  have s2: "screen_ok s2" "kheap s2 = kheap s"
    using printed_kernel(1,2) [OF 1(2)] by (simp_all add: s2_def)
  obtain s3 where 3: "say ''Initializing Virtual Memory Manager & Enabling Paging...'' s2 = Some s3" "printed s2 s3"
    using say_printed [OF _ s2(1), of "''Initializing Virtual Memory Manager & Enabling Paging...''"] by (auto simp: lit)
  define h0 where "h0 = (kheap s)\<lparr>mem := cmem s3\<rparr>"
  have "early_heap h0" using early by (simp add: early_heap_def alloc_ok_def block_used_def h0_def)
  then obtain h where h: "initialize_vmm h0 = Some h" "booted 0 (mem h) h" "same_behind h0 h"
    using initialize_vmm_booted by blast
  define s4 where "s4 = s3\<lparr>kheap := h, cmem := mem h\<rparr>"
  have s4: "screen_ok s4" using printed_kernel(1) [OF 3(2)] by (simp add: s4_def screen_ok_def)
  obtain s5 where 5: "say ''Initialized Virtual Memory Manager!'' s4 = Some s5" "printed s4 s5"
    using say_printed [OF _ s4, of "''Initialized Virtual Memory Manager!''"] by (auto simp: lit)
  obtain s6 where 6: "say ''Enabled Paging!'' s5 = Some s6" "printed s5 s6"
    using say_printed [OF _ printed_kernel(1) [OF 5(2)], of "''Enabled Paging!''"] by (auto simp: lit)
  have h0: "(kheap s3)\<lparr>mem := cmem s3\<rparr> = h0"
    using printed_kernel(2) [OF 3(2)] s2(2) by (simp add: h0_def)
  have "start_paging s = Some s6"
    using 1(1) 3(1) h(1) 5(1) 6(1) h0
    by (simp add: start_paging_def Let_def s2_def [symmetric] with_heap_def s4_def [symmetric])
  moreover have p46: "printed s4 s6" by (rule printed_trans [OF 5(2) 6(2)])
  have "booted 0 (cmem s4) (kheap s4)" using h(2) by (simp add: s4_def)
  then have "booted 0 (cmem s6) (kheap s6)"
    using booted_tables_kept [OF _ tables_kept_printed [OF p46]] printed_kernel(2) [OF p46] by simp
  moreover have "same_behind (kheap s) (kheap s6)"
    using h(3) printed_kernel(2) [OF p46] by (simp add: same_behind_def h0_def s4_def)
  ultimately show ?thesis using printed_kernel(1) [OF p46] by blast
qed

lemma usable_map_printed:
  assumes kept: "printed s s'" and map: "usable_map (cmem s)"
  shows "usable_map (cmem s')"
proof -
  let ?n = "unat (load32 (cmem s) 0xA000)"
  have n: "?n \<le> 1000" using map by (simp add: usable_map_def Let_def word_le_nat_alt)
  have low: "\<not> in_vga x" if "unat x < 0xB0000" for x
    using that by (simp add: in_vga_def word_le_nat_alt)
  have word: "load32 (cmem s') 0xA000 = load32 (cmem s) 0xA000"
    by (rule load32_printed [OF kept], rule low) (simp add: word_less_nat_alt unat_add_no_wrap)
  have "smap_entry (cmem s') (0xA004 + 24 * of_nat i) = smap_entry (cmem s) (0xA004 + 24 * of_nat i)" if "i < ?n" for i
  proof (rule smap_entry_printed [OF kept])
    have "unat (0xA004 + 24 * of_nat i :: u32) = 0xA004 + 24 * i" using that n by (simp add: unat_word_ariths unat_of_nat)
    then show "entry_outside (0xA004 + 24 * of_nat i)"
      unfolding entry_outside_def using that n
      by (intro allI impI low) (simp add: word_less_nat_alt unat_add_no_wrap)
  qed
  then have "smap_entries (cmem s') 0xA004 ?n = smap_entries (cmem s) 0xA004 ?n" by (simp add: smap_entries_def)
  then show ?thesis using map by (simp add: usable_map_def Let_def word)
qed

section \<open>The hand-over\<close>

text \<open>
  C38. The prekernel runs to its end when the cursor is on the screen and the memory map at 0xA000
  is usable: at most 1000 entries, no available region ends above 4 GB (so that the bitmap stays
  within its 128 KB), and one covers the five blocks from 0x12 on. The two page tables and
  the directory are then taken from these blocks, so they lie below 1 MB and apart from the bitmap.
  Paging is on and translates the first megabyte, where the prekernel and all it accesses lie, to
  itself, the 4 MB at 0xC0000000 to physical 0x100000 onwards, and nothing else: the jump to
  0xC0000000 enters the kernel. The kernel's first assignments, started with whatever its own
  variables hold, set the number of blocks, the count of used blocks and the page directory to what
  the prekernel ended with.
\<close>

theorem prekernel_hands_over:
  fixes s :: "'a kernel_scheme"
  assumes screen: "screen_ok s" and map: "usable_map (cmem s)"
  shows "\<exists>s'. prekernel_main s = Some s' \<and> paging (kheap s') \<and>
    directory (kheap s') = 0x14000 \<and> cr3 (kheap s') = 0x14000 \<and> max_blocks (kheap s') = 0xFFFFF \<and>
    vm_inv 0x14000 ((kheap s')\<lparr>mem := cmem s'\<rparr>) \<and>
    (\<forall>va. walk (cmem s') 0x14000 va =
       (if va < 0x100000 then Some va
        else if 0xC0000000 \<le> va \<and> va < 0xC0400000 then Some (va - 0xC0000000 + 0x100000) else None)) \<and>
    (\<forall>i \<ge> 2 ^ 15. memory_map (kheap s') i = memory_map (kheap s) i) \<and>
    (\<forall>k :: 'b kernel_scheme. cmem k = cmem s' \<longrightarrow>
       max_blocks (kheap (take_over k)) = max_blocks (kheap s') \<and>
       used_blocks (kheap (take_over k)) = used_blocks (kheap s') \<and>
       directory (kheap (take_over k)) = directory (kheap s'))"
proof -
  note lit = bytes_def of_char_def
  obtain s1 where 1: "say ''Successfully entered Protected Mode!'' s = Some s1" "printed s s1"
    using say_printed [OF _ screen, of "''Successfully entered Protected Mode!''"] by (auto simp: lit)
  obtain s2 where 2: "say ''Successfully entered Lower-Memory Kernel!'' s1 = Some s2" "printed s1 s2"
    using say_printed [OF _ printed_kernel(1) [OF 1(2)], of "''Successfully entered Lower-Memory Kernel!''"] by (auto simp: lit)
  obtain s3 where 3: "say ''Initializing Physical Memory Manager...'' s2 = Some s3" "printed s2 s3"
    using say_printed [OF _ printed_kernel(1) [OF 2(2)], of "''Initializing Physical Memory Manager...''"] by (auto simp: lit)
  have p03: "printed s s3" by (rule printed_trans [OF 1(2) printed_trans [OF 2(2) 3(2)]])
  obtain t s4 where 4: "start_memory s3 = (t, s4)" by fastforce
  have s4: "screen_ok s4" "early_heap (kheap s4)" "same_behind (kheap s) (kheap s4)"
    using start_memory_free [OF 4 printed_kernel(1) [OF p03] usable_map_printed [OF p03 map]]
      printed_kernel(2) [OF p03] by simp_all
  obtain s5 where 5: "start_paging s4 = Some s5" "screen_ok s5" "booted 0 (cmem s5) (kheap s5)"
      "same_behind (kheap s4) (kheap s5)"
    using start_paging_boots [OF s4(1,2)] by blast
  define h where "h = unmap_low ((kheap s5)\<lparr>mem := cmem s5\<rparr>)"
  have h: "booted 768 (mem h) h" "memory_map h = memory_map (kheap s5)"
    using unmap_first_pages [of "(kheap s5)\<lparr>mem := cmem s5\<rparr>" 768] 5(3)
    by (simp_all add: unmap_low_def h_def Let_def)
  define s6 where "s6 = hand_over t (on_heap unmap_low s5)"
  have s6: "screen_ok s6" "kheap s6 = h"
    using 5(2) by (simp_all add: s6_def hand_over_def Let_def h_def)
  have "booted 768 (cmem (on_heap unmap_low s5)) h" using h(1) by (simp add: on_heap_def Let_def h_def)
  then have b6: "booted 768 (cmem s6) h"
    unfolding s6_def hand_over_def Let_def poke_frame
    by (intro booted_tables_kept [OF _ tables_kept_store]) (simp_all add: handover_addresses)
  obtain s7 where 7: "say ''Pre-kernel setup done! Getting ready to jump to virtual address 0xC0000000'' s6 = Some s7" "printed s6 s7"
    using say_printed [OF _ s6(1), of "''Pre-kernel setup done! Getting ready to jump to virtual address 0xC0000000''"] by (auto simp: lit)
  define s' where "s' = clrscr s7"
  have p: "printed s6 s'" using printed_trans [OF 7(2), of s'] clrscr_kept [of s7] by (simp add: s'_def printed_def)
  note kept = printed_kernel [OF p]
  have run: "prekernel_main s = Some s'"
    using 1(1) 2(1) 3(1) 4 5(1) 7(1) by (simp add: prekernel_main_def s6_def [symmetric] s'_def)
  have boot: "booted 768 (cmem s') (kheap s')"
    using booted_tables_kept [OF b6 tables_kept_printed [OF p]] kept(2) s6(2) by simp
  have word: "load32 (cmem s') a = load32 (cmem s6) a" if "a < 0xB0000" for a
    using kept(3) that by (intro load32_outside_vga) auto
  have "load32 (cmem s') MAX_BLOCKS = max_blocks (kheap s')" "load32 (cmem s') USED_BLOCKS = used_blocks (kheap s')"
    "load32 (cmem s') CURRENT_PAGE_DIR_ADDRESS = directory (kheap s')"
    using hand_over_words(1-3) [of t "on_heap unmap_low s5"] kept(2) s6(2)
      word [of MAX_BLOCKS] word [of USED_BLOCKS] word [of CURRENT_PAGE_DIR_ADDRESS]
    by (simp_all add: s6_def [symmetric] handover_addresses h_def)
  moreover have "left_mapped 768 va = (if va < 0x100000 then Some va
      else if 0xC0000000 \<le> va \<and> va < 0xC0400000 then Some (va - 0xC0000000 + 0x100000) else None)" for va
    by (auto simp: left_mapped_def boot_translation_def word_less_nat_alt word_le_nat_alt)
  moreover have "same_behind (kheap s) (kheap s')"
    using s4(3) 5(4) h(2) kept(2) s6(2) by (simp add: same_behind_def)
  ultimately show ?thesis using run boot by (simp add: booted_def take_over_def same_behind_def)
qed

text \<open>The run on a machine whose memory map has one available region, of 0x9F000 bytes from 0 on.\<close>

definition example_start :: kernel where
  "example_start = example_kernel\<lparr>cmem := (\<lambda>_. 0)(0xA000 := 1, 0xA00D := 0xF0, 0xA00E := 9, 0xA014 := 1)\<rparr>"

lemma example_start_map: "usable_map (cmem example_start)"
proof -
  have n: "load32 (cmem example_start) 0xA000 = 1" by (simp add: load32_def example_start_def)
  have e: "smap_entries (cmem example_start) 0xA004 (unat (1 :: u32)) = [smap_entry (cmem example_start) 0xA004]"
    by (simp add: smap_entries_def)
  have f: "base_address (smap_entry (cmem example_start) 0xA004) = 0"
    "region_length (smap_entry (cmem example_start) 0xA004) = 0x9F000"
    "region_type (smap_entry (cmem example_start) 0xA004) = 1"
    by (simp_all add: smap_entry_def load64_def load32_def example_start_def push_bit_eq_mult)
  have "region_of (smap_entry (cmem example_start) 0xA004) = {0..<0x9F}"
    unfolding region_of_def f by (simp add: region_blocks_def low_word_def)
  then show ?thesis by (simp only: usable_map_def Let_def n e) auto
qed

theorem prekernel_hands_over_witness:
  "\<exists>s'. prekernel_main example_start = Some s' \<and> walk (cmem s') (directory (kheap s')) 0xC0000005 = Some 0x100005 \<and>
     max_blocks (kheap (take_over s')) = 0xFFFFF"
proof -
  have "screen_ok example_start"
    by (simp add: screen_ok_def on_screen_def example_start_def example_kernel_simps)
  from prekernel_hands_over [OF this example_start_map, where 'b = unit] show ?thesis by auto
qed

section \<open>The first tables of the kernel\<close>

lemma init_malloc_page:
  assumes "alloc_ok h"
  shows "\<exists>h'. init_malloc h = Some h' \<and> alloc_ok h' \<and> heap_end h' = heap_end h \<and> malloc_head h' = 0x400000 \<and>
    heap_chain (mem h') 0x400000 0x401000 [(4076, True)]"
proof -
  let ?h2 = "h\<lparr>malloc_start := 0x400000, malloc_virt_address := 0x400000\<rparr>"
  have ok2: "alloc_ok ?h2" using assms by (simp add: alloc_ok_def block_used_def)
  then obtain phys h3 where al: "allocate_blocks 1 ?h2 = Some (phys, h3)"
    using pmm_alloc.alloc_total [of ?h2 1] by auto
  have h3: "vmm.more h3 = vmm.more ?h2" "alloc_ok h3"
    using allocate_blocks_vmm_frame [OF al] pmm_alloc.alloc_inv [OF ok2 al] by simp_all
  let ?h4 = "h3\<lparr>malloc_phys_address := phys\<rparr>"
  have "alloc_ok ?h4" using h3(2) by (simp add: alloc_ok_def block_used_def)
  then obtain r h5 where map: "map_address (directory ?h4) phys (malloc_virt_address ?h4)
      (PTE_PRESENT OR PTE_WRITABLE OR PTE_USER) ?h4 = Some (r, h5)" "vm_step_ok ?h4 h5"
    using vm_run_returns unfolding map_address_def by blast
  have f: "heap_end h5 = heap_end h" "malloc_virt_address h5 = 0x400000"
    using map(2) h3(1) by (cases h5; cases h3; cases h; simp add: vm_step_ok_def)+
  define h' where "h' = h5\<lparr>malloc_head := 0x400000,
    mem := put_prev 0x400000 0 (put_next 0x400000 0 (put_free 0x400000 True (put_size 0x400000 (PAGE_SIZE - NODE_SIZE) (mem h5)))),
    total_malloc_pages := 1\<rparr>"
  have "init_malloc h = Some h'"
    using al map(1) f(2) by (simp add: init_malloc_def Let_def h'_def)
  moreover have "alloc_ok h5" using map(2) by (simp add: vm_step_ok_def)
  then have "alloc_ok h'" by (simp add: alloc_ok_def block_used_def h'_def)
  moreover have "heap_chain (mem h') 0x400000 0x401000 [(4076, True)]"
    by (simp add: h'_def heap_chain_Cons node_facts PAGE_SIZE_def NODE_SIZE_def)
  ultimately show ?thesis using f(1) by (simp add: h'_def)
qed

text \<open>
  C39. After \<open>init_malloc\<close>, with \<^verbatim>\<open>heap_end\<close> still zero as the C program starts it, the two
  allocations of \<^verbatim>\<open>main\<close> (each followed by the merge that \<open>sys_malloc\<close> does) return 0x400014 for
  the table of open files, which lies inside the heap page, and the null address for the table of
  open inodes: the kernel's table of inodes and the header of its heap node are at address 0.
\<close>

theorem inode_table_at_null:
  assumes "alloc_ok h" and "heap_end h = 0"
  shows "\<exists>h1 h2 h3 h4. init_malloc h = Some h1 \<and>
    malloc_next (OPEN_FILE_SIZE * 256) h1 = Some (0x400014, h2) \<and> merge_free_blocks h2 = Some h3 \<and>
    malloc_next (64 * 256) h3 = Some (0, h4) \<and> node_size (mem h4) 0 = 16364 \<and> heap_end h4 = 0x4000"
proof -
  obtain h1 where 1: "init_malloc h = Some h1" "alloc_ok h1" "heap_end h1 = 0" "malloc_head h1 = 0x400000"
      "heap_chain (mem h1) 0x400000 0x401000 [(4076, True)]"
    using init_malloc_page [OF assms(1)] assms(2) by auto
  have "fit (unat (3840 :: u32)) [(4076, True)] = Some (20, [(3840, False), (216, True)])" by simp
  then obtain p m where 2: "malloc_search 3840 0x400000 h1 = Some (Some p, h1\<lparr>mem := m\<rparr>)" "unat p = 0x400014"
      "heap_chain m 0x400000 0x401000 [(3840, False), (216, True)]"
    using malloc_search_fit [OF 1(5), of 3840] by auto
  have "p = 0x400014" using 2(2) by (simp add: word_unat_eq_iff)
  then have m2: "malloc_next (OPEN_FILE_SIZE * 256) h1 = Some (0x400014, h1\<lparr>mem := m\<rparr>)"
    using 2(1) 1(4) malloc_next_search [of 3840 h1 p "h1\<lparr>mem := m\<rparr>"] by (simp add: OPEN_FILE_SIZE_def)
  obtain m' where 3: "merge_loop 0x400000 m = Some m'" "heap_chain m' 0x400000 0x401000 [(3840, False), (216, True)]"
    using merge_loop_merged [OF 2(3)] by auto
  let ?h3 = "h1\<lparr>mem := m'\<rparr>"
  have m3: "merge_free_blocks (h1\<lparr>mem := m\<rparr>) = Some ?h3" using 3(1) 1(4) by (simp add: merge_free_blocks_def)
  have "fit (unat (16384 :: u32)) [(3840, False), (216, True)] = None" by simp
  moreover have "pages_for 16384 = 4" by (simp add: pages_for_def PAGE_SIZE_def)
  moreover have "alloc_ok ?h3" using 1(2) by (simp add: alloc_ok_def block_used_def)
  ultimately have "\<exists>h4. malloc_next 16384 ?h3 = Some (0, h4) \<and> node_size (mem h4) 0 = 16364 \<and> heap_end h4 = 0x4000"
    using malloc_next_header [of ?h3 "0x401000" "[(3840, False), (216, True)]" 16384] 3(2) 1(3,4)
    by (auto simp: PAGE_SIZE_def NODE_SIZE_def)
  then show ?thesis using 1(1) m2 m3 by auto
qed

theorem inode_table_at_null_witness:
  "\<exists>h1 h2 h3 h4. init_malloc (example_heap\<lparr>heap_end := 0\<rparr>) = Some h1 \<and>
    malloc_next (OPEN_FILE_SIZE * 256) h1 = Some (0x400014, h2) \<and> merge_free_blocks h2 = Some h3 \<and>
    malloc_next (64 * 256) h3 = Some (0, h4) \<and> node_size (mem h4) 0 = 16364 \<and> heap_end h4 = 0x4000"
proof -
  have "alloc_ok (example_heap\<lparr>heap_end := 0\<rparr>)"
    using example_heap_ok by (simp add: alloc_ok_def block_used_def)
  then show ?thesis by (rule inode_table_at_null) simp
qed

section \<open>The gates\<close>

definition gate_symbol :: "symbols \<Rightarrow> u8 \<Rightarrow> u32" where
  "gate_symbol syms v =
     (if v = 0 then div_by_0_symbol syms else if v = 0xD then gpf_symbol syms
      else if v = 0xE then page_fault_symbol syms else if v = 0x20 then PIT_symbol syms
      else if v = 0x21 then keyboard_symbol syms else if v = 0x80 then syscall_symbol syms
      else isr_stubs syms (unat v))"

lemma idt_set_other: "w \<noteq> v \<Longrightarrow> idt (idt_set_descriptor v i f t) w = idt t w"
  by (simp add: idt_set_descriptor_def)

lemma idt_set_fields:
  "segsel (idt (idt_set_descriptor v i f t) v) = 8" "donottouch (idt (idt_set_descriptor v i f t) v) = 0"
  "attributes (idt (idt_set_descriptor v i f t) v) = f"
  by (simp_all add: idt_set_descriptor_def)

lemma initIDT_fields:
  "segsel (idt (initIDT a table t) v) = 8" "donottouch (idt (initIDT a table t) v) = 0"
  "attributes (idt (initIDT a table t) v) = 0x8E" "gate_offset (idt (initIDT a table t) v) = table (unat v)"
proof -
  have "unat v < 256" using unsigned_less [of v] by simp
  from initIDT_entry [OF this, of a table t] show
    "segsel (idt (initIDT a table t) v) = 8" "donottouch (idt (initIDT a table t) v) = 0"
    "attributes (idt (initIDT a table t) v) = 0x8E" "gate_offset (idt (initIDT a table t) v) = table (unat v)"
    by (simp_all add: idt_set_fields gate_offset_set)
qed

lemma set_gates_fields:
  "segsel (idt (set_gates syms t) v) = 8 \<and> donottouch (idt (set_gates syms t) v) = 0 \<and>
   attributes (idt (set_gates syms t) v) = (if v = 0x80 then 0xEE else 0x8E) \<and>
   gate_offset (idt (set_gates syms t) v) = gate_symbol syms v"
proof (cases "v \<in> {0, 0xD, 0xE, 0x20, 0x21, 0x80}")
  case True
  then show ?thesis
    by (elim insertE emptyE)
      (simp_all add: set_gates_def Let_def idt_set_other idt_set_fields gate_offset_set gate_symbol_def)
next
  case False
  then show ?thesis
    by (simp add: set_gates_def Let_def idt_set_other initIDT_fields gate_symbol_def)
qed

text \<open>
  C40. The gates after the calls of \<^verbatim>\<open>main\<close>. Every one of the 256 descriptors is a present 32-bit
  interrupt gate in the kernel's code segment, and that of the system call is the only one user
  code may call. The six vectors that \<^verbatim>\<open>main\<close> names lead to their handlers, and the other
  exceptions, below 32, to their entries of the stub table. Every other vector leads nowhere in
  particular: to the word \<open>behind\<close> the 32 entries of the stub table, whatever that is.
\<close>

theorem gates_well_formed:
  fixes syms :: symbols and stubs behind :: "nat \<Rightarrow> u32"
  defines "syms' \<equiv> syms\<lparr>isr_stubs := \<lambda>n. if n < 32 then stubs n else behind (n - 32)\<rparr>"
  shows "segsel (idt (set_gates syms' t) v) = 8 \<and> donottouch (idt (set_gates syms' t) v) = 0 \<and>
   attributes (idt (set_gates syms' t) v) = (if v = 0x80 then 0xEE else 0x8E) \<and>
   gate_offset (idt (set_gates syms' t) v) =
     (if v = 0 then div_by_0_symbol syms else if v = 0xD then gpf_symbol syms
      else if v = 0xE then page_fault_symbol syms else if v = 0x20 then PIT_symbol syms
      else if v = 0x21 then keyboard_symbol syms else if v = 0x80 then syscall_symbol syms
      else if unat v < 32 then stubs (unat v) else behind (unat v - 32))"
  using set_gates_fields [of syms' t v] by (simp add: gate_symbol_def syms'_def)

end
