(* ===== verification/Shell.thy ===== *)
theory Shell
  imports Boot
begin

text \<open>
  The shell of \<^verbatim>\<open>kernel/kernel.c\<close>: it reads a line, compares it with the names of its commands
  one after another, and runs the command. A second line that a command asks for is read into
  the same buffer. The lines come from the keyboard interrupts of a list of inputs, one list of
  interrupts for each \<open>readline\<close>; with no input left the shell waits.
\<close>

section \<open>Reading a line\<close>

text \<open>The buffer is the array at \<open>line_symbol\<close>, through which the rest of the kernel sees the line.\<close>

fun read_line :: "symbols \<Rightarrow> device list list \<Rightarrow> 'a kernel_scheme \<Rightarrow> (device list list \<times> 'a kernel_scheme) option" where
  "read_line syms [] s = None"
| "read_line syms (es # rest) s = do {
     s1 \<leftarrow> readline es s;
     Some (rest, s1\<lparr>cmem := put_bytes (line_symbol syms) INPUT_BUFFER_SIZE (input_buffer s1) (cmem s1)\<rparr>)
   }"

definition ask :: "string \<Rightarrow> symbols \<Rightarrow> device list list \<Rightarrow> 'a kernel_scheme \<Rightarrow> (device list list \<times> 'a kernel_scheme) option" where
  "ask prompt syms inputs s = do {
     s1 \<leftarrow> kprintf (bytes prompt @ [10, 62]) (stack_words []) s;
     read_line syms inputs s1
   }"

section \<open>Commands\<close>

datatype shell_command = Printmem | Ls | Exit | Clear | Exec | Help | Touch | Cat | Editfile | Printregisters

definition command_table :: "(string \<times> shell_command) list" where
  "command_table =
     [(''printmem'', Printmem), (''ls'', Ls), (''exit'', Exit), (''clear'', Clear), (''exec'', Exec), (''help'', Help),
      (''touch'', Touch), (''cat'', Cat), (''editfile'', Editfile), (''printregisters'', Printregisters)]"

text \<open>The chain of \<^verbatim>\<open>strcmp(command, "...") == 0\<close>; \<open>None\<close> inside is "no command matches".\<close>

primrec find_command :: "symbols \<Rightarrow> (string \<times> shell_command) list \<Rightarrow> memory \<Rightarrow> shell_command option option" where
  "find_command syms [] m = Some None"
| "find_command syms (c # cs) m = do {
     r \<leftarrow> strcmp m (line_symbol syms) (literal_symbol syms (fst c));
     if r = 0 then Some (Some (snd c)) else find_command syms cs m
   }"

text \<open>What the code takes from the processor: \<^verbatim>\<open>esp\<close>, \<^verbatim>\<open>edx\<close>, an uninitialised local, the registers.\<close>

record cpu =
  cpu_device :: device
  cpu_local :: leftovers
  cpu_edx :: u32
  cpu_esp :: u32
  cpu_registers :: "u32 list"

text \<open>A command returns to the loop, or leaves it for user mode with an entry point, a stack and a descriptor.\<close>

datatype shell_result = Continue | Waiting | User_mode u32 u32 u32

definition exec_program :: "cpu \<Rightarrow> u32 \<Rightarrow> 'a kernel_scheme \<Rightarrow> (shell_result \<times> 'a kernel_scheme) option" where
  "exec_program cpu fd s = do {
     s1 \<leftarrow> kprintf (bytes ''fd: %d'' @ [10]) (stack_words [fd]) s;
     let jumpto = of_address (cmem s1) (file_entry s1 fd);
     let gdt = load32 (cmem s1) GDT_ADDRESS;
     let tss = (ucast (load16 (cmem s1) (gdt + 0x2A)) :: u32);
     let s2 = poke (tss + 4) (cpu_esp cpu) s1;
     let s3 = s2\<lparr>user_stack := user_stack s2 + PAGE_SIZE\<rparr>;
     (phys, s4) \<leftarrow> with_heap (allocate_blocks 1) s3;
     (r, s5) \<leftarrow> with_heap (\<lambda>h. map_address (directory h) phys (user_stack s4) (PTE_PRESENT OR PTE_WRITABLE OR PTE_USER) h) s4;
     s6 \<leftarrow> kprintf (bytes ''user stack: %x'' @ [10]) (stack_words [user_stack s5]) s5;
     s7 \<leftarrow> kprintf (bytes ''stack: %x'' @ [10]) (stack_words [cpu_esp cpu]) s6;
     s8 \<leftarrow> kprintf (bytes ''address: 0x%x'' @ [10]) (stack_words [jumpto]) s7;
     Some (User_mode jumpto USER_STACK fd, s8)
   }"

definition help_text :: "string list" where
  "help_text =
     [''List of commands:'', ''\"printmem\" - prints out physical memory map'',
      ''\"ls\" - allows you to look through a directory'',
      ''\"exec\" - allows you to execute a raw bin file (NO .ELF SUPPORT YET)'',
      ''\"touch\" - allows you to create a new file (NOT A DIRECTORY)'', ''\"exit\" - shuts down'',
      ''\"cat\" - reads a file (.txt only)'', ''\"editfile\" - edits a file'', ''\"printregisters\" - edits a file'']"

primrec say_all :: "string list \<Rightarrow> 'a console_scheme \<Rightarrow> 'a console_scheme option" where
  "say_all [] s = Some s"
| "say_all (t # ts) s = Option.bind (say t s) (say_all ts)"

definition continue :: "device list list \<Rightarrow> 's option \<Rightarrow> (shell_result \<times> device list list \<times> 's) option" where
  "continue inputs r = map_option (\<lambda>s. (Continue, inputs, s)) r"

definition run_command ::
    "cpu \<Rightarrow> symbols \<Rightarrow> shell_command option \<Rightarrow> device list list \<Rightarrow> 'a kernel_scheme \<Rightarrow>
     (shell_result \<times> device list list \<times> 'a kernel_scheme) option" where
  "run_command cpu syms c inputs s =
     (let dev = cpu_device cpu; line = line_symbol syms;
          open_file = open_call dev (cpu_local cpu) (cpu_edx cpu) line O_RDWR
      in case c of
        None \<Rightarrow> continue inputs (say ''Command not found'' s)
      | Some Printmem \<Rightarrow> continue inputs (print_memmap_command (kheap s) s)
      | Some Ls \<Rightarrow> do {
          (ins, s1) \<leftarrow> ask ''Enter directory pathway to read:'' syms inputs s;
          continue ins (map_option snd (print_dir dev line s1))
        }
      | Some Exit \<Rightarrow> do {
          s1 \<leftarrow> say ''Shutting down...'' s;
          continue inputs (Some (outw 0x604 0x2000 s1))
        }
      | Some Clear \<Rightarrow> continue inputs (Some (clrscr s))
      | Some Exec \<Rightarrow> do {
          (ins, s1) \<leftarrow> ask ''Enter the filepath of the file you wish to execute:'' syms inputs s;
          (fd, s2) \<leftarrow> open_file s1;
          if fd <s 0 then continue ins (say ''Invalid filepath'' s2)
          else map_option (\<lambda>(r, s3). (r, ins, s3)) (exec_program cpu fd s2)
        }
      | Some Help \<Rightarrow> continue inputs (say_all help_text s)
      | Some Touch \<Rightarrow> do {
          (ins, s1) \<leftarrow> ask ''Enter filepath of new file you wish to make:'' syms inputs s;
          continue ins (map_option snd (create_file dev line s1))
        }
      | Some Cat \<Rightarrow> do {
          (ins, s1) \<leftarrow> ask ''Enter filepath of file you wish to read:'' syms inputs s;
          (fd, s2) \<leftarrow> open_file s1;
          if fd <s 0 then continue ins (say ''Invalid filepath'' s2)
          else do {
            (n, s3) \<leftarrow> read_call dev (cpu_local cpu) fd line 4096 s2;
            s4 \<leftarrow> kprintf (bytes ''%s'' @ [10]) (stack_words [line]) s3;
            continue ins (map_option snd (close_call dev (cpu_local cpu) fd s4))
          }
        }
      | Some Editfile \<Rightarrow> do {
          (ins, s1) \<leftarrow> ask ''Enter filepath of file you wish to edit:'' syms inputs s;
          (fd, s2) \<leftarrow> open_file s1;
          if fd <s 0 then continue ins (Some s2)
          else do {
            (ins2, s3) \<leftarrow> ask (''Enter what you'' @ [CHR 0x27] @ ''d like to edit the file to:'') syms ins s2;
            (n, s4) \<leftarrow> write_call dev (cpu_local cpu) fd line 4096 s3;
            s5 \<leftarrow> say ''Done'' s4;
            continue ins2 (map_option snd (close_call dev (cpu_local cpu) fd s5))
          }
        }
      | Some Printregisters \<Rightarrow> continue inputs (map_option snd (print_registers (cpu_registers cpu) s)))"

definition shell_step ::
    "cpu \<Rightarrow> symbols \<Rightarrow> device list list \<Rightarrow> 'a kernel_scheme \<Rightarrow> (shell_result \<times> device list list \<times> 'a kernel_scheme) option" where
  "shell_step cpu syms inputs s = do {
     s1 \<leftarrow> kprintf [62] (stack_words []) s;
     (ins, s2) \<leftarrow> read_line syms inputs s1;
     c \<leftarrow> find_command syms command_table (cmem s2);
     run_command cpu syms c ins s2
   }"

partial_function (option) shell_loop ::
    "cpu \<Rightarrow> symbols \<Rightarrow> device list list \<Rightarrow> 'a kernel_scheme \<Rightarrow> (shell_result \<times> 'a kernel_scheme) option" where
  "shell_loop cpu syms inputs s =
     (if inputs = [] then Some (Waiting, s)
      else Option.bind (shell_step cpu syms inputs s) (\<lambda>(r, ins, s1).
        case r of Continue \<Rightarrow> shell_loop cpu syms ins s1 | _ \<Rightarrow> Some (r, s1)))"

definition banner_edge :: string where "banner_edge = replicate 80 (CHR ''-'')"

definition shell ::
    "cpu \<Rightarrow> symbols \<Rightarrow> bool \<Rightarrow> device list list \<Rightarrow> 'a kernel_scheme \<Rightarrow> (shell_result \<times> 'a kernel_scheme) option" where
  "shell cpu syms returning inputs s = do {
     s1 \<leftarrow> (if returning then Some s
            else do {
              t1 \<leftarrow> kprintf (bytes banner_edge) (stack_words []) s;
              t2 \<leftarrow> kprintf (bytes ''|                               Welcome To ABOS                                |'') (stack_words []) t1;
              t3 \<leftarrow> say banner_edge t2;
              t4 \<leftarrow> say ''This is currently an unfinished hobby OS. I plan on working on it in the future'' t3;
              say ''Type \"help\" to get a list of commands.'' t4
            });
     shell_loop cpu syms inputs s1
   }"

end
