(* ===== verification/ShellRun.thy ===== *)
theory ShellRun
  imports Shell OpenFiles
begin

text \<open>
  From the keys that are typed to the command that the shell runs.
\<close>

section \<open>Input keeps the memory\<close>

definition typing_kept :: "'a keyboard_scheme \<Rightarrow> 'a keyboard_scheme \<Rightarrow> bool" where
  "typing_kept s s' \<longleftrightarrow> screen_ok s' \<and> (\<forall>x. \<not> in_vga x \<longrightarrow> cmem s' x = cmem s x)"

lemma typing_kept_trans: "typing_kept s t \<Longrightarrow> typing_kept t u \<Longrightarrow> typing_kept s u"
  by (simp add: typing_kept_def)

lemma typing_kept_putc: "screen_ok s \<Longrightarrow> typing_kept s (putc c s)"
  using printed_putc [of s c] by (auto simp: typing_kept_def printed_def outside_kept_def)

lemma typing_kept_update:
  assumes "cmem t = cmem s" "g_ScreenX t = g_ScreenX s" "g_ScreenY t = g_ScreenY s" "screen_ok s"
  shows "typing_kept s t"
  using assms by (simp add: typing_kept_def screen_ok_def)

lemma typing_kept_cong:
  assumes "typing_kept t u" "cmem t = cmem s"
  shows "typing_kept s u"
  using assms by (simp add: typing_kept_def)

lemma typing_kept_after:
  assumes "typing_kept s t" "cmem u = cmem t" "g_ScreenX u = g_ScreenX t" "g_ScreenY u = g_ScreenY t"
  shows "typing_kept s u"
  using assms by (simp add: typing_kept_def screen_ok_def)

lemma key_input_kept:
  assumes "key_input c s = Some s'" and "screen_ok s"
  shows "typing_kept s s'"
proof -
  have put: "typing_kept s (putc d t)" if "cmem t = cmem s" "g_ScreenX t = g_ScreenX s" "g_ScreenY t = g_ScreenY s"
    for d and t :: "'a keyboard_scheme"
    using typing_kept_cong [OF typing_kept_putc that(1)] assms(2) that by (simp add: screen_ok_def)
  show ?thesis
  proof (cases "c = 8")
    case True
    then show ?thesis using assms put
      by (auto simp: key_input_def kprintf_char Let_def typing_kept_update split: if_splits)
  next
    case False
    show ?thesis
    proof (cases "c = 10")
      case True
      then have "s' = (putc 10 (s\<lparr>input_ready := True\<rparr>))\<lparr>input_pos := 0\<rparr>"
        using assms(1) by (auto simp: key_input_def kprintf_char)
      then show ?thesis using typing_kept_after [OF put [of "s\<lparr>input_ready := True\<rparr>" 10]] by simp
    next
      case n: False
      then show ?thesis using assms put False by (auto simp: key_input_def kprintf_char Let_def)
    qed
  qed
qed

lemma update_modifiers_screen:
  "cmem (update_modifiers k s) = cmem s" "g_ScreenX (update_modifiers k s) = g_ScreenX s"
  "g_ScreenY (update_modifiers k s) = g_ScreenY s"
  by (simp_all add: update_modifiers_def)

lemma handle_key_kept:
  assumes "handle_key key s = Some s'" and "screen_ok s"
  shows "typing_kept s s'"
proof -
  let ?s1 = "update_modifiers key s"
  have ok: "screen_ok ?s1" and same: "typing_kept s ?s1"
    using assms(2) by (simp_all add: screen_ok_def typing_kept_def update_modifiers_screen)
  have after: "typing_kept s (t\<lparr>key_e0 := False\<rparr>) \<longleftrightarrow> typing_kept s t" for t
    by (simp add: typing_kept_def screen_ok_def)
  have input: "typing_kept s t" if "key_input c ?s1 = Some t" for c t
    using typing_kept_cong [OF key_input_kept [OF that ok]] by (simp add: update_modifiers_screen)
  show ?thesis
    using assms same input typing_kept_update [of s s]
    by (auto simp: handle_key_def Let_def after split: if_splits)
qed

lemma keyboard_handler_kept:
  assumes "keyboard_handler dev s = Some s'" and "screen_ok s"
  shows "typing_kept s s'"
proof -
  obtain t where t: "handle_key (fst (inb dev 0x60 s)) (snd (inb dev 0x60 s)) = Some t" "s' = PIC_sendEOI 1 t"
    using assms(1) by (auto simp: keyboard_handler_def split: prod.splits)
  have "screen_ok (snd (inb dev 0x60 s))" "cmem (snd (inb dev 0x60 s)) = cmem s"
    using assms(2) by (simp_all add: inb_def screen_ok_def)
  then have "typing_kept s t" using typing_kept_cong [OF handle_key_kept [OF t(1)]] by simp
  then show ?thesis unfolding t(2) by (rule typing_kept_after; subst PIC_sendEOI_log; simp)
qed

lemma readline_wait_kept: "readline_wait es s = Some s' \<Longrightarrow> screen_ok s \<Longrightarrow> typing_kept s s'"
proof (induction es arbitrary: s)
  case (Cons e es)
  show ?case
  proof (cases "input_ready s")
    case False
    then obtain t where t: "keyboard_handler e s = Some t" "readline_wait es t = Some s'"
      using Cons.prems(1) by (auto simp: bind_eq_Some_conv)
    have "typing_kept s t" using keyboard_handler_kept [OF t(1) Cons.prems(2)] .
    moreover from this have "screen_ok t" by (simp add: typing_kept_def)
    ultimately show ?thesis using Cons.IH [OF t(2)] typing_kept_trans by blast
  qed (use Cons.prems in \<open>simp add: typing_kept_update\<close>)
qed (simp add: typing_kept_update split: if_splits)

section \<open>Typed lines\<close>

lemma edit_no_zero: "0 \<notin> set l \<Longrightarrow> c \<noteq> Some 0 \<Longrightarrow> 0 \<notin> set (edit_option c l)"
  by (cases c) (auto simp: edit_def dest: in_set_butlastD)

lemma typed_no_zero: "typed k m \<noteq> Some 0"
  by (simp add: typed_def Let_def)

lemma editor_no_zero: "0 \<notin> set l \<Longrightarrow> 0 \<notin> set (editor ks m l)"
proof (induction ks arbitrary: m l)
  case (Cons k ks)
  show ?case using Cons.IH [OF edit_no_zero [OF Cons.prems typed_no_zero]] by simp
qed simp

lemma length_editor: "length (editor ks m l) \<le> length ks + length l"
proof (induction ks arbitrary: m l)
  case (Cons k ks)
  show ?case using Cons.IH [of "mods_step k m" "edit_option (typed k m) l"] length_edit_option [of "typed k m" l] by simp
qed simp

lemma cstr_at_line:
  "0 \<notin> set l \<Longrightarrow> (\<And>i. i < length l \<Longrightarrow> m (p + of_nat i) = l ! i) \<Longrightarrow> m (p + of_nat (length l)) = 0 \<Longrightarrow> cstr_at m p l"
  by (rule cstr_at_list) (metis nth_mem)+

section \<open>The command that runs\<close>

text \<open>The literals of the command names lie in memory, outside the screen and the line buffer.\<close>

definition literals_ok :: "symbols \<Rightarrow> memory \<Rightarrow> bool" where
  "literals_ok syms m \<longleftrightarrow>
     (\<forall>c \<in> set command_table. cstr_at m (literal_symbol syms (fst c)) (bytes (fst c)) \<and>
        (\<forall>i \<le> length (fst c). \<not> in_vga (literal_symbol syms (fst c) + of_nat i) \<and>
           256 \<le> unat (literal_symbol syms (fst c) + of_nat i - line_symbol syms)))"

definition command_of :: "u8 list \<Rightarrow> shell_command option" where
  "command_of l = map_of (map (\<lambda>c. (bytes (fst c), snd c)) command_table) l"

lemma find_command_lookup:
  assumes "cstr_at m (line_symbol syms) l"
    and "\<forall>c \<in> set cs. cstr_at m (literal_symbol syms (fst c)) (bytes (fst c))"
  shows "find_command syms cs m = Some (map_of (map (\<lambda>c. (bytes (fst c), snd c)) cs) l)"
  using assms(2)
proof (induction cs)
  case (Cons c cs)
  obtain r where "strcmp m (line_symbol syms) (literal_symbol syms (fst c)) = Some r" "r = 0 \<longleftrightarrow> l = bytes (fst c)"
    using strcmp_cstr [OF assms(1)] Cons.prems by fastforce
  then show ?case using Cons by auto
qed simp

lemma read_line_typed:
  fixes s :: "'a kernel_scheme"
  defines "line \<equiv> \<lambda>ks. editor ks (mods_of s) []"
  assumes "screen_ok s" and "\<not> key_e0 s" and "length ks < 255" and "no_enter ks (mods_of s)"
    and "typed e (foldl (\<lambda>m k. mods_step k m) (mods_of s) ks) = Some 10"
  shows "\<exists>s'. read_line syms (map key_device (ks @ [e]) # inputs) s = Some (inputs, s') \<and>
    cstr_at (cmem s') (line_symbol syms) (line ks) \<and>
    (\<forall>x. \<not> in_vga x \<and> 256 \<le> unat (x - line_symbol syms) \<longrightarrow> cmem s' x = cmem s x)"
proof -
  have start: "kbd_ok (readline_start s)" "\<not> input_ready (readline_start s)"
    "unat (input_pos (readline_start s)) + length ks < 255" "mods_of (readline_start s) = mods_of s"
    "line_of (readline_start s) = []"
    using assms(2-4) by (simp_all add: readline_start_def kbd_ok_def screen_ok_def mods_of_def line_of_def)
  obtain s2 where s2: "readline (map key_device (ks @ [e])) s = Some s2"
    "map (input_buffer s2) [0..<length (line ks)] = line ks" "input_buffer s2 (length (line ks)) = 0"
    using readline_wait_line [of "readline_start s" ks e] start assms(5,6) by (auto simp: readline_def line_def)
  have "typing_kept (readline_start s) s2"
    using readline_wait_kept [of "map key_device (ks @ [e])" "readline_start s" s2] s2(1) start(1)
    by (simp add: readline_def kbd_ok_def)
  then have k2: "typing_kept s s2" by (rule typing_kept_cong) (simp add: readline_start_def)
  define s3 where "s3 = s2\<lparr>cmem := put_bytes (line_symbol syms) INPUT_BUFFER_SIZE (input_buffer s2) (cmem s2)\<rparr>"
  have len: "length (line ks) < 255" using length_editor [of ks "mods_of s" "[]"] assms(4) by (simp add: line_def)
  have buf: "cmem s3 (line_symbol syms + of_nat i) = input_buffer s2 i" if "i < 256" for i
    using that by (simp add: s3_def put_bytes_at INPUT_BUFFER_SIZE_def)
  have "cstr_at (cmem s3) (line_symbol syms) (line ks)"
  proof (rule cstr_at_line)
    show "0 \<notin> set (line ks)" using editor_no_zero [of "[]"] by (simp add: line_def)
    show "cmem s3 (line_symbol syms + of_nat i) = line ks ! i" if "i < length (line ks)" for i
    proof -
      have "input_buffer s2 i = map (input_buffer s2) [0..<length (line ks)] ! i" using that by simp
      then show ?thesis using buf [of i] that len unfolding s2(2) by simp
    qed
    show "cmem s3 (line_symbol syms + of_nat (length (line ks))) = 0" using buf [of "length (line ks)"] len s2(3) by simp
  qed
  moreover have "cmem s3 x = cmem s x" if "\<not> in_vga x" "256 \<le> unat (x - line_symbol syms)" for x
    using that k2 by (simp add: s3_def put_bytes_def INPUT_BUFFER_SIZE_def typing_kept_def)
  moreover have "read_line syms (map key_device (ks @ [e]) # inputs) s = Some (inputs, s3)"
    unfolding read_line.simps s2(1) by (simp add: s3_def)
  ultimately show ?thesis by blast
qed

text \<open>
  C37. One round of the shell, from the keys to the command: with fewer than 255 key events
  before the one that completes the line, the shell prompts, reads the line, and runs exactly
  the command whose name is the line that the editor makes of those events, or reports that
  there is none; the line is in the buffer, and apart from the buffer and the screen the
  memory is as before.
\<close>

theorem shell_runs_typed_command:
  fixes s :: "'a kernel_scheme"
  defines "line \<equiv> \<lambda>ks. editor ks (mods_of s) []"
  assumes "screen_ok s" and "\<not> key_e0 s" and "length ks < 255" and "no_enter ks (mods_of s)"
    and "typed e (foldl (\<lambda>m k. mods_step k m) (mods_of s) ks) = Some 10" and lits: "literals_ok syms (cmem s)"
  shows "\<exists>s'. shell_step cpu syms (map key_device (ks @ [e]) # inputs) s =
      run_command cpu syms (command_of (line ks)) inputs s' \<and>
    cstr_at (cmem s') (line_symbol syms) (line ks) \<and>
    (\<forall>x. \<not> in_vga x \<and> 256 \<le> unat (x - line_symbol syms) \<longrightarrow> cmem s' x = cmem s x)"
proof -
  define s1 where "s1 = putc 62 s"
  have more: "console.more s1 = console.more s" using putc_more [OF assms(2)] by (simp add: s1_def)
  have k1: "typing_kept s s1" using typing_kept_putc [OF assms(2)] by (simp add: s1_def)
  have "\<not> key_e0 s1" "mods_of s1 = mods_of s" "screen_ok s1"
    using keyboard_more [OF more] assms(3) k1 by (simp_all add: mods_of_def typing_kept_def)
  then obtain s3 where read: "read_line syms (map key_device (ks @ [e]) # inputs) s1 = Some (inputs, s3)"
    and str: "cstr_at (cmem s3) (line_symbol syms) (line ks)"
    and mem: "\<forall>x. \<not> in_vga x \<and> 256 \<le> unat (x - line_symbol syms) \<longrightarrow> cmem s3 x = cmem s1 x"
    using read_line_typed [of s1 ks e syms inputs] assms(4-6) unfolding line_def by auto
  have kept: "cmem s3 x = cmem s x" if "\<not> in_vga x" "256 \<le> unat (x - line_symbol syms)" for x
    using that mem k1 by (simp add: typing_kept_def)
  have "cstr_at (cmem s3) (literal_symbol syms (fst c)) (bytes (fst c))" if "c \<in> set command_table" for c
  proof -
    have "cstr_at (cmem s3) (literal_symbol syms (fst c)) (bytes (fst c)) \<longleftrightarrow>
        cstr_at (cmem s) (literal_symbol syms (fst c)) (bytes (fst c))"
      using lits that kept by (intro cstr_at_cong) (simp add: literals_ok_def bytes_def)
    then show ?thesis using lits that by (simp add: literals_ok_def)
  qed
  then have "find_command syms command_table (cmem s3) = Some (command_of (line ks))"
    using find_command_lookup [OF str, of command_table] by (simp add: command_of_def)
  moreover note read
  ultimately have "shell_step cpu syms (map key_device (ks @ [e]) # inputs) s = run_command cpu syms (command_of (line ks)) inputs s3"
    using kprintf_char(1) [of 62 "stack_words []" s] by (simp add: shell_step_def s1_def [symmetric] del: read_line.simps map_append)
  then show ?thesis using str kept by blast
qed

section \<open>A concrete machine\<close>

definition literal_index :: "string \<Rightarrow> nat" where
  "literal_index n = length (takeWhile (\<lambda>c. fst c \<noteq> n) command_table)"

definition example_symbols :: symbols where
  "example_symbols = \<lparr>root_inode_symbol = 0, idt_symbol = 0, isr_stubs = \<lambda>v. 0x100 * of_nat v, div_by_0_symbol = 0x1000,
     PIT_symbol = 0x2000, keyboard_symbol = 0x3000, page_fault_symbol = 0x4000, syscall_symbol = 0x5000,
     gpf_symbol = 0x6000, line_symbol = 0x50000, literal_symbol = \<lambda>n. 0x60000 + 32 * of_nat (literal_index n)\<rparr>"

text \<open>Each literal has 32 bytes from 0x60000 on.\<close>

definition example_literals :: memory where
  "example_literals a =
     (let k = unat (a - 0x60000)
      in if k < 320 then (bytes (fst (command_table ! (k div 32))) @ replicate 32 0) ! (k mod 32) else 0)"

definition example_shell :: kernel where
  "example_shell = example_kernel\<lparr>cmem := example_literals\<rparr>"

lemma example_literal_at:
  assumes "k < 10" and "i < 32"
  shows "example_literals (0x60000 + 32 * of_nat k + of_nat i) = (bytes (fst (command_table ! k)) @ replicate 32 0) ! i"
proof -
  have "0x60000 + 32 * of_nat k + of_nat i - 0x60000 = (of_nat (32 * k + i) :: u32)" by simp
  then have u: "unat (0x60000 + 32 * of_nat k + of_nat i - 0x60000 :: u32) = 32 * k + i"
    using assms by (simp only: unat_of_nat32)
  have "32 * k + i < 320" "(32 * k + i) div 32 = k" "(32 * k + i) mod 32 = i" using assms by simp_all
  then show ?thesis unfolding example_literals_def u by (simp only: Let_def if_True)
qed

lemma example_literals_ok: "literals_ok example_symbols example_literals"
proof -
  have one: "cstr_at example_literals (0x60000 + 32 * of_nat k) (bytes n) \<and>
      (\<forall>i \<le> length n. \<not> in_vga (0x60000 + 32 * of_nat k + of_nat i) \<and> 256 \<le> unat (0x60000 + 32 * of_nat k + of_nat i - (0x50000 :: u32)))"
    if k: "k < 10" and n: "n = fst (command_table ! k)" "length n < 31" "0 \<notin> set (bytes n)" for k n
  proof (intro conjI allI impI)
    have len: "length (bytes n) = length n" by (simp add: bytes_def)
    show "cstr_at example_literals (0x60000 + 32 * of_nat k) (bytes n)"
      using example_literal_at [OF k] n len by (intro cstr_at_line) (simp_all add: nth_append)
    fix i assume "i \<le> length n"
    then have i: "i < 32" using n(2) by simp
    have "0x60000 + 32 * of_nat k + of_nat i = (of_nat (0x60000 + 32 * k + i) :: u32)" by simp
    then have u: "unat (0x60000 + 32 * of_nat k + of_nat i :: u32) = 0x60000 + 32 * k + i"
      using k i by (simp only: unat_of_nat32)
    have "0x60000 + 32 * of_nat k + of_nat i - 0x50000 = (of_nat (0x10000 + 32 * k + i) :: u32)" by simp
    then have v: "unat (0x60000 + 32 * of_nat k + of_nat i - 0x50000 :: u32) = 0x10000 + 32 * k + i"
      using k i by (simp only: unat_of_nat32)
    show "256 \<le> unat (0x60000 + 32 * of_nat k + of_nat i - 0x50000 :: u32)" unfolding v by simp
    show "\<not> in_vga (0x60000 + 32 * of_nat k + of_nat i)"
      using u k i by (simp add: in_vga_def word_le_nat_alt word_less_nat_alt)
  qed
  have table: "\<forall>c \<in> set command_table. literal_index (fst c) < 10 \<and> fst c = fst (command_table ! literal_index (fst c)) \<and>
      length (fst c) < 31 \<and> 0 \<notin> set (bytes (fst c))"
    by (simp add: command_table_def literal_index_def bytes_def of_char_def)
  show ?thesis
    unfolding literals_ok_def
  proof
    fix c assume "c \<in> set command_table"
    then show "cstr_at example_literals (literal_symbol example_symbols (fst c)) (bytes (fst c)) \<and>
        (\<forall>i \<le> length (fst c). \<not> in_vga (literal_symbol example_symbols (fst c) + of_nat i) \<and>
           256 \<le> unat (literal_symbol example_symbols (fst c) + of_nat i - line_symbol example_symbols))"
      using table one [of "literal_index (fst c)" "fst c"] by (simp add: example_symbols_def)
  qed
qed

definition example_cpu :: cpu where
  "example_cpu = \<lparr>cpu_device = example_ata example_disk_drive, cpu_local = \<lparr>left_offset = 0, left_eax = 0, left_ecx = 0\<rparr>, cpu_edx = 0, cpu_esp = 0x9000,
     cpu_registers = replicate 10 0\<rparr>"

text \<open>The keys l, s and enter.\<close>

theorem shell_runs_typed_command_witness:
  "\<exists>s'. shell_step example_cpu example_symbols [map key_device ([0x26, 0x1F] @ [0x1C])] example_shell =
     run_command example_cpu example_symbols (Some Ls) [] s' \<and> cstr_at (cmem s') 0x50000 [108, 115]"
proof -
  have ks: "editor [0x26, 0x1F] (False, False) [] = [108, 115]" "no_enter [0x26, 0x1F] (False, False)"
    "typed 0x1C (foldl (\<lambda>m k. mods_step k m) (False, False) [0x26, 0x1F]) = Some 10"
    "command_of [108, 115] = Some Ls"
    by code_simp+
  have s: "screen_ok example_shell" "\<not> key_e0 example_shell" "mods_of example_shell = (False, False)"
    by (simp_all add: example_shell_def screen_ok_def on_screen_def mods_of_def example_kernel_def fs.extend_def
        kernel.fields_def example_fs_def)
  have lits: "literals_ok example_symbols (cmem example_shell)" using example_literals_ok by (simp add: example_shell_def)
  have line: "line_symbol example_symbols = 0x50000" by (simp add: example_symbols_def)
  show ?thesis
    using shell_runs_typed_command [OF s(1,2) _ _ _ lits, of "[0x26, 0x1F]" "0x1C" example_cpu "[]"] ks
    by (auto simp: s(3) line simp del: map_append)
qed

end
