(* ===== verification/Printlite.thy ===== *)
theory Printlite
  imports Memory CString
begin

text \<open>
  The first console of the kernel, \<^verbatim>\<open>kernel/printlite.c\<close>, which the prekernel still links: an own
  cursor over the same screen memory, no line wrap, no scrolling and no hardware cursor. What
  is proved is where a string goes, on the screen or behind it.
\<close>

section \<open>Operations\<close>

record printer =
  screen_mem :: memory
  screenX :: int
  screenY :: int

definition WIDTH :: u32 where "WIDTH = 80"
definition HEIGHT :: u32 where "HEIGHT = 25"
definition DEFAULT_COLOR_lite :: u8 where "DEFAULT_COLOR_lite = 7"

text \<open>The address of \<^verbatim>\<open>screenBuffer[2 * (y * WIDTH + x)]\<close>; the product is unsigned.\<close>

definition screenBuffer :: "int \<Rightarrow> int \<Rightarrow> u32" where
  "screenBuffer x y = 0xB8000 + 2 * (of_int y * WIDTH + of_int x)"

definition printchar :: "int \<Rightarrow> int \<Rightarrow> u8 \<Rightarrow> 'a printer_scheme \<Rightarrow> 'a printer_scheme" where
  "printchar x y c s = s\<lparr>screen_mem := (screen_mem s)(screenBuffer x y := c)\<rparr>"

definition colorassign :: "int \<Rightarrow> int \<Rightarrow> u8 \<Rightarrow> 'a printer_scheme \<Rightarrow> 'a printer_scheme" where
  "colorassign x y color s = s\<lparr>screen_mem := (screen_mem s)(screenBuffer x y + 1 := color)\<rparr>"

definition clear :: "'a printer_scheme \<Rightarrow> 'a printer_scheme" where
  "clear s =
     (let s1 = fold (\<lambda>y. fold (\<lambda>x s. colorassign x y DEFAULT_COLOR_lite (printchar x y 0 s)) (map int [0..<unat WIDTH]))
                 (map int [0..<unat HEIGHT]) s
      in s1\<lparr>screenX := 0, screenY := 0\<rparr>)"

definition printC :: "u8 \<Rightarrow> 'a printer_scheme \<Rightarrow> 'a printer_scheme" where
  "printC c s =
     (if c = 10 then s\<lparr>screenX := 0, screenY := screenY s + 1\<rparr>
      else let s1 = printchar (screenX s) (screenY s) c s in s1\<lparr>screenX := screenX s1 + 1\<rparr>)"

partial_function (option) printS :: "u32 \<Rightarrow> 'a printer_scheme \<Rightarrow> 'a printer_scheme option" where
  "printS str s = (if screen_mem s str \<noteq> 0 then printS (str + 1) (printC (screen_mem s str) s) else Some s)"

section \<open>Where a string goes\<close>

text \<open>The position of the cursor counted in cells from the start of the screen.\<close>

definition offset :: "'a printer_scheme \<Rightarrow> int" where
  "offset s = screenY s * 80 + screenX s"

lemma unat_screenBuffer:
  assumes "0 \<le> offset s" and "offset s < 2 ^ 20"
  shows "unat (screenBuffer (screenX s) (screenY s)) = 0xB8000 + 2 * nat (offset s)"
proof -
  have "screenBuffer (screenX s) (screenY s) = of_nat (0xB8000 + 2 * nat (offset s))"
    using assms(1) by (simp add: screenBuffer_def WIDTH_def offset_def)
  moreover have "0xB8000 + 2 * nat (offset s) < 4294967296" using assms(2) by (simp add: nat_less_iff)
  ultimately show ?thesis by (metis unat_of_nat32)
qed

lemma printC_char:
  assumes "c \<noteq> 10"
  shows "offset (printC c s) = offset s + 1" and "screenY (printC c s) = screenY s"
    and "screenX (printC c s) = screenX s + 1"
    and "screen_mem (printC c s) = (screen_mem s)(screenBuffer (screenX s) (screenY s) := c)"
    and "printer.more (printC c s) = printer.more s"
  using assms by (simp_all add: printC_def printchar_def offset_def Let_def)

text \<open>
  The memory behind the printer after a text without newlines: one byte per cell, starting at
  the cursor.
\<close>

definition typed_cells :: "memory \<Rightarrow> nat \<Rightarrow> u8 list \<Rightarrow> memory" where
  "typed_cells m at str a =
     (if 0xB8000 + 2 * at \<le> unat a \<and> unat a < 0xB8000 + 2 * (at + length str) \<and> even (unat a)
      then str ! ((unat a - 0xB8000) div 2 - at) else m a)"

lemma typed_cells_Nil [simp]: "typed_cells m at [] = m"
  by (rule ext) (auto simp: typed_cells_def)

lemma typed_cells_Cons:
  assumes "unat b = 0xB8000 + 2 * at"
  shows "typed_cells (m(b := c)) (Suc at) cs = typed_cells m at (c # cs)"
proof
  fix a :: u32
  have eq: "a = b \<longleftrightarrow> unat a = 0xB8000 + 2 * at" using assms by (simp add: word_unat_eq_iff)
  have e: "(unat a - 0xB8000) div 2 = k" if "unat a = 0xB8000 + 2 * k" for k using that by simp
  show "typed_cells (m(b := c)) (Suc at) cs a = typed_cells m at (c # cs) a"
  proof (cases "a = b")
    case True
    then show ?thesis using eq e [of at] by (simp add: typed_cells_def)
  next
    case False
    show ?thesis
    proof (cases "0xB8000 + 2 * at \<le> unat a \<and> unat a < 0xB8000 + 2 * (at + length (c # cs)) \<and> even (unat a)")
      case True
      then obtain k where k: "unat a = 0xB8000 + 2 * k"
        by (metis dvd_add_right_iff even_numeral le_add_diff_inverse evenE le_trans le_add1 dvd_add_times_triv_left_iff)
      then have "at < k" "k < at + length (c # cs)" using True False eq by auto
      then show ?thesis using k e [OF k] False by (simp add: typed_cells_def nth_Cons' Suc_le_eq)
    next
      case False
      then show ?thesis using \<open>a \<noteq> b\<close> eq by (auto simp: typed_cells_def)
    qed
  qed
qed

lemma fold_printC:
  assumes "10 \<notin> set str" and "0 \<le> offset s" and "offset s + int (length str) \<le> 2 ^ 20"
  shows "screen_mem (fold printC str s) = typed_cells (screen_mem s) (nat (offset s)) str \<and>
    screenX (fold printC str s) = screenX s + int (length str) \<and> screenY (fold printC str s) = screenY s"
  using assms
proof (induction str arbitrary: s)
  case (Cons c cs)
  have c: "c \<noteq> 10" using Cons.prems(1) by auto
  note p = printC_char [OF c, of s]
  have "nat (offset s + 1) = Suc (nat (offset s))" using Cons.prems(2) by simp
  moreover have "unat (screenBuffer (screenX s) (screenY s)) = 0xB8000 + 2 * nat (offset s)"
    using Cons.prems by (intro unat_screenBuffer) simp_all
  note t = typed_cells_Cons [OF this, of "screen_mem s" c cs]
  ultimately show ?case using Cons.IH [of "printC c s"] Cons.prems p t [unfolded fun_upd_def] by (simp add: fun_upd_def)
qed simp

lemma printS_fold:
  assumes "10 \<notin> set str" and "0 \<le> offset s" and "offset s + int (length str) \<le> 2 ^ 20"
    and "cstr_at (screen_mem s) p str" and "\<And>i. i \<le> length str \<Longrightarrow> unat (p + of_nat i) < 0xB8000"
  shows "printS p s = Some (fold printC str s)"
  using assms
proof (induction str arbitrary: p s)
  case Nil
  then show ?case by (subst printS.simps) simp
next
  case (Cons c cs)
  have c: "c \<noteq> 10" using Cons.prems(1) by auto
  note pc = printC_char [OF c, of s]
  have low: "unat (p + 1 + of_nat i) < 0xB8000" if "i \<le> length cs" for i
    using Cons.prems(5) [of "Suc i"] that by (simp add: add.assoc)
  have b: "unat (screenBuffer (screenX s) (screenY s)) = 0xB8000 + 2 * nat (offset s)"
    using Cons.prems(2,3) by (intro unat_screenBuffer) simp_all
  have "screen_mem (printC c s) (p + 1 + of_nat i) = screen_mem s (p + 1 + of_nat i)" if "i \<le> length cs" for i
    using low [OF that] b by (auto simp: pc(4))
  then have "cstr_at (screen_mem (printC c s)) (p + 1) cs \<longleftrightarrow> cstr_at (screen_mem s) (p + 1) cs"
    by (intro cstr_at_cong) simp
  then have "cstr_at (screen_mem (printC c s)) (p + 1) cs" using Cons.prems(4) by simp
  then have "printS (p + 1) (printC c s) = Some (fold printC cs (printC c s))"
    using Cons.prems(1,2,3) pc(1) low by (intro Cons.IH) simp_all
  then show ?case using Cons.prems(4) by (subst printS.simps) simp
qed

text \<open>
  \<open>printS\<close> returns for every text without newlines that lies below the screen, having put its
  characters into consecutive cells from the cursor on and changed no other byte. The cells run
  on over the end of the line and, 2000 cells from the start, over the end of the screen.
\<close>

lemma printS_types:
  assumes "cstr_at (screen_mem s) p str" and "10 \<notin> set str"
    and "0 \<le> offset s" and "offset s + int (length str) \<le> 2 ^ 20"
    and "\<And>i. i \<le> length str \<Longrightarrow> unat (p + of_nat i) < 0xB8000"
  shows "\<exists>s'. printS p s = Some s' \<and> screen_mem s' = typed_cells (screen_mem s) (nat (offset s)) str \<and>
    screenX s' = screenX s + int (length str) \<and> screenY s' = screenY s"
  using printS_fold [OF assms(2,3,4,1,5)] fold_printC [OF assms(2,3,4)] by blast

text \<open>With the cursor in the last cell, the second character lands behind the screen.\<close>

lemma printS_types_witness:
  "\<exists>s'. printS 0x1000 \<lparr>screen_mem = (\<lambda>_. 0)(0x1000 := 65, 0x1001 := 66), screenX = 79, screenY = 24\<rparr> = Some s' \<and>
     screen_mem s' 0xB8FA0 = 66"
proof -
  let ?s = "\<lparr>screen_mem = (\<lambda>_. 0)(0x1000 := 65, 0x1001 := 66), screenX = 79, screenY = 24\<rparr>"
  have "unat (0x1000 + of_nat i :: u32) < 0xB8000" if "i \<le> length [65, 66 :: u8]" for i
  proof -
    have "i = 0 \<or> i = 1 \<or> i = 2" using that by auto
    then show ?thesis by auto
  qed
  then have "\<exists>s'. printS 0x1000 ?s = Some s' \<and> screen_mem s' = typed_cells (screen_mem ?s) (nat (offset ?s)) [65, 66] \<and>
      screenX s' = screenX ?s + int (length [65, 66 :: u8]) \<and> screenY s' = screenY ?s"
    by (intro printS_types) (simp_all add: offset_def)
  then show ?thesis by (auto simp: typed_cells_def offset_def)
qed

end
