(* ===== verification/Spec2Isabelle.thy ===== *)
theory Spec2Isabelle
  imports Prelude Pmm Memory CString Vmm Malloc Ports Console Printf Smap Pic Keyboard Exceptions Idt Ata FsLayout Fs FsBits FsLookup FsPath FsFiles FsCreate Syscalls OpenFiles FileCalls FileOpen FormatDisk FormatImage Boot StartUp Shell ShellRun Printlite
begin

text \<open>
  abOS is a 32-bit operating system in C for one processor in protected mode. A boot loader
  starts \<^verbatim>\<open>kernel/prekernel.c\<close>, which sets up physical memory and paging and jumps to
  \<^verbatim>\<open>kernel/kernel.c\<close>. That program sets up interrupts, the heap, the console and the disk, and
  runs a shell; user programs reach it through one software interrupt. The disk image is built on
  the host by \<^verbatim>\<open>format_disk.c\<close>. This development models these three programs, function by
  function under the names of the code. File names are below \<^verbatim>\<open>src/\<close>.

  \<^bold>\<open>The parts and their theories.\<close>

  \<^item> \<open>Prelude\<close>: machine integers, words and bits, and the interface \<open>bitmap\<close>.

  \<^item> \<open>Pmm\<close>: \<^verbatim>\<open>kernel/memory/physical_memory_manager.c\<close>, the bitmap of 4 KB blocks. The record
    \<open>pmm\<close> holds its three globals. Proved: the three nested loops find the first run of free
    blocks (\<open>first_fit\<close>); allocation marks that run and nothing else, keeps \<open>used_blocks\<close> equal to
    the number of marked blocks, and is undone by freeing.

  \<^item> \<open>Memory\<close> and \<open>CString\<close>: memory as bytes under 32-bit addresses, little-endian
    words, and \<^verbatim>\<open>kernel/util/string.c\<close>. Proved: copying and filling are the list operations away
    from overlaps; \<open>strcmp\<close> is the lexicographic comparison.

  \<^item> \<open>Vmm\<close>: \<^verbatim>\<open>kernel/memory/virtual_memory_manager.c\<close> and its header, over \<open>vmm = pmm +\<close> memory,
    the current directory and the control registers. The specification is \<open>walk\<close>, the processor's
    translation. Proved: mapping an address makes \<open>walk\<close> yield the frame and keeps all other
    translations when the page table exists; when it is made, what every address translates to,
    which for the first entries of the table is what the memory held before; the first 4 MB and the
    kernel's window after \<open>initialize_vmm\<close>; every operation returns; and that \<open>free_page\<close> releases a
    wrong block.

  \<^item> \<open>Malloc\<close>: \<^verbatim>\<open>kernel/memory/malloc.c\<close>, over \<open>heap = vmm +\<close> its globals. The abstract heap is a list
    of blocks; \<open>heap_chain\<close> relates it to the linked list in memory. Proved: \<open>malloc_next\<close> takes the
    first free block that is large enough, splitting it, and otherwise grows the heap; and
    the merging of free neighbours.

  \<^item> \<open>Ports\<close>: \<^verbatim>\<open>kernel/x86.h\<close>, \<^verbatim>\<open>kernel/x86.s\<close>, the log of port accesses.

  \<^item> \<open>Console\<close>, \<open>Printf\<close>, \<open>Smap\<close>: \<^verbatim>\<open>kernel/stdio.c\<close> over \<open>console = ports +\<close> memory and cursor, with the
    64-bit division of \<^verbatim>\<open>kernel/x86.s\<close>. Proved: \<open>putc\<close> refines an abstract terminal of 25
    lines that scrolls; \<open>printf_number\<close> prints the digits of the number in its base;
    \<open>kprintf\<close> prints a format piece by piece, taking the right arguments; what printing the
    memory map releases.

  \<^item> \<open>Pic\<close>, \<open>Idt\<close>, \<open>Exceptions\<close>: \<^verbatim>\<open>kernel/interrupts/pic.c\<close>, \<^verbatim>\<open>idt.c\<close> and the handlers of
    \<^verbatim>\<open>exceptions.c\<close>. Proved: after \<open>PIC_remap\<close> the two chips have the new vector bases and their
    old masks; where each of the 256 gates leads; what a page fault maps, with and without a page table and a
    free block.

  \<^item> \<open>Keyboard\<close>: the keyboard handler, the table \<^verbatim>\<open>keyboard.h\<close> and \<open>readline\<close>, over
    \<open>keyboard = console +\<close> buffer and flags. The specification is a line editor on lists. Proved:
    refinement for each key, the invariant of all reachable states of the step relation
    \<open>kbd_step\<close>, that nothing bounds the buffer, and that \<open>readline\<close> returns the line once Enter
    comes.

  \<^item> \<open>Ata\<close>: the driver \<open>rw_sectors\<close> of \<^verbatim>\<open>kernel/fs/fs_commands.c\<close>. Proved: it copies sectors between
    drive and memory; the interface \<open>sector_device\<close> is all that the file system uses of it.

  \<^item> \<open>FsLayout\<close>: the packed structures of \<^verbatim>\<open>kernel/fs/fs.h\<close> as records and as bytes. \<open>Fs\<close>: the
    definitions of the rest of \<^verbatim>\<open>fs_commands.c\<close>, over \<open>fs = keyboard +\<close> superblock, current
    directory and buffers. \<open>FsBits\<close>: bitmaps and the search for a free bit. \<open>FsLookup\<close>: the inode
    table. \<open>FsPath\<close>: names and paths, with the specifications \<open>lookup\<close> and \<open>resolve\<close> on the disk.
    \<open>FsFiles\<close>: saving and loading files. \<open>FsCreate\<close>: a file that was created is found by its name.

  \<^item> \<open>Syscalls\<close>: \<^verbatim>\<open>kernel/interrupts/syscalls.c\<close>, \<^verbatim>\<open>unistd.c\<close> and \<^verbatim>\<open>kernel/stdlib.c\<close>, over
    \<open>kernel = fs +\<close> the heap and the tables of open files and inodes. \<open>OpenFiles\<close>: a missing file is
    not opened, how an inode enters the table of open inodes and what happens when the table is
    full, and what a read copies. \<open>FileCalls\<close>: what a write leaves in memory and on the disk, and
    what the last close clears, the byte behind the bitmap included. \<open>FileOpen\<close>: opening a file
    that exists, at any index \<open>j\<close> of the table of open inodes, maps fresh pages and reads the blocks of the
    inode at entry \<open>2 * j\<close> into memory, and what a read of the new descriptor then gives.

  \<^item> \<open>FormatDisk\<close>, \<open>FormatImage\<close>: \<^verbatim>\<open>format_disk.c\<close>, over an image file. Proved: where everything
    is placed, that a file's bytes and inode are stored, where the program writes over what it wrote
    before, and which bits of the boot block the kernel changes on such an image.

  \<^item> \<open>Boot\<close>, \<open>StartUp\<close>: \<^verbatim>\<open>kernel/prekernel.c\<close>, \<^verbatim>\<open>kernel/global_addresses.h\<close> and \<open>main\<close> of
    \<^verbatim>\<open>kernel/kernel.c\<close>, over \<open>machine = kernel +\<close> the descriptor table. Proved: with a usable
    memory map the prekernel returns, with the translation of every address known, and the kernel
    takes over its allocator and directory; the heap that \<open>main\<close> starts with gives the table of open
    inodes no memory.

  \<^item> \<open>Shell\<close>, \<open>ShellRun\<close>: the shell of \<^verbatim>\<open>kernel/kernel.c\<close>. Proved: typed keys select the
    command whose name was typed.

  \<^item> \<open>Printlite\<close>: \<^verbatim>\<open>kernel/printlite.c\<close>, the prekernel's older console.

  \<^bold>\<open>State.\<close> The records extend one another in the order \<open>ports\<close>, \<open>console\<close>, \<open>keyboard\<close>, \<open>fs\<close>, \<open>kernel\<close>,
  \<open>machine\<close>, and \<open>pmm\<close>, \<open>vmm\<close>, \<open>heap\<close>; \<open>kernel\<close> contains a \<open>heap\<close>, and its operations copy the
  one memory into the part that they call. So an operation of a part is applied as it is to the
  state of the whole, and \<open>frame_facts\<close> collects what it leaves alone. Addresses that the linker or the stack chooses
  are fields or parameters, and hypotheses say that the objects there do not overlap.

  \<^bold>\<open>Devices.\<close> A device is a function from the log of port accesses to the value that a port
  returns next; every definition that reads a port takes it as a parameter. \<open>ata_device\<close>
  and \<open>reports_masks\<close> are the documented behaviour of the drive and the interrupt controllers
  that the code relies on, as hypotheses; \<open>example_ata\<close> is a drive that satisfies its.

  \<^bold>\<open>Interfaces.\<close> \<open>bitmap\<close> (the memory manager's map, and a 64-bit chunk of a bitmap on disk),
  \<open>word_store\<close> (words in memory), \<open>block_allocator\<close> (what paging and the heap use of the
  physical memory manager), \<open>char_sink\<close> (what printing a string uses of \<open>putc\<close>) and
  \<open>sector_device\<close> are locales, each interpreted on the definitions that provide it.

  \<^bold>\<open>Loops and failure.\<close> Counting loops are \<open>fold\<close> over \<open>[0..<n]\<close> or recursion on the list they
  traverse. A loop that the code does not bound (polling, walking to a NUL byte, along a linked
  list, or until a free block turns up) is a \<open>partial_function\<close> in the option monad, where \<open>None\<close>
  is "no result"; every property about it includes that there is a result. \<open>None\<close> also stands for
  an access that C leaves undefined and the model does not represent, which the opening of the
  theory names. Accesses through pointers are not checked, as in the code: they reach whatever is
  there, and the properties on overflow say what. No fuel is used: interrupts during
  \<open>readline\<close> and the lines of the shell come from a list of inputs, and with none left the result
  is the waiting state.

  \<^bold>\<open>Not modelled.\<close> The 16-bit boot loader and the remaining assembly stubs, the link scripts, and
  \<^verbatim>\<open>kernel/fs/elf.h\<close>, whose declarations nothing uses. Of the processor: caches of translations,
  segment and task registers, and the user program that \<open>exec\<close> jumps to, which is left as the
  registers it starts with. Memory is linear: two addresses that the page tables map to one frame
  are two locations, and an access to an address that they do not map is not a fault. For the
  prekernel the translation it ends with shows that its own accesses, all below 1 MB, are mapped to
  themselves. The bitmap of the memory manager (0x30000 to 0x4FFFF) is a component of its own, and
  so is the input buffer; the first reaches the memory through the stray write of \<open>free_page\<close> behind
  it, of the second the 256 bytes are copied when the shell reads a line, and not what a longer
  line overwrites behind them. The flags that a system call passes to \<open>sys_open\<close> are a parameter
  (\<open>leftovers\<close>): the code reads them from a register that a call before may have changed. The debugging messages of \<^verbatim>\<open>malloc.c\<close> and of \<^verbatim>\<open>format_disk.c\<close> are left out, and code that
  is commented out is not there.
\<close>

end
